(* ===== verification/Prelude.thy ===== *)
theory Prelude
  imports Main "HOL-Library.AList" "HOL-Library.Product_Lexorder" "HOL-Library.Code_Target_Nat"
begin

text \<open>
  Shared vocabulary of the development.

  The Rust scalar types are type synonyms: signed ones over \<open>int\<close>, unsigned ones over
  \<open>nat\<close>; a plain \<open>+\<close>, \<open>-\<close> or \<open>*\<close> of the source is the wrapping operation below
  (the release profile of \<^verbatim>\<open>Cargo.toml\<close> leaves overflow checks off), a
  \<open>saturating_\<close> call is the saturating one, and a cast is the function that Rust's \<open>as\<close> denotes.
  Results are values of \<open>res\<close>: \<open>Ok\<close>, \<open>Err\<close>, or \<open>Panic\<close> for an \<open>unwrap\<close> or an index that
  fails. A function with a \<open>&mut self\<close> receiver returns its result paired with the state it
  leaves, also on \<open>Err\<close>; \<open>try_state\<close> and \<open>and_then\<close> are the \<open>?\<close> operator on such functions.
  The theory also holds the keyed table the code uses a \<open>HashMap\<close> or \<open>BTreeMap\<close> for, the
  interface that table offers, and the reachable states of a step relation.
\<close>

section \<open>Fact collections\<close>

named_theorems arith_defs "machine-integer operations"
named_theorems flow_splits "case splits of the control-flow combinators"

section \<open>Scalars\<close>

type_synonym i32 = int
type_synonym i64 = int
type_synonym u8 = nat
type_synonym u16 = nat
type_synonym u32 = nat
type_synonym u64 = nat
type_synonym usize = nat
type_synonym uuid = nat

abbreviation i32_max :: i32 where "i32_max \<equiv> 2147483647"
abbreviation i32_min :: i32 where "i32_min \<equiv> - 2147483648"
abbreviation i64_max :: int where "i64_max \<equiv> 9223372036854775807"

definition in_i32 :: "int \<Rightarrow> bool" where
  "in_i32 x \<longleftrightarrow> i32_min \<le> x \<and> x \<le> i32_max"

definition wrap32 :: "int \<Rightarrow> i32" where
  "wrap32 x = (x + 2147483648) mod 4294967296 - 2147483648"

definition sat32 :: "int \<Rightarrow> i32" where
  "sat32 x = max i32_min (min i32_max x)"

definition i32_add :: "i32 \<Rightarrow> i32 \<Rightarrow> i32" where [arith_defs]: "i32_add a b = wrap32 (a + b)"
definition i32_sub :: "i32 \<Rightarrow> i32 \<Rightarrow> i32" where [arith_defs]: "i32_sub a b = wrap32 (a - b)"
definition i32_mul :: "i32 \<Rightarrow> i32 \<Rightarrow> i32" where [arith_defs]: "i32_mul a b = wrap32 (a * b)"
definition i32_neg :: "i32 \<Rightarrow> i32" where [arith_defs]: "i32_neg a = wrap32 (- a)"
definition i32_abs :: "i32 \<Rightarrow> i32" where [arith_defs]: "i32_abs a = wrap32 \<bar>a\<bar>"
definition i32_saturating_add :: "i32 \<Rightarrow> i32 \<Rightarrow> i32" where
  [arith_defs]: "i32_saturating_add a b = sat32 (a + b)"
definition i32_saturating_sub :: "i32 \<Rightarrow> i32 \<Rightarrow> i32" where
  [arith_defs]: "i32_saturating_sub a b = sat32 (a - b)"
definition i32_saturating_mul :: "i32 \<Rightarrow> i32 \<Rightarrow> i32" where
  [arith_defs]: "i32_saturating_mul a b = sat32 (a * b)"

text \<open>Rust's \<open>/\<close> on signed integers truncates towards zero.\<close>

definition i32_div :: "i32 \<Rightarrow> i32 \<Rightarrow> i32" where
  "i32_div a b = sgn a * sgn b * (\<bar>a\<bar> div \<bar>b\<bar>)"

fun i32_sum_from :: "i32 \<Rightarrow> i32 list \<Rightarrow> i32" where
  "i32_sum_from acc [] = acc"
| "i32_sum_from acc (x # xs) = i32_sum_from (i32_add acc x) xs"

definition i32_sum :: "i32 list \<Rightarrow> i32" where "i32_sum xs = i32_sum_from 0 xs"

definition u8_saturating_add :: "u8 \<Rightarrow> u8 \<Rightarrow> u8" where "u8_saturating_add a b = min 255 (a + b)"
definition u8_mul :: "u8 \<Rightarrow> u8 \<Rightarrow> u8" where "u8_mul a b = (a * b) mod 256"
definition u32_add :: "u32 \<Rightarrow> u32 \<Rightarrow> u32" where "u32_add a b = (a + b) mod 4294967296"
definition u32_checked_add :: "u32 \<Rightarrow> u32 \<Rightarrow> u32 option" where
  "u32_checked_add a b = (if a + b < 4294967296 then Some (a + b) else None)"
definition u64_add :: "u64 \<Rightarrow> u64 \<Rightarrow> u64" where "u64_add a b = (a + b) mod 18446744073709551616"
definition u64_checked_add :: "u64 \<Rightarrow> u64 \<Rightarrow> u64 option" where
  "u64_checked_add a b = (if a + b < 18446744073709551616 then Some (a + b) else None)"
definition u64_checked_sub :: "u64 \<Rightarrow> u64 \<Rightarrow> u64 option" where
  "u64_checked_sub a b = (if b \<le> a then Some (a - b) else None)"

text \<open>Unsigned \<open>-\<close> wraps at the width given.\<close>

definition unsigned_sub :: "nat \<Rightarrow> nat \<Rightarrow> nat \<Rightarrow> nat" where
  "unsigned_sub w a b = (if b \<le> a then a - b else 2 ^ w + a - b)"

lemma wrap32_id: "in_i32 x \<Longrightarrow> wrap32 x = x"
  by (simp add: in_i32_def wrap32_def)

lemma in_i32_wrap32 [simp]: "in_i32 (wrap32 x)"
  by (simp add: in_i32_def wrap32_def)

lemma wrap32_idem [simp]: "wrap32 (wrap32 x) = wrap32 x"
  by (simp add: wrap32_id)

lemma wrap32_range: "i32_min \<le> wrap32 x" "wrap32 x \<le> i32_max"
  using in_i32_wrap32 [of x] by (simp_all add: in_i32_def)

lemma wrap32_add_left [simp]: "wrap32 (wrap32 x + y) = wrap32 (x + y)"
proof -
  have "wrap32 x + y + 2147483648 = (x + 2147483648) mod 4294967296 + y"
    by (simp add: wrap32_def)
  then have "(wrap32 x + y + 2147483648) mod 4294967296 = (x + 2147483648 + y) mod 4294967296"
    by (simp only: mod_add_left_eq)
  then show ?thesis by (simp add: wrap32_def ac_simps)
qed

lemma in_i32_sat32 [simp]: "in_i32 (sat32 x)"
  by (simp add: in_i32_def sat32_def)

lemma sat32_id: "in_i32 x \<Longrightarrow> sat32 x = x"
  by (simp add: in_i32_def sat32_def)

lemma i32_sum_from_eq: "in_i32 acc \<Longrightarrow> i32_sum_from acc xs = wrap32 (acc + sum_list xs)"
  by (induction xs arbitrary: acc) (simp_all add: wrap32_id i32_add_def add.assoc)

lemma i32_sum_eq: "i32_sum xs = wrap32 (sum_list xs)"
  by (simp add: i32_sum_def i32_sum_from_eq in_i32_def)

lemma in_i32_sum [simp]: "in_i32 (i32_sum xs)"
  by (simp add: i32_sum_eq)

lemma u8_saturating_add_le: "u8_saturating_add a b \<le> 255"
  by (simp add: u8_saturating_add_def)

lemma unsigned_sub_id [simp]: "b \<le> a \<Longrightarrow> unsigned_sub w a b = a - b"
  by (simp add: unsigned_sub_def)

section \<open>Decimal rendering\<close>

text \<open>The \<open>Display\<close> of integers, used by \<open>format!\<close>.\<close>

fun show_nat :: "nat \<Rightarrow> string" where
  "show_nat n = (if n < 10 then [char_of (48 + n)] else show_nat (n div 10) @ [char_of (48 + n mod 10)])"

declare show_nat.simps [simp del]

definition show_int :: "int \<Rightarrow> string" where
  "show_int i = (if i < 0 then ''-'' @ show_nat (nat (- i)) else show_nat (nat i))"

section \<open>Strings\<close>

text \<open>
  A string is the list of the bytes of its UTF-8 encoding, so \<open>len()\<close> is its length. \<open>all_blank\<close> is
  \<open>trim().is_empty()\<close>: nothing but characters with the Unicode property White_Space.
\<close>

definition byte :: "char \<Rightarrow> nat" where "byte c = of_char c"

fun all_blank :: "string \<Rightarrow> bool" where
  "all_blank [] = True"
| "all_blank (a # s) =
     (if 9 \<le> byte a \<and> byte a \<le> 13 \<or> byte a = 32 then all_blank s
      else case s of
        [] \<Rightarrow> False
      | b # t \<Rightarrow>
          if byte a = 194 \<and> byte b \<in> {133, 160} then all_blank t
          else case t of
            [] \<Rightarrow> False
          | c # u \<Rightarrow>
              if (byte a, byte b, byte c) \<in> {(225, 154, 128), (226, 129, 159), (227, 128, 128)}
                 \<or> byte a = 226 \<and> byte b = 128 \<and> (128 \<le> byte c \<and> byte c \<le> 138 \<or> byte c \<in> {168, 169, 175})
              then all_blank u else False)"

definition strip_prefix :: "string \<Rightarrow> string \<Rightarrow> string option" where
  "strip_prefix p s = (if take (length p) s = p then Some (drop (length p) s) else None)"

definition starts_with :: "string \<Rightarrow> string \<Rightarrow> bool" where
  "starts_with s p \<longleftrightarrow> take (length p) s = p"

definition ends_with :: "string \<Rightarrow> string \<Rightarrow> bool" where
  "ends_with s p \<longleftrightarrow> starts_with (rev s) (rev p)"

text \<open>\<open>split_once\<close> at the first occurrence of a character.\<close>

fun split_once :: "char \<Rightarrow> string \<Rightarrow> (string \<times> string) option" where
  "split_once c [] = None"
| "split_once c (x # xs) =
     (if x = c then Some ([], xs) else map_option (\<lambda>(a, b). (x # a, b)) (split_once c xs))"

definition digit_of :: "char \<Rightarrow> nat option" where
  "digit_of c = (let n = of_char c :: nat in if 48 \<le> n \<and> n \<le> 57 then Some (n - 48) else None)"

fun digits_value :: "nat \<Rightarrow> string \<Rightarrow> nat option" where
  "digits_value acc [] = Some acc"
| "digits_value acc (c # cs) =
     (case digit_of c of None \<Rightarrow> None | Some d \<Rightarrow> digits_value (acc * 10 + d) cs)"

text \<open>\<open>str::parse::<u8>\<close>: an optional plus sign, at least one digit, at most 255.\<close>

definition parse_u8 :: "string \<Rightarrow> u8 option" where
  "parse_u8 s =
     (let t = (case s of [] \<Rightarrow> [] | c # cs \<Rightarrow> if c = CHR ''+'' then cs else s)
      in if t = [] then None
         else case digits_value 0 t of None \<Rightarrow> None | Some n \<Rightarrow> if n \<le> 255 then Some n else None)"

section \<open>Results and control flow\<close>

datatype ('e, 'a) res = Ok 'a | Err 'e | Panic

definition ok_or :: "'a option \<Rightarrow> 'e \<Rightarrow> ('e, 'a) res" where
  "ok_or x e = (case x of Some v \<Rightarrow> Ok v | None \<Rightarrow> Err e)"

definition unwrap :: "'a option \<Rightarrow> ('e, 'a) res" where
  "unwrap x = (case x of Some v \<Rightarrow> Ok v | None \<Rightarrow> Panic)"

text \<open>An early \<open>return Err(e)\<close> under a condition.\<close>

definition reject_if :: "bool \<Rightarrow> 'e \<Rightarrow> ('e, unit) res" where
  "reject_if b e = (if b then Err e else Ok ())"

definition bind_res :: "('e, 'a) res \<Rightarrow> ('a \<Rightarrow> ('e, 'b) res) \<Rightarrow> ('e, 'b) res" where
  "bind_res r k = (case r of Ok x \<Rightarrow> k x | Err e \<Rightarrow> Err e | Panic \<Rightarrow> Panic)"

definition map_err :: "('e \<Rightarrow> 'f) \<Rightarrow> ('e, 'a) res \<Rightarrow> ('f, 'a) res" where
  "map_err f r = (case r of Ok x \<Rightarrow> Ok x | Err e \<Rightarrow> Err (f e) | Panic \<Rightarrow> Panic)"

text \<open>\<open>?\<close> on a pure result inside a function over the state \<open>s\<close>.\<close>

definition try_state :: "('e, 'a) res \<Rightarrow> 's \<Rightarrow> ('a \<Rightarrow> ('e, 'b) res \<times> 's) \<Rightarrow> ('e, 'b) res \<times> 's" where
  "try_state r s k = (case r of Ok x \<Rightarrow> k x | Err e \<Rightarrow> (Err e, s) | Panic \<Rightarrow> (Panic, s))"

text \<open>\<open>?\<close> on a call that may also change the state.\<close>

definition and_then ::
  "('e, 'a) res \<times> 's \<Rightarrow> ('a \<Rightarrow> 's \<Rightarrow> ('e, 'b) res \<times> 's) \<Rightarrow> ('e, 'b) res \<times> 's" where
  "and_then m k = (case m of (Ok x, s) \<Rightarrow> k x s | (Err e, s) \<Rightarrow> (Err e, s) | (Panic, s) \<Rightarrow> (Panic, s))"

lemma ok_or_simps [simp]: "ok_or (Some v) e = Ok v" "ok_or None e = Err e"
  by (simp_all add: ok_or_def)

lemma unwrap_simps [simp]: "unwrap (Some v) = Ok v" "unwrap None = Panic"
  by (simp_all add: unwrap_def)

lemma ok_or_iff [simp]:
  "ok_or x e = Ok v \<longleftrightarrow> x = Some v" "ok_or x e = Err e' \<longleftrightarrow> x = None \<and> e' = e" "ok_or x e \<noteq> Panic"
  by (auto simp: ok_or_def split: option.splits)

lemma unwrap_iff [simp]:
  "unwrap x = Ok v \<longleftrightarrow> x = Some v" "unwrap x \<noteq> Err e'" "unwrap x = Panic \<longleftrightarrow> x = None"
  by (auto simp: unwrap_def split: option.splits)

lemma reject_if_iff [simp]:
  "reject_if b e = Ok u \<longleftrightarrow> \<not> b" "reject_if b e = Err e' \<longleftrightarrow> b \<and> e' = e" "reject_if b e \<noteq> Panic"
  by (auto simp: reject_if_def)

lemma bind_res_simps [simp]:
  "bind_res (Ok x) k = k x" "bind_res (Err e) k = Err e" "bind_res Panic k = Panic"
  by (simp_all add: bind_res_def)

lemma bind_res_Ok: "bind_res r k = Ok y \<longleftrightarrow> (\<exists>x. r = Ok x \<and> k x = Ok y)"
  by (cases r) simp_all

lemma bind_res_Panic: "bind_res r k = Panic \<longleftrightarrow> r = Panic \<or> (\<exists>x. r = Ok x \<and> k x = Panic)"
  by (cases r) simp_all

lemma bind_res_Err: "bind_res r k = Err e \<longleftrightarrow> r = Err e \<or> (\<exists>x. r = Ok x \<and> k x = Err e)"
  by (cases r) simp_all

lemmas bind_res_iffs = bind_res_Ok bind_res_Err bind_res_Panic

text \<open>A \<open>for\<close> loop whose body may return early with an error.\<close>

fun fold_res :: "('x \<Rightarrow> 'a \<Rightarrow> ('e, 'a) res) \<Rightarrow> 'x list \<Rightarrow> 'a \<Rightarrow> ('e, 'a) res" where
  "fold_res f [] acc = Ok acc"
| "fold_res f (x # xs) acc = bind_res (f x acc) (fold_res f xs)"

lemma fold_res_invariant:
  assumes "fold_res f xs acc = Ok acc'" "P acc"
    and "\<And>x a a'. x \<in> set xs \<Longrightarrow> P a \<Longrightarrow> f x a = Ok a' \<Longrightarrow> P a'"
  shows "P acc'"
  using assms
proof (induction xs arbitrary: acc)
  case (Cons x xs)
  from Cons.prems(1) obtain a where a: "f x acc = Ok a" "fold_res f xs a = Ok acc'"
    by (auto simp: bind_res_Ok)
  show ?case by (rule Cons.IH [OF a(2)]) (use Cons.prems a(1) in auto)
qed simp

lemma map_err_iff [simp]:
  "map_err f r = Ok x \<longleftrightarrow> r = Ok x" "map_err f r = Panic \<longleftrightarrow> r = Panic"
  "map_err f r = Err y \<longleftrightarrow> (\<exists>e. r = Err e \<and> y = f e)"
  by (auto simp: map_err_def split: res.splits)

lemma map_err_simps [simp]:
  "map_err f (Ok x) = Ok x" "map_err f (Err e) = Err (f e)" "map_err f Panic = Panic"
  by (simp_all add: map_err_def)

lemma try_state_simps [simp]:
  "try_state (Ok x) s k = k x" "try_state (Err e) s k = (Err e, s)" "try_state Panic s k = (Panic, s)"
  by (simp_all add: try_state_def)

lemma and_then_simps [simp]:
  "and_then (Ok x, s) k = k x s" "and_then (Err e, s) k = (Err e, s)" "and_then (Panic, s) k = (Panic, s)"
  by (simp_all add: and_then_def)

lemma try_state_split [flow_splits]:
  "P (try_state r s k) \<longleftrightarrow>
     (\<forall>x. r = Ok x \<longrightarrow> P (k x)) \<and> (\<forall>e. r = Err e \<longrightarrow> P (Err e, s)) \<and> (r = Panic \<longrightarrow> P (Panic, s))"
  by (cases r) simp_all

lemma and_then_split [flow_splits]:
  "P (and_then m k) \<longleftrightarrow>
     (\<forall>x s. m = (Ok x, s) \<longrightarrow> P (k x s)) \<and> (\<forall>e s. m = (Err e, s) \<longrightarrow> P (Err e, s)) \<and>
     (\<forall>s. m = (Panic, s) \<longrightarrow> P (Panic, s))"
  by (cases m; cases "fst m") simp_all

text \<open>A \<open>for\<close> loop over a body that changes the state.\<close>

fun for_state ::
  "('x \<Rightarrow> 'a \<Rightarrow> 's \<Rightarrow> ('e, 'a) res \<times> 's) \<Rightarrow> 'x list \<Rightarrow> 'a \<Rightarrow> 's \<Rightarrow> ('e, 'a) res \<times> 's" where
  "for_state f [] acc s = (Ok acc, s)"
| "for_state f (x # xs) acc s = and_then (f x acc s) (for_state f xs)"

text \<open>Indexing a vector.\<close>

definition index_at :: "'a list \<Rightarrow> usize \<Rightarrow> ('e, 'a) res" where
  "index_at xs i = (if i < length xs then Ok (xs ! i) else Panic)"

text \<open>A computation that returns a value with \<open>Q\<close>, in a state related to the one it began in.\<close>

definition settles :: "('s \<Rightarrow> 's \<Rightarrow> bool) \<Rightarrow> ('a \<Rightarrow> bool) \<Rightarrow> 's \<Rightarrow> ('e, 'a) res \<times> 's \<Rightarrow> bool" where
  "settles R Q s m \<longleftrightarrow> (\<exists>x t. m = (Ok x, t) \<and> R s t \<and> Q x)"

lemma try_state_Ok: "try_state p s k = (Ok y, t) \<longleftrightarrow> (\<exists>x. p = Ok x \<and> k x = (Ok y, t))"
  by (cases p) simp_all

lemma and_then_Ok: "and_then m k = (Ok y, t) \<longleftrightarrow> (\<exists>x s. m = (Ok x, s) \<and> k x s = (Ok y, t))"
  by (cases m; cases "fst m") auto

lemmas run_Ok = try_state_Ok and_then_Ok

text \<open>The two verdicts on a run that evaluation can decide: it succeeds with a value that has
  \<open>P\<close>, or it is refused with the error \<open>e\<close>.\<close>

definition succeeds :: "('a \<Rightarrow> bool) \<Rightarrow> ('e, 'a) res \<times> 's \<Rightarrow> bool" where
  "succeeds P m \<longleftrightarrow> (case fst m of Ok x \<Rightarrow> P x | _ \<Rightarrow> False)"

definition refused :: "'e \<Rightarrow> ('e, 'a) res \<times> 's \<Rightarrow> bool" where
  "refused e m \<longleftrightarrow> (case fst m of Err x \<Rightarrow> x = e | _ \<Rightarrow> False)"

lemma succeedsE:
  assumes "succeeds P m"
  obtains x s where "m = (Ok x, s)" "P x"
  using assms by (cases m; cases "fst m") (auto simp: succeeds_def)

lemma refusedE:
  assumes "refused e m"
  obtains s where "m = (Err e, s)"
  using assms by (cases m; cases "fst m") (auto simp: refused_def)

text \<open>\<open>Result::map_err\<close> on a call that may also change the state.\<close>

definition err_as :: "'f \<Rightarrow> ('e, 'a) res \<times> 's \<Rightarrow> ('f, 'a) res \<times> 's" where
  "err_as f m = (map_err (\<lambda>_. f) (fst m), snd m)"

lemma err_as_simps [simp]:
  "err_as f (Ok x, s) = (Ok x, s)" "err_as f (Err e, s) = (Err f, s)" "err_as f (Panic, s) = (Panic, s)"
  by (simp_all add: err_as_def map_err_def)

lemma err_as_Ok: "err_as f m = (Ok x, s) \<longleftrightarrow> m = (Ok x, s)"
  by (cases m; cases "fst m") auto

section \<open>Iterator adaptors\<close>

text \<open>\<open>Iterator::min_by_key\<close> returns the first of the minimal elements.\<close>

fun min_by_key :: "('a \<Rightarrow> 'k::linorder) \<Rightarrow> 'a list \<Rightarrow> 'a option" where
  "min_by_key f [] = None"
| "min_by_key f (x # xs) =
     (case min_by_key f xs of None \<Rightarrow> Some x | Some y \<Rightarrow> if f y < f x then Some y else Some x)"

lemma min_by_key_None [simp]: "min_by_key f xs = None \<longleftrightarrow> xs = []"
  by (cases xs) (auto split: option.splits)

lemma min_by_key_mem: "min_by_key f xs = Some x \<Longrightarrow> x \<in> set xs"
  by (induction xs) (auto split: option.splits if_splits)

lemma min_by_key_le: "min_by_key f xs = Some x \<Longrightarrow> y \<in> set xs \<Longrightarrow> f x \<le> f y"
proof (induction xs arbitrary: x)
  case (Cons a xs)
  then show ?case
    by (cases "min_by_key f xs") (auto split: if_splits intro: order.trans less_imp_le)
qed simp

text \<open>\<open>iter_mut().find\<close> followed by an update of the element found.\<close>

fun modify_first :: "('a \<Rightarrow> bool) \<Rightarrow> ('a \<Rightarrow> 'a) \<Rightarrow> 'a list \<Rightarrow> 'a list" where
  "modify_first p f [] = []"
| "modify_first p f (x # xs) = (if p x then f x # xs else x # modify_first p f xs)"

text \<open>\<open>Iterator::position\<close>.\<close>

fun position_of :: "('a \<Rightarrow> bool) \<Rightarrow> 'a list \<Rightarrow> usize option" where
  "position_of p [] = None"
| "position_of p (x # xs) = (if p x then Some 0 else map_option Suc (position_of p xs))"

lemma position_of_Some:
  "position_of p xs = Some i \<Longrightarrow> i < length xs \<and> p (xs ! i) \<and> (\<forall>j<i. \<not> p (xs ! j))"
proof (induction xs arbitrary: i)
  case (Cons a xs)
  then show ?case by (auto simp: nth_Cons split: if_splits nat.splits)
qed simp

lemma position_of_None: "position_of p xs = None \<longleftrightarrow> (\<forall>x\<in>set xs. \<not> p x)"
  by (induction xs) auto

section \<open>Keyed tables\<close>

type_synonym ('k, 'v) table = "('k \<times> 'v) list"

definition table_get :: "('k, 'v) table \<Rightarrow> 'k \<Rightarrow> 'v option" where
  "table_get t k = map_of t k"

text \<open>\<open>get_mut\<close> followed by an assignment through the reference.\<close>

definition table_modify :: "'k \<Rightarrow> ('v \<Rightarrow> 'v) \<Rightarrow> ('k, 'v) table \<Rightarrow> ('k, 'v) table" where
  "table_modify k f t = map (\<lambda>(j, v). if j = k then (j, f v) else (j, v)) t"

definition table_put :: "'k \<Rightarrow> 'v \<Rightarrow> ('k, 'v) table \<Rightarrow> ('k, 'v) table" where
  "table_put k v t = AList.update k v t"

definition table_values :: "('k, 'v) table \<Rightarrow> 'v list" where
  "table_values t = map snd t"

definition table_ok :: "('k, 'v) table \<Rightarrow> bool" where
  "table_ok t \<longleftrightarrow> distinct (map fst t)"

text \<open>
  What the code relies on of a keyed table: a lookup after a change, the values are those of
  the keys, and changes keep the keys unique.
\<close>

locale keyed_table =
  fixes get :: "'t \<Rightarrow> 'k \<Rightarrow> 'v option"
    and modify :: "'k \<Rightarrow> ('v \<Rightarrow> 'v) \<Rightarrow> 't \<Rightarrow> 't"
    and vals :: "'t \<Rightarrow> 'v list"
    and ok :: "'t \<Rightarrow> bool"
  assumes get_modify: "get (modify k f t) j = (if j = k then map_option f (get t j) else get t j)"
    and vals_get: "ok t \<Longrightarrow> v \<in> set (vals t) \<longleftrightarrow> (\<exists>k. get t k = Some v)"
    and ok_modify: "ok t \<Longrightarrow> ok (modify k f t)"
begin

lemma all_modify:
  assumes "ok t" "\<forall>v\<in>set (vals t). P v" "\<And>v. get t k = Some v \<Longrightarrow> P v \<Longrightarrow> P (f v)"
  shows "\<forall>v\<in>set (vals (modify k f t)). P v"
proof
  fix v assume "v \<in> set (vals (modify k f t))"
  then obtain j where j: "get (modify k f t) j = Some v"
    using vals_get [OF ok_modify [OF assms(1)]] by blast
  then show "P v"
    using assms vals_get [OF assms(1)] by (fastforce simp: get_modify split: if_splits)
qed

lemma pointwise_modify:
  assumes "\<And>v. R v v" "\<And>v. get t k = Some v \<Longrightarrow> R v (f v)" "get t j = Some v"
  shows "\<exists>v'. get (modify k f t) j = Some v' \<and> R v v'"
  using assms by (auto simp: get_modify)

lemma domain_modify: "get (modify k f t) j = None \<longleftrightarrow> get t j = None"
  by (simp add: get_modify)

end

lemma table_get_modify [simp]:
  "table_get (table_modify k f t) j = (if j = k then map_option f (table_get t j) else table_get t j)"
  by (induction t) (auto simp: table_get_def table_modify_def)

lemma table_keys_modify [simp]: "map fst (table_modify k f t) = map fst t"
  by (induction t) (auto simp: table_modify_def)

lemma table_values_iff: "table_ok t \<Longrightarrow> v \<in> set (table_values t) \<longleftrightarrow> (\<exists>k. table_get t k = Some v)"
  by (force simp: table_ok_def table_values_def table_get_def)

lemma table_get_values: "table_get t k = Some v \<Longrightarrow> v \<in> set (table_values t)"
  by (force simp: table_values_def table_get_def dest: map_of_SomeD)

lemma table_get_None: "table_get t k = None \<longleftrightarrow> k \<notin> set (map fst t)"
  by (simp add: table_get_def map_of_eq_None_iff)

lemma table_get_keys: "k \<in> set (map fst t) \<Longrightarrow> \<exists>v. table_get t k = Some v"
  using table_get_None by fastforce

lemma table_ok_modify [simp]: "table_ok (table_modify k f t) = table_ok t"
  by (simp add: table_ok_def)

interpretation table: keyed_table table_get table_modify table_values table_ok
  by unfold_locales (simp_all add: table_values_iff)

lemma table_get_put [simp]: "table_get (table_put k v t) j = (if j = k then Some v else table_get t j)"
  by (simp add: table_get_def table_put_def update_conv')

lemma table_ok_put [simp]: "table_ok t \<Longrightarrow> table_ok (table_put k v t)"
  by (simp add: table_ok_def table_put_def distinct_update)

section \<open>Reachable states\<close>

inductive reachable_by :: "('s \<Rightarrow> bool) \<Rightarrow> ('s \<Rightarrow> 's \<Rightarrow> bool) \<Rightarrow> 's \<Rightarrow> bool" for init step where
  start: "init s \<Longrightarrow> reachable_by init step s"
| step: "reachable_by init step s \<Longrightarrow> step s t \<Longrightarrow> reachable_by init step t"

text \<open>A machine with an inductive invariant.\<close>

locale invariant_machine =
  fixes init :: "'s \<Rightarrow> bool" and step :: "'s \<Rightarrow> 's \<Rightarrow> bool" and inv :: "'s \<Rightarrow> bool"
  assumes init_inv: "init s \<Longrightarrow> inv s"
    and step_inv: "inv s \<Longrightarrow> step s t \<Longrightarrow> inv t"
begin

lemma reachable_inv: "reachable_by init step s \<Longrightarrow> inv s"
  by (induction rule: reachable_by.induct) (auto intro: init_inv step_inv)

lemma steps_inv: "step\<^sup>*\<^sup>* s t \<Longrightarrow> inv s \<Longrightarrow> inv t"
  by (induction rule: rtranclp_induct) (auto intro: step_inv)

end

end
