(* ===== verification/Dice.thy ===== *)
theory Dice
  imports Prelude
begin

text \<open>
  \<^verbatim>\<open>crates/app-domain/src/rng.rs\<close> and \<^verbatim>\<open>dice.rs\<close>: the seeded generator and the dice.

  The generator \<open>SmallRng\<close> belongs to the \<open>rand\<close> package. It is the type variable \<open>'g\<close>; its
  \<open>random_range(1..=n)\<close> is the parameter \<open>rr\<close> (a \<open>sampler\<close>) and its \<open>seed_from_u64\<close> the
  parameter \<open>sf\<close>. \<open>sampler_ok\<close> is what the package documents of \<open>random_range\<close>: the value
  lies in the range asked for.
\<close>

section \<open>Generator\<close>

type_synonym 'g sampler = "i32 \<Rightarrow> 'g \<Rightarrow> i32 \<times> 'g"

definition sampler_ok :: "'g sampler \<Rightarrow> bool" where
  "sampler_ok rr \<longleftrightarrow> (\<forall>n g. 1 \<le> n \<longrightarrow> 1 \<le> fst (rr n g) \<and> fst (rr n g) \<le> n)"

record 'g seeded_rng =
  rng_inner :: 'g
  rng_seed :: u64

definition from_seed :: "(u64 \<Rightarrow> 'g) \<Rightarrow> u64 \<Rightarrow> 'g seeded_rng" where
  "from_seed sf seed = \<lparr>rng_inner = sf seed, rng_seed = seed\<rparr>"

section \<open>Dice\<close>

datatype die = D4 | D6 | D8 | D10 | D12 | D20 | D100

fun sides :: "die \<Rightarrow> i32" where
  "sides D4 = 4"
| "sides D6 = 6"
| "sides D8 = 8"
| "sides D10 = 10"
| "sides D12 = 12"
| "sides D20 = 20"
| "sides D100 = 100"

record dice_expr =
  de_count :: u8
  de_die :: die
  de_modifier :: i32

record roll_detail =
  rd_rolls :: "i32 list"
  rd_modifier :: i32
  rd_total :: i32

definition roll_one :: "'g sampler \<Rightarrow> die \<Rightarrow> 'g seeded_rng \<Rightarrow> i32 \<times> 'g seeded_rng" where
  "roll_one rr d rng = (let (v, g) = rr (sides d) (rng_inner rng) in (v, rng\<lparr>rng_inner := g\<rparr>))"

fun roll_times :: "'g sampler \<Rightarrow> die \<Rightarrow> nat \<Rightarrow> 'g seeded_rng \<Rightarrow> i32 list \<times> 'g seeded_rng" where
  "roll_times rr d 0 rng = ([], rng)"
| "roll_times rr d (Suc n) rng =
     (let (v, rng1) = roll_one rr d rng; (vs, rng2) = roll_times rr d n rng1 in (v # vs, rng2))"

definition roll_expr_detailed ::
  "'g sampler \<Rightarrow> dice_expr \<Rightarrow> 'g seeded_rng \<Rightarrow> roll_detail \<times> 'g seeded_rng" where
  "roll_expr_detailed rr e rng =
     (let (rolls, rng1) = roll_times rr (de_die e) (de_count e) rng;
          total = i32_add (i32_sum rolls) (de_modifier e)
      in (\<lparr>rd_rolls = rolls, rd_modifier = de_modifier e, rd_total = total\<rparr>, rng1))"

definition roll_expr :: "'g sampler \<Rightarrow> dice_expr \<Rightarrow> 'g seeded_rng \<Rightarrow> i32 \<times> 'g seeded_rng" where
  "roll_expr rr e rng = (let (d, rng1) = roll_expr_detailed rr e rng in (rd_total d, rng1))"

definition roll_with_advantage ::
  "'g sampler \<Rightarrow> die \<Rightarrow> i32 \<Rightarrow> 'g seeded_rng \<Rightarrow> (i32 \<times> i32 list) \<times> 'g seeded_rng" where
  "roll_with_advantage rr d m rng =
     (let (a, rng1) = roll_one rr d rng; (b, rng2) = roll_one rr d rng1
      in ((i32_add (max a b) m, [a, b]), rng2))"

definition roll_with_disadvantage ::
  "'g sampler \<Rightarrow> die \<Rightarrow> i32 \<Rightarrow> 'g seeded_rng \<Rightarrow> (i32 \<times> i32 list) \<times> 'g seeded_rng" where
  "roll_with_disadvantage rr d m rng =
     (let (a, rng1) = roll_one rr d rng; (b, rng2) = roll_one rr d rng1
      in ((i32_add (min a b) m, [a, b]), rng2))"

definition roll_d20_detailed ::
  "'g sampler \<Rightarrow> i32 \<Rightarrow> bool \<Rightarrow> bool \<Rightarrow> 'g seeded_rng \<Rightarrow> roll_detail \<times> 'g seeded_rng" where
  "roll_d20_detailed rr m advantage disadvantage rng =
     (if advantage = disadvantage
      then roll_expr_detailed rr \<lparr>de_count = 1, de_die = D20, de_modifier = m\<rparr> rng
      else let ((total, rolls), rng1) =
                 (if advantage then roll_with_advantage rr D20 m rng
                  else roll_with_disadvantage rr D20 m rng)
           in (\<lparr>rd_rolls = rolls, rd_modifier = m, rd_total = total\<rparr>, rng1))"

section \<open>Facts about dice\<close>

lemma sides_range: "4 \<le> sides d" "sides d \<le> 100"
  by (cases d; simp)+

lemma roll_one_range:
  assumes "sampler_ok rr" "roll_one rr d rng = (v, rng')"
  shows "1 \<le> v \<and> v \<le> sides d"
proof -
  have "v = fst (rr (sides d) (rng_inner rng))"
    using assms(2) by (auto simp: roll_one_def split: prod.splits)
  then show ?thesis
    using assms(1) sides_range(1) [of d] by (simp add: sampler_ok_def)
qed

lemma roll_one_seed [simp]: "rng_seed (snd (roll_one rr d rng)) = rng_seed rng"
  by (simp add: roll_one_def split: prod.splits)

lemma roll_times_length: "length (fst (roll_times rr d n rng)) = n"
  by (induction n arbitrary: rng) (auto split: prod.splits, metis fst_conv)

lemma roll_times_range:
  "sampler_ok rr \<Longrightarrow> v \<in> set (fst (roll_times rr d n rng)) \<Longrightarrow> 1 \<le> v \<and> v \<le> sides d"
proof (induction n arbitrary: rng)
  case (Suc n)
  obtain w rng1 where one: "roll_one rr d rng = (w, rng1)" by fastforce
  obtain ws rng2 where rest: "roll_times rr d n rng1 = (ws, rng2)" by fastforce
  from Suc.prems(2) one rest have "v = w \<or> v \<in> set ws" by simp
  then show ?case
    using roll_one_range [OF Suc.prems(1) one] Suc.IH [OF Suc.prems(1), of rng1] rest by auto
qed simp

lemma sum_list_range:
  fixes l u :: int
  assumes "\<forall>v\<in>set vs. l \<le> v \<and> v \<le> u"
  shows "int (length vs) * l \<le> sum_list vs \<and> sum_list vs \<le> int (length vs) * u"
  using assms by (induction vs) (auto simp: algebra_simps)

lemma roll_times_sum:
  assumes "sampler_ok rr"
  shows "int n \<le> sum_list (fst (roll_times rr d n rng)) \<and>
         sum_list (fst (roll_times rr d n rng)) \<le> int n * sides d"
  using sum_list_range [of "fst (roll_times rr d n rng)" 1 "sides d"]
    roll_times_range [OF assms, of _ d n rng]
  by (simp add: roll_times_length)

lemma roll_expr_detailed_rolls:
  "roll_expr_detailed rr e rng = (dt, rng') \<Longrightarrow>
     rd_rolls dt = fst (roll_times rr (de_die e) (de_count e) rng) \<and> rd_modifier dt = de_modifier e \<and>
     rd_total dt = wrap32 (sum_list (rd_rolls dt) + de_modifier e)"
  by (auto simp: roll_expr_detailed_def Let_def i32_sum_eq i32_add_def split: prod.splits)

lemma roll_expr_detailed_in_i32: "roll_expr_detailed rr e rng = (dt, rng') \<Longrightarrow> in_i32 (rd_total dt)"
  by (auto dest: roll_expr_detailed_rolls)

text \<open>The total of a bounded expression: no wrap-around, and the arithmetic range of the dice.\<close>

lemma roll_expr_detailed_bounds:
  assumes ok: "sampler_ok rr" and roll: "roll_expr_detailed rr e rng = (dt, rng')"
    and cnt: "de_count e \<le> 255" and m: "\<bar>de_modifier e\<bar> \<le> 1000000000"
  shows "length (rd_rolls dt) = de_count e"
    and "\<forall>v\<in>set (rd_rolls dt). 1 \<le> v \<and> v \<le> sides (de_die e)"
    and "rd_total dt = sum_list (rd_rolls dt) + de_modifier e"
    and "int (de_count e) + de_modifier e \<le> rd_total dt"
    and "rd_total dt \<le> int (de_count e) * sides (de_die e) + de_modifier e"
proof -
  note r = roll_expr_detailed_rolls [OF roll]
  show "length (rd_rolls dt) = de_count e" using r by (simp add: roll_times_length)
  show "\<forall>v\<in>set (rd_rolls dt). 1 \<le> v \<and> v \<le> sides (de_die e)"
    using r roll_times_range [OF ok] by simp
  have s: "int (de_count e) \<le> sum_list (rd_rolls dt)"
    "sum_list (rd_rolls dt) \<le> int (de_count e) * sides (de_die e)"
    using roll_times_sum [OF ok] r by auto
  have "int (de_count e) * sides (de_die e) \<le> 255 * 100"
    using cnt sides_range [of "de_die e"] by (intro mult_mono) auto
  then have "in_i32 (sum_list (rd_rolls dt) + de_modifier e)"
    using s m unfolding in_i32_def by linarith
  then show total: "rd_total dt = sum_list (rd_rolls dt) + de_modifier e"
    using r by (simp add: wrap32_id)
  show "int (de_count e) + de_modifier e \<le> rd_total dt"
    "rd_total dt \<le> int (de_count e) * sides (de_die e) + de_modifier e"
    using s total by simp_all
qed

lemma roll_d20_modifier: "roll_d20_detailed rr m a b rng = (dt, rng') \<Longrightarrow> rd_modifier dt = m"
  by (auto simp: roll_d20_detailed_def roll_expr_detailed_def Let_def split: prod.splits if_splits)

lemma roll_d20_in_i32: "roll_d20_detailed rr m a b rng = (dt, rng') \<Longrightarrow> in_i32 (rd_total dt)"
  by (auto simp: roll_d20_detailed_def roll_with_advantage_def roll_with_disadvantage_def Let_def
      i32_add_def dest: roll_expr_detailed_in_i32 split: prod.splits if_splits)

end
