(* ===== verification/Combat_Types.thy ===== *)
theory Combat_Types
  imports Dice
begin

text \<open>
  The value types of the combat engine: \<^verbatim>\<open>crates/app-domain/src/combat/types.rs\<close>,
  \<^verbatim>\<open>conditions.rs\<close> and \<^verbatim>\<open>result_events.rs\<close>. A \<open>CombatantId\<close> and a \<open>CharacterId\<close> are
  their 128-bit \<open>Uuid\<close>, a natural number whose nil value is 0.
\<close>

section \<open>Identifiers and the grid\<close>

type_synonym combatant_id = uuid
type_synonym character_id = uuid

definition is_nil :: "uuid \<Rightarrow> bool" where "is_nil u \<longleftrightarrow> u = 0"

record position =
  pos_x :: i32
  pos_y :: i32

text \<open>\<open>abs_diff\<close> is the exact distance as an unsigned number.\<close>

definition abs_diff :: "i32 \<Rightarrow> i32 \<Rightarrow> int" where "abs_diff a b = \<bar>a - b\<bar>"

definition chebyshev :: "position \<Rightarrow> position \<Rightarrow> i32" where
  "chebyshev p q = min (max (abs_diff (pos_x p) (pos_x q)) (abs_diff (pos_y p) (pos_y q))) i32_max"

definition distance_ft :: "position \<Rightarrow> position \<Rightarrow> i32" where
  "distance_ft p q = i32_saturating_mul (chebyshev p q) 5"

lemma distance_ft_sym: "distance_ft p q = distance_ft q p"
  by (simp add: distance_ft_def chebyshev_def abs_diff_def abs_minus_commute)

lemma distance_ft_nonneg: "0 \<le> distance_ft p q"
  by (simp add: distance_ft_def chebyshev_def abs_diff_def i32_saturating_mul_def sat32_def
      le_max_iff_disj)

lemma distance_ft_zero: "distance_ft p q = 0 \<longleftrightarrow> p = q"
  by (cases p; cases q) (auto simp: distance_ft_def chebyshev_def abs_diff_def
      i32_saturating_mul_def sat32_def min_def max_def split: if_splits)

section \<open>Ability scores, damage types, slots\<close>

datatype ability_score = Str | Dex | Con | Int | Wis | Cha

definition ability_modifier :: "i32 \<Rightarrow> i32" where
  "ability_modifier score = i32_sub score 10 div 2"

lemma ability_modifier_bounds:
  "1 \<le> score \<Longrightarrow> score \<le> 30 \<Longrightarrow> -5 \<le> ability_modifier score \<and> ability_modifier score \<le> 10"
  using zdiv_mono1 [of "-9" "score - 10" 2] zdiv_mono1 [of "score - 10" 20 2]
  by (simp add: ability_modifier_def i32_sub_def wrap32_id in_i32_def)

datatype damage_type = Acid | Bludgeoning | Cold | Fire | Force | Lightning | Necrotic
  | Piercing | Poison | Psychic | Radiant | Slashing | Thunder

datatype slot_level = SlotLevel u8

definition slot_level_new :: "u8 \<Rightarrow> slot_level option" where
  "slot_level_new level = (if 1 \<le> level \<and> level \<le> 9 then Some (SlotLevel level) else None)"

text \<open>The derived \<open>Ord\<close> of \<open>SlotLevel\<close>.\<close>

instantiation slot_level :: linorder
begin

fun less_eq_slot_level :: "slot_level \<Rightarrow> slot_level \<Rightarrow> bool" where
  "less_eq_slot_level (SlotLevel a) (SlotLevel b) = (a \<le> b)"

fun less_slot_level :: "slot_level \<Rightarrow> slot_level \<Rightarrow> bool" where
  "less_slot_level (SlotLevel a) (SlotLevel b) = (a < b)"

instance
proof
  fix x y z :: slot_level
  show "x < y \<longleftrightarrow> x \<le> y \<and> \<not> y \<le> x" by (cases x; cases y) auto
  show "x \<le> x" by (cases x) simp
  show "x \<le> y \<Longrightarrow> y \<le> z \<Longrightarrow> x \<le> z" by (cases x; cases y; cases z) simp
  show "x \<le> y \<Longrightarrow> y \<le> x \<Longrightarrow> x = y" by (cases x; cases y) simp
  show "x \<le> y \<or> y \<le> x" by (cases x; cases y) auto
qed

end

datatype action_kind = Action | BonusAction | Reaction | Movement

section \<open>Conditions\<close>

datatype condition = Prone | Grappled | Frightened | Poisoned | Unconscious | Blinded

fun condition_display :: "condition \<Rightarrow> string" where
  "condition_display Prone = ''prone''"
| "condition_display Grappled = ''grappled''"
| "condition_display Frightened = ''frightened''"
| "condition_display Poisoned = ''poisoned''"
| "condition_display Unconscious = ''unconscious''"
| "condition_display Blinded = ''blinded''"

lemma condition_display_inj: "condition_display c = condition_display d \<Longrightarrow> c = d"
  by (cases c; cases d) simp_all

datatype attack_modifier = Advantage | Disadvantage | Normal

fun condition_attack_modifier :: "condition \<Rightarrow> bool \<Rightarrow> attack_modifier" where
  "condition_attack_modifier Prone melee = (if melee then Advantage else Disadvantage)"
| "condition_attack_modifier Unconscious melee = Advantage"
| "condition_attack_modifier _ melee = Normal"

fun attacker_condition_modifier :: "condition \<Rightarrow> attack_modifier" where
  "attacker_condition_modifier Poisoned = Disadvantage"
| "attacker_condition_modifier Frightened = Disadvantage"
| "attacker_condition_modifier Blinded = Disadvantage"
| "attacker_condition_modifier Prone = Disadvantage"
| "attacker_condition_modifier _ = Normal"

section \<open>Result events\<close>

record dice_roll =
  dr_purpose :: string
  dr_detail :: roll_detail
  dr_natural :: i32

record damage_application =
  da_target :: combatant_id
  da_raw_amount :: i32
  da_effective_amount :: i32
  da_damage_type :: damage_type
  da_new_hp :: i32
  da_was_critical :: bool

record healing_application =
  ha_target :: combatant_id
  ha_amount :: i32
  ha_new_hp :: i32

record condition_change =
  cc_target :: combatant_id
  cc_condition :: string
  cc_duration_rounds :: "u32 option"
  cc_source :: "combatant_id option"

record movement_event =
  me_combatant :: combatant_id
  me_from :: position
  me_to :: position
  me_feet_used :: i32

record death_save_result =
  ds_combatant :: combatant_id
  ds_roll :: i32
  ds_success :: bool
  ds_successes_total :: u8
  ds_failures_total :: u8
  ds_dead :: bool
  ds_stable :: bool

record spell_slot_consumption =
  sc_character :: character_id
  sc_level :: slot_level

record result_events =
  ev_rolls :: "dice_roll list"
  ev_damage :: "damage_application list"
  ev_healing :: "healing_application list"
  ev_conditions_added :: "condition_change list"
  ev_conditions_removed :: "condition_change list"
  ev_deaths :: "combatant_id list"
  ev_death_saves :: "death_save_result list"
  ev_movement :: "movement_event list"
  ev_spell_slots_consumed :: "spell_slot_consumption list"
  ev_ability_scores_checked :: "(combatant_id \<times> ability_score \<times> i32) list"

definition no_events :: result_events where
  "no_events = \<lparr>ev_rolls = [], ev_damage = [], ev_healing = [], ev_conditions_added = [],
     ev_conditions_removed = [], ev_deaths = [], ev_death_saves = [], ev_movement = [],
     ev_spell_slots_consumed = [], ev_ability_scores_checked = []\<rparr>"

definition append_events :: "result_events \<Rightarrow> result_events \<Rightarrow> result_events" where
  "append_events e other = \<lparr>
     ev_rolls = ev_rolls e @ ev_rolls other,
     ev_damage = ev_damage e @ ev_damage other,
     ev_healing = ev_healing e @ ev_healing other,
     ev_conditions_added = ev_conditions_added e @ ev_conditions_added other,
     ev_conditions_removed = ev_conditions_removed e @ ev_conditions_removed other,
     ev_deaths = ev_deaths e @ ev_deaths other,
     ev_death_saves = ev_death_saves e @ ev_death_saves other,
     ev_movement = ev_movement e @ ev_movement other,
     ev_spell_slots_consumed = ev_spell_slots_consumed e @ ev_spell_slots_consumed other,
     ev_ability_scores_checked = ev_ability_scores_checked e @ ev_ability_scores_checked other\<rparr>"

lemma append_events_assoc: "append_events (append_events a b) c = append_events a (append_events b c)"
  by (simp add: append_events_def)

lemma append_no_events [simp]: "append_events no_events e = e" "append_events e no_events = e"
  by (simp_all add: append_events_def no_events_def)

end
