(* ===== verification/Checks.thy ===== *)
theory Checks
  imports Combat_Types
begin

text \<open>
  The d20 tests: \<^verbatim>\<open>crates/app-domain/src/combat/attack.rs\<close>, \<^verbatim>\<open>ability_check.rs\<close>,
  \<^verbatim>\<open>saving_throw.rs\<close> and \<^verbatim>\<open>crates/app-domain/src/skills.rs\<close>. The lemmas give the outcome of
  an attack roll by its natural die, which the code recovers by subtracting the modifier from a
  total that may have wrapped.
\<close>

section \<open>Attack rolls\<close>

datatype attack_outcome =
    CriticalHit (ao_natural: i32) (ao_total: i32)
  | CriticalMiss (ao_natural: i32)
  | Hit (ao_natural: i32) (ao_total: i32)
  | Miss (ao_natural: i32) (ao_total: i32)

record attack_roll =
  ar_outcome :: attack_outcome
  ar_rolls :: "i32 list"

definition roll_attack_detailed ::
  "'g sampler \<Rightarrow> i32 \<Rightarrow> i32 \<Rightarrow> attack_modifier \<Rightarrow> 'g seeded_rng \<Rightarrow> attack_roll \<times> 'g seeded_rng" where
  "roll_attack_detailed rr m target_ac advantage rng =
     (let ((total_with_mod, rolls), rng1) =
            (case advantage of
               Advantage \<Rightarrow> roll_with_advantage rr D20 m rng
             | Disadvantage \<Rightarrow> roll_with_disadvantage rr D20 m rng
             | Normal \<Rightarrow> (let (r, rng0) = roll_one rr D20 rng in ((i32_add r m, [r]), rng0)));
          natural = i32_sub total_with_mod m;
          outcome =
            (if natural = 20 then CriticalHit natural total_with_mod
             else if natural = 1 then CriticalMiss natural
             else if total_with_mod \<ge> target_ac then Hit natural total_with_mod
             else Miss natural total_with_mod)
      in (\<lparr>ar_outcome = outcome, ar_rolls = rolls\<rparr>, rng1))"

definition roll_attack ::
  "'g sampler \<Rightarrow> i32 \<Rightarrow> i32 \<Rightarrow> attack_modifier \<Rightarrow> 'g seeded_rng \<Rightarrow> attack_outcome \<times> 'g seeded_rng" where
  "roll_attack rr m target_ac advantage rng =
     (let (r, rng1) = roll_attack_detailed rr m target_ac advantage rng in (ar_outcome r, rng1))"

text \<open>The die the roll keeps.\<close>

definition kept_die :: "attack_modifier \<Rightarrow> i32 list \<Rightarrow> i32" where
  "kept_die adv rolls = (case adv of Advantage \<Rightarrow> Max (set rolls) | Disadvantage \<Rightarrow> Min (set rolls)
     | Normal \<Rightarrow> hd rolls)"

lemma natural_recovered: "in_i32 k \<Longrightarrow> i32_sub (i32_add k m) m = k"
proof -
  assume k: "in_i32 k"
  have "i32_sub (i32_add k m) m = wrap32 (wrap32 (k + m) + - m)"
    by (simp add: i32_sub_def i32_add_def)
  also have "\<dots> = wrap32 k" by (simp only: wrap32_add_left) simp
  finally show ?thesis using k by (simp add: wrap32_id)
qed

lemma roll_attack_detailed_kept:
  assumes ok: "sampler_ok rr" and roll: "roll_attack_detailed rr m ac adv rng = (r, rng')"
  obtains k where "k = kept_die adv (ar_rolls r)" "k \<in> set (ar_rolls r)" "1 \<le> k" "k \<le> 20"
    "\<forall>v\<in>set (ar_rolls r). 1 \<le> v \<and> v \<le> 20"
    "length (ar_rolls r) = (if adv = Normal then 1 else 2)"
    "ar_outcome r = (if k = 20 then CriticalHit 20 (i32_add 20 m)
       else if k = 1 then CriticalMiss 1
       else if i32_add k m \<ge> ac then Hit k (i32_add k m) else Miss k (i32_add k m))"
proof -
  obtain a rng1 where a: "roll_one rr D20 rng = (a, rng1)" by fastforce
  obtain b rng2 where b: "roll_one rr D20 rng1 = (b, rng2)" by fastforce
  have ra: "1 \<le> a \<and> a \<le> 20" and rb: "1 \<le> b \<and> b \<le> 20"
    using roll_one_range [OF ok a] roll_one_range [OF ok b] by simp_all
  define k where "k = (case adv of Advantage \<Rightarrow> max a b | Disadvantage \<Rightarrow> min a b | Normal \<Rightarrow> a)"
  define rolls where "rolls = (case adv of Normal \<Rightarrow> [a] | _ \<Rightarrow> [a, b])"
  have rk: "1 \<le> k \<and> k \<le> 20" using ra rb by (cases adv) (auto simp: k_def)
  then have nat_k: "i32_sub (i32_add k m) m = k"
    by (intro natural_recovered) (simp add: in_i32_def)
  have r: "r = \<lparr>ar_outcome =
       (if k = 20 then CriticalHit k (i32_add k m)
        else if k = 1 then CriticalMiss k
        else if i32_add k m \<ge> ac then Hit k (i32_add k m) else Miss k (i32_add k m)),
       ar_rolls = rolls\<rparr>"
    using roll nat_k
    by (cases adv) (auto simp: roll_attack_detailed_def roll_with_advantage_def
        roll_with_disadvantage_def k_def rolls_def Let_def a b)
  have "k = kept_die adv rolls" "k \<in> set rolls"
    by (cases adv; simp add: kept_die_def k_def rolls_def min_def max_def)+
  then show thesis
    by (intro that [of k]) (use rk ra rb in \<open>auto simp: r rolls_def split: attack_modifier.split\<close>)
qed

section \<open>Checks and saves\<close>

datatype check_outcome =
    CheckSuccess (co_roll: i32) (co_total: i32)
  | CheckFailure (co_roll: i32) (co_total: i32)
  | CriticalSuccess (co_roll: i32)

definition roll_ability_check ::
  "'g sampler \<Rightarrow> i32 \<Rightarrow> i32 \<Rightarrow> 'g seeded_rng \<Rightarrow> check_outcome \<times> 'g seeded_rng" where
  "roll_ability_check rr check_modifier dc rng =
     (let (roll, rng1) = roll_one rr D20 rng; total = i32_add roll check_modifier
      in (if roll = 20 then CriticalSuccess roll
          else if total \<ge> dc then CheckSuccess roll total
          else CheckFailure roll total, rng1))"

datatype save_outcome = SaveSuccess i32 i32 | SaveFailure i32 i32

definition roll_save ::
  "'g sampler \<Rightarrow> i32 \<Rightarrow> i32 \<Rightarrow> 'g seeded_rng \<Rightarrow> save_outcome \<times> 'g seeded_rng" where
  "roll_save rr save_modifier dc rng =
     (let (roll, rng1) = roll_one rr D20 rng; total = i32_add roll save_modifier
      in (if total \<ge> dc then SaveSuccess roll total else SaveFailure roll total, rng1))"

definition concentration_check_dc :: "i32 \<Rightarrow> i32" where
  "concentration_check_dc damage_taken = max 10 (i32_div damage_taken 2)"

section \<open>Skills\<close>

datatype skill = Acrobatics | AnimalHandling | Arcana | Athletics | Deception | History | Insight
  | Intimidation | Investigation | Medicine | Nature | Perception | Performance | Persuasion
  | Religion | SleightOfHand | Stealth | Survival

fun skill_ability :: "skill \<Rightarrow> string" where
  "skill_ability Acrobatics = ''dex''"
| "skill_ability SleightOfHand = ''dex''"
| "skill_ability Stealth = ''dex''"
| "skill_ability Athletics = ''str''"
| "skill_ability Arcana = ''int''"
| "skill_ability History = ''int''"
| "skill_ability Investigation = ''int''"
| "skill_ability Nature = ''int''"
| "skill_ability Religion = ''int''"
| "skill_ability AnimalHandling = ''wis''"
| "skill_ability Insight = ''wis''"
| "skill_ability Medicine = ''wis''"
| "skill_ability Perception = ''wis''"
| "skill_ability Survival = ''wis''"
| "skill_ability Deception = ''cha''"
| "skill_ability Intimidation = ''cha''"
| "skill_ability Performance = ''cha''"
| "skill_ability Persuasion = ''cha''"

fun skill_key :: "skill \<Rightarrow> string" where
  "skill_key Acrobatics = ''acrobatics''"
| "skill_key AnimalHandling = ''animal_handling''"
| "skill_key Arcana = ''arcana''"
| "skill_key Athletics = ''athletics''"
| "skill_key Deception = ''deception''"
| "skill_key History = ''history''"
| "skill_key Insight = ''insight''"
| "skill_key Intimidation = ''intimidation''"
| "skill_key Investigation = ''investigation''"
| "skill_key Medicine = ''medicine''"
| "skill_key Nature = ''nature''"
| "skill_key Perception = ''perception''"
| "skill_key Performance = ''performance''"
| "skill_key Persuasion = ''persuasion''"
| "skill_key Religion = ''religion''"
| "skill_key SleightOfHand = ''sleight_of_hand''"
| "skill_key Stealth = ''stealth''"
| "skill_key Survival = ''survival''"

definition skill_modifier :: "i32 \<Rightarrow> u64 \<Rightarrow> bool \<Rightarrow> (string, i32) res" where
  "skill_modifier score level proficient =
     (if \<not> (1 \<le> score \<and> score \<le> 30) \<or> \<not> (1 \<le> level \<and> level \<le> 20) then Err ''hero_check_invalid''
      else Ok (i32_add (ability_modifier score)
        (if proficient then i32_add 2 (int ((level - 1) div 4)) else 0)))"

lemma skill_modifier_bounds:
  assumes "skill_modifier score level p = Ok m"
  shows "m = (score - 10) div 2 + (if p then 2 + int ((level - 1) div 4) else 0)" and "-5 \<le> m" and "m \<le> 16"
proof -
  from assms have s: "1 \<le> score" "score \<le> 30" and l: "1 \<le> level" "level \<le> 20"
    by (auto simp: skill_modifier_def split: if_splits)
  have lv: "int ((level - 1) div 4) \<le> 4" using l by simp
  have am: "ability_modifier score = (score - 10) div 2" "-5 \<le> (score - 10) div 2" "(score - 10) div 2 \<le> 10"
    using s ability_modifier_bounds [OF s]
    by (simp_all add: ability_modifier_def i32_sub_def wrap32_id in_i32_def)
  show eq: "m = (score - 10) div 2 + (if p then 2 + int ((level - 1) div 4) else 0)"
    using assms s l lv am by (cases p) (auto simp: skill_modifier_def i32_add_def wrap32_id in_i32_def)
  show "-5 \<le> m" "m \<le> 16" using eq am lv by simp_all
qed

end
