(* ===== verification/Catalog.thy ===== *)
theory Catalog
  imports Combat_Types
begin

text \<open>
  The character catalog of \<^verbatim>\<open>crates/app-domain/src/compendium/types.rs\<close>: races, classes, spells and
  equipment, every field with a typed value. Left out are the fields the code keeps as raw
  \<open>serde_yaml\<close> values (a library type no rule reads) and the weights, which are floats. The catalog
  itself is a YAML document that \<open>serde_yaml\<close> parses at run time, so it is an argument of every
  definition that consults it; a lookup by identifier is the \<open>iter().find\<close> of the source.
\<close>

record ability_scores =
  asc_str :: "i32 option"
  asc_dex :: "i32 option"
  asc_con :: "i32 option"
  asc_int :: "i32 option"
  asc_wis :: "i32 option"
  asc_cha :: "i32 option"

record senses =
  se_darkvision_ft :: "i32 option"
  se_truesight_ft :: "i32 option"

record age_range =
  ag_mature_at :: i32
  ag_max_lifespan :: i32

record race_proficiencies =
  rp_skills :: "string list"
  rp_weapons :: "string list"
  rp_tools :: "string list"
  rp_saves :: "string list"

record race_trait =
  rt_id :: string
  rt_name_en :: string
  rt_name_ru :: string
  rt_mechanical_description :: string
  rt_flavor_description :: "string option"

record subrace =
  su_id :: string
  su_name_key :: string
  su_name_en :: string
  su_name_ru :: string
  su_additional_asi :: ability_scores
  su_additional_traits :: "race_trait list"

record race =
  ra_id :: string
  ra_ruleset_id :: string
  ra_name_key :: string
  ra_name_en :: string
  ra_name_ru :: string
  ra_ability_score_increases :: ability_scores
  ra_age :: age_range
  ra_alignment_tendency :: "string option"
  ra_size :: string
  ra_speed :: i32
  ra_languages :: "string list"
  ra_proficiencies :: race_proficiencies
  ra_senses :: senses
  ra_traits :: "race_trait list"
  ra_subraces :: "subrace list"
  ra_source_url :: string
  ra_source_page :: i32
  ra_srd_section :: string

record class_entry =
  cl_id :: string
  cl_ruleset_id :: string
  cl_name_key :: string
  cl_name_en :: string
  cl_name_ru :: string
  cl_hit_die :: i32
  cl_primary_ability :: "string list"
  cl_saving_throw_proficiencies :: "string list"
  cl_armor_proficiencies :: "string list"
  cl_weapon_proficiencies :: "string list"
  cl_tool_proficiencies :: "string list"
  cl_starting_gold :: "i32 option"
  cl_subclass_at_level :: "i32 option"
  cl_source_url :: string
  cl_source_page :: i32
  cl_srd_section :: string

record spell_components =
  sco_v :: bool
  sco_s :: bool
  sco_m :: "string option"

record spell_damage_entry =
  sde_dice :: string
  sde_damage_type :: string

record spell_save_entry =
  sse_ability :: string
  sse_half_on_success :: bool

record bilingual_text =
  bt_en :: "string option"
  bt_ru :: "string option"

record spell_entry =
  sp_id :: string
  sp_ruleset_id :: string
  sp_name_key :: string
  sp_name_en :: string
  sp_name_ru :: string
  sp_level :: i32
  sp_school :: string
  sp_casting_time :: string
  sp_components :: spell_components
  sp_duration :: string
  sp_ritual :: bool
  sp_concentration :: bool
  sp_classes :: "string list"
  sp_description_en :: string
  sp_description_ru :: string
  sp_at_higher_levels :: "bilingual_text option"
  sp_damage :: "spell_damage_entry option"
  sp_attack_kind :: "string option"
  sp_save :: "spell_save_entry option"
  sp_scales_with_level :: "string option"
  sp_source_url :: string
  sp_source_page :: i32
  sp_srd_section :: string

record cost =
  cost_gp :: "i32 option"
  cost_sp :: "i32 option"
  cost_cp :: "i32 option"

record weapon_range =
  wr_normal :: "i32 option"
  wr_long :: "i32 option"

record weapon_damage =
  wd_dice :: string
  wd_damage_type :: string
  wd_versatile_dice :: "string option"

record weapon_entry =
  we_id :: string
  we_ruleset_id :: string
  we_name_key :: string
  we_name_en :: string
  we_name_ru :: string
  we_category :: string
  we_cost :: cost
  we_damage :: weapon_damage
  we_properties :: "string list"
  we_mastery :: "string option"
  we_range_ft :: weapon_range
  we_special_rules :: "bilingual_text option"
  we_source_url :: string
  we_source_page :: i32
  we_srd_section :: string

record armor_entry =
  am_id :: string
  am_ruleset_id :: string
  am_name_key :: string
  am_name_en :: string
  am_name_ru :: string
  am_category :: string
  am_cost :: cost
  am_ac_base :: i32
  am_ac_dex_bonus_cap :: "i32 option"
  am_stealth_disadvantage :: bool
  am_str_req :: "i32 option"
  am_don_time :: "string option"
  am_doff_time :: "string option"
  am_source_url :: string
  am_source_page :: i32
  am_srd_section :: string

record gear_entry =
  ge_id :: string
  ge_ruleset_id :: string
  ge_name_key :: string
  ge_name_en :: string
  ge_name_ru :: string
  ge_cost :: cost
  ge_description_en :: "string option"
  ge_description_ru :: "string option"
  ge_source_url :: "string option"
  ge_source_page :: i32
  ge_srd_section :: "string option"

record equipment_bundle =
  eb_weapons :: "weapon_entry list"
  eb_armor :: "armor_entry list"
  eb_adventuring_gear :: "gear_entry list"

record catalog =
  ca_races :: "race list"
  ca_classes :: "class_entry list"
  ca_spells :: "spell_entry list"
  ca_equipment :: equipment_bundle

definition find_class :: "catalog \<Rightarrow> string \<Rightarrow> class_entry option" where
  "find_class cat class_id = find (\<lambda>c. cl_id c = class_id) (ca_classes cat)"

definition find_weapon :: "catalog \<Rightarrow> string \<Rightarrow> weapon_entry option" where
  "find_weapon cat w = find (\<lambda>e. we_id e = w) (eb_weapons (ca_equipment cat))"

definition find_body_armor :: "catalog \<Rightarrow> string \<Rightarrow> armor_entry option" where
  "find_body_armor cat a =
     find (\<lambda>e. am_id e = a \<and> am_category e \<noteq> ''shield'') (eb_armor (ca_equipment cat))"

definition find_spell :: "catalog \<Rightarrow> string \<Rightarrow> spell_entry option" where
  "find_spell cat s = find (\<lambda>e. sp_id e = s) (ca_spells cat)"

lemma find_weapon_id: "find_weapon cat w = Some e \<Longrightarrow> we_id e = w"
  by (auto simp: find_weapon_def find_Some_iff)

lemma find_body_armor_id:
  "find_body_armor cat a = Some e \<Longrightarrow> am_id e = a \<and> am_category e \<noteq> ''shield''"
  by (auto simp: find_body_armor_def find_Some_iff)

end
