(* ===== verification/Loadout.thy ===== *)
theory Loadout
  imports Catalog
begin

text \<open>
  \<^verbatim>\<open>crates/app-domain/src/combat/loadout.rs\<close>: a hero's attack profiles derived from class,
  level, ability scores and owned equipment. The lemmas say what a derived loadout offers: the
  default weapon has a profile, the unarmed strike is always there, and a weapon with a profile
  is in stock.
\<close>

datatype weapon_mode = DefaultMode | Melee | Thrown | Ranged

record weapon_attack_profile =
  wp_weapon_id :: string
  wp_attack_bonus :: i32
  wp_damage :: dice_expr
  wp_damage_type :: damage_type
  wp_reach_ft :: i32
  wp_normal_range_ft :: i32
  wp_long_range_ft :: i32
  wp_ranged :: bool
  wp_thrown :: bool
  wp_ammunition :: bool
  wp_two_handed :: bool
  wp_versatile_damage :: "dice_expr option"
  wp_heavy_disadvantage :: bool

record combat_loadout =
  lo_default_weapon :: string
  lo_attacks :: "weapon_attack_profile list"
  lo_quantities :: "(string, u32) table"
  lo_arrows :: u32
  lo_shield :: bool

record loadout_input =
  li_class_id :: string
  li_level :: u8
  li_strength :: i32
  li_dexterity :: i32
  li_owned :: "(string \<times> u32) list"
  li_arrows :: u32

definition unarmed_profile :: "i32 \<Rightarrow> i32 \<Rightarrow> weapon_attack_profile" where
  "unarmed_profile strength_modifier proficiency = \<lparr>
     wp_weapon_id = ''unarmed'',
     wp_attack_bonus = i32_add strength_modifier proficiency,
     wp_damage = \<lparr>de_count = 0, de_die = D4, de_modifier = max (i32_add 1 strength_modifier) 0\<rparr>,
     wp_damage_type = Bludgeoning,
     wp_reach_ft = 5,
     wp_normal_range_ft = 0,
     wp_long_range_ft = 0,
     wp_ranged = False,
     wp_thrown = False,
     wp_ammunition = False,
     wp_two_handed = False,
     wp_versatile_damage = None,
     wp_heavy_disadvantage = False\<rparr>"

definition parse_weapon_dice :: "string \<Rightarrow> (string, dice_expr) res" where
  "parse_weapon_dice raw =
     bind_res (ok_or (split_once (CHR ''d'') raw) ''combat_weapon_dice_invalid'') (\<lambda>(c, sd).
     bind_res (ok_or (parse_u8 c) ''combat_weapon_dice_invalid'') (\<lambda>count.
     bind_res
       (if sd = ''4'' then Ok D4 else if sd = ''6'' then Ok D6 else if sd = ''8'' then Ok D8
        else if sd = ''10'' then Ok D10 else if sd = ''12'' then Ok D12
        else Err ''combat_weapon_dice_invalid'') (\<lambda>d.
     bind_res (reject_if (count = 0 \<or> count > 2) ''combat_weapon_dice_invalid'') (\<lambda>_.
     Ok \<lparr>de_count = count, de_die = d, de_modifier = 0\<rparr>))))"

text \<open>The body of the loop over owned items, from \<open>finesse\<close> to the pushed profile.\<close>

definition weapon_damage_type :: "string \<Rightarrow> (string, damage_type) res" where
  "weapon_damage_type t =
     (if t = ''slashing'' then Ok Slashing
      else if t = ''piercing'' then Ok Piercing
      else if t = ''bludgeoning'' then Ok Bludgeoning
      else Err ''combat_weapon_damage_invalid'')"

definition weapon_trained :: "class_entry \<Rightarrow> weapon_entry \<Rightarrow> bool \<Rightarrow> bool" where
  "weapon_trained cls weapon finesse =
     list_ex (\<lambda>p. p = we_id weapon
        \<or> p = ''simple'' \<and> starts_with (we_category weapon) ''simple''
        \<or> p = ''martial'' \<and> starts_with (we_category weapon) ''martial''
        \<or> p = ''martial-finesse-or-light'' \<and> (finesse \<or> ''light'' \<in> set (we_properties weapon)))
       (cl_weapon_proficiencies cls)"

definition weapon_profile ::
  "loadout_input \<Rightarrow> class_entry \<Rightarrow> i32 \<Rightarrow> i32 \<Rightarrow> i32 \<Rightarrow> weapon_entry \<Rightarrow> (string, weapon_attack_profile) res" where
  "weapon_profile input cls strength dexterity proficiency weapon =
     (let has = (\<lambda>p. p \<in> set (we_properties weapon));
          finesse = has ''finesse'';
          ranged = ends_with (we_category weapon) ''_ranged'';
          ability = (if finesse then max strength dexterity else if ranged then dexterity else strength);
          trained = weapon_trained cls weapon finesse
      in bind_res (parse_weapon_dice (wd_dice (we_damage weapon))) (\<lambda>damage.
         bind_res (weapon_damage_type (wd_damage_type (we_damage weapon))) (\<lambda>damage_type.
         bind_res (case wd_versatile_dice (we_damage weapon) of None \<Rightarrow> Ok None
                   | Some v \<Rightarrow> bind_res (parse_weapon_dice v) (\<lambda>d. Ok (Some d))) (\<lambda>versatile.
         Ok \<lparr>wp_weapon_id = we_id weapon,
             wp_attack_bonus = i32_add ability (if trained then proficiency else 0),
             wp_damage = damage\<lparr>de_modifier := ability\<rparr>,
             wp_damage_type = damage_type,
             wp_reach_ft = (if has ''reach'' then 10 else 5),
             wp_normal_range_ft = (case wr_normal (we_range_ft weapon) of None \<Rightarrow> 0 | Some r \<Rightarrow> r),
             wp_long_range_ft = (case wr_long (we_range_ft weapon) of None \<Rightarrow> 0 | Some r \<Rightarrow> r),
             wp_ranged = ranged,
             wp_thrown = has ''thrown'',
             wp_ammunition = has ''ammunition'',
             wp_two_handed = has ''two-handed'',
             wp_versatile_damage = map_option (\<lambda>d. d\<lparr>de_modifier := ability\<rparr>) versatile,
             wp_heavy_disadvantage =
               has ''heavy'' \<and> (if ranged then li_dexterity input < 13 else li_strength input < 13)\<rparr>))))"

definition derive_item ::
  "catalog \<Rightarrow> loadout_input \<Rightarrow> class_entry \<Rightarrow> i32 \<Rightarrow> i32 \<Rightarrow> i32 \<Rightarrow> string \<times> u32 \<Rightarrow>
   weapon_attack_profile list \<times> (string, u32) table \<Rightarrow>
   (string, weapon_attack_profile list \<times> (string, u32) table) res" where
  "derive_item cat input cls str dex prof = (\<lambda>(item, count) (attacks, quantities).
     if count = 0 then Ok (attacks, quantities)
     else
       let prefix = li_class_id input @ ''-'';
           normalized = (case strip_prefix prefix item of Some s \<Rightarrow> s | None \<Rightarrow> item)
       in case find_weapon cat normalized of
            None \<Rightarrow> Ok (attacks, quantities)
          | Some weapon \<Rightarrow>
              let old = (case table_get quantities (we_id weapon) of None \<Rightarrow> 0 | Some q \<Rightarrow> q)
              in bind_res (ok_or (u32_checked_add old count) ''combat_quantity_invalid'') (\<lambda>q.
                 let quantities' = table_put (we_id weapon) q quantities
                 in if list_ex (\<lambda>a. wp_weapon_id a = we_id weapon) attacks
                    then Ok (attacks, quantities')
                    else bind_res (weapon_profile input cls str dex prof weapon) (\<lambda>profile.
                         Ok (attacks @ [profile], quantities'))))"

definition derive_loadout :: "catalog \<Rightarrow> loadout_input \<Rightarrow> (string, combat_loadout) res" where
  "derive_loadout cat input =
     bind_res (ok_or (find_class cat (li_class_id input)) ''combat_class_unknown'') (\<lambda>cls.
     bind_res (reject_if (\<not> (1 \<le> li_level input \<and> li_level input \<le> 20)) ''combat_level_invalid'') (\<lambda>_.
     let strength = ability_modifier (li_strength input);
         dexterity = ability_modifier (li_dexterity input);
         proficiency = i32_add 2 (i32_div (int (li_level input) - 1) 4);
         prefix = li_class_id input @ ''-'';
         owns_shield = list_ex (\<lambda>(item, count). count > 0 \<and> (item = ''shield'' \<or> item = prefix @ ''shield''))
             (li_owned input) \<and> ''shield'' \<in> set (cl_armor_proficiencies cls)
     in bind_res (fold_res (derive_item cat input cls strength dexterity proficiency) (li_owned input) ([], []))
          (\<lambda>(attacks, quantities).
          Ok \<lparr>lo_default_weapon = (case attacks of [] \<Rightarrow> ''unarmed'' | a # _ \<Rightarrow> wp_weapon_id a),
              lo_attacks = attacks @ [unarmed_profile strength proficiency],
              lo_quantities = quantities,
              lo_arrows = li_arrows input,
              lo_shield = (owns_shield \<and> \<not> (case attacks of [] \<Rightarrow> False | a # _ \<Rightarrow> wp_two_handed a))\<rparr>)))"

section \<open>What a derived loadout offers\<close>

lemma parse_weapon_dice_Ok:
  "parse_weapon_dice raw = Ok d \<Longrightarrow> 1 \<le> de_count d \<and> de_count d \<le> 2 \<and> de_modifier d = 0"
  by (auto simp: parse_weapon_dice_def bind_res_Ok split: prod.splits)

lemma weapon_profile_id: "weapon_profile input cls str dex prof w = Ok p \<Longrightarrow> wp_weapon_id p = we_id w"
  by (auto simp: weapon_profile_def Let_def bind_res_Ok)

lemma weapon_profile_damage:
  "weapon_profile input cls str dex prof w = Ok p \<Longrightarrow> 1 \<le> de_count (wp_damage p) \<and> de_count (wp_damage p) \<le> 2"
  by (auto simp: weapon_profile_def Let_def bind_res_Ok dest: parse_weapon_dice_Ok)

text \<open>Profiles and stock agree, and no weapon has two profiles.\<close>

definition stocked :: "weapon_attack_profile list \<Rightarrow> (string, u32) table \<Rightarrow> bool" where
  "stocked attacks quantities \<longleftrightarrow>
     distinct (map wp_weapon_id attacks) \<and>
     (\<forall>w. w \<in> wp_weapon_id ` set attacks \<longleftrightarrow> table_get quantities w \<noteq> None) \<and>
     (\<forall>w q. table_get quantities w = Some q \<longrightarrow> 0 < q)"

lemma stocked_put:
  assumes "stocked attacks qs" "0 < q" "w \<in> wp_weapon_id ` set attacks"
  shows "stocked attacks (table_put w q qs)"
  using assms by (auto simp: stocked_def)

lemma stocked_push:
  assumes "stocked attacks qs" "0 < q" "wp_weapon_id p \<notin> wp_weapon_id ` set attacks"
  shows "stocked (attacks @ [p]) (table_put (wp_weapon_id p) q qs)"
  using assms by (auto simp: stocked_def)

lemma derive_item_stocked:
  assumes inv: "stocked (fst acc) (snd acc)" and ok: "derive_item cat input cls str dex prof x acc = Ok acc'"
  shows "stocked (fst acc') (snd acc')"
proof -
  obtain item count where x: "x = (item, count)" by fastforce
  obtain attacks qs where acc: "acc = (attacks, qs)" by fastforce
  define normalized where
    "normalized = (case strip_prefix (li_class_id input @ ''-'') item of Some s \<Rightarrow> s | None \<Rightarrow> item)"
  show ?thesis
  proof (cases "count = 0 \<or> find_weapon cat normalized = None")
    case True
    then have "acc' = acc" using ok
      by (cases "count = 0") (auto simp: derive_item_def x acc normalized_def Let_def)
    with inv show ?thesis by simp
  next
    case False
    then obtain weapon where w: "count \<noteq> 0" "find_weapon cat normalized = Some weapon" by blast
    define old where "old = (case table_get qs (we_id weapon) of None \<Rightarrow> 0 | Some q \<Rightarrow> q)"
    have body: "bind_res (ok_or (u32_checked_add old count) ''combat_quantity_invalid'') (\<lambda>q.
        if list_ex (\<lambda>a. wp_weapon_id a = we_id weapon) attacks
        then Ok (attacks, table_put (we_id weapon) q qs)
        else bind_res (weapon_profile input cls str dex prof weapon) (\<lambda>profile.
             Ok (attacks @ [profile], table_put (we_id weapon) q qs))) = Ok acc'"
      using ok w by (simp add: derive_item_def x acc normalized_def old_def Let_def)
    then obtain q where q: "u32_checked_add old count = Some q" by (auto simp: bind_res_Ok)
    note rest = body [unfolded q, simplified]
    have qpos: "0 < q" using q w by (auto simp: u32_checked_add_def split: if_splits)
    show ?thesis
    proof (cases "list_ex (\<lambda>a. wp_weapon_id a = we_id weapon) attacks")
      case True
      then have "we_id weapon \<in> wp_weapon_id ` set attacks" by (force simp: list_ex_iff)
      with rest True stocked_put [of attacks qs q "we_id weapon"] inv qpos show ?thesis
        by (auto simp: acc)
    next
      case nex: False
      with rest obtain p where p: "weapon_profile input cls str dex prof weapon = Ok p"
        and acc': "acc' = (attacks @ [p], table_put (we_id weapon) q qs)"
        by (auto simp: bind_res_Ok)
      have "wp_weapon_id p \<notin> wp_weapon_id ` set attacks"
        using nex weapon_profile_id [OF p] by (force simp: list_ex_iff)
      with stocked_push [of attacks qs q p] inv qpos weapon_profile_id [OF p] show ?thesis
        by (simp add: acc acc')
    qed
  qed
qed

lemma derive_loadout_cases:
  assumes "derive_loadout cat input = Ok lo"
  shows "\<exists>attacks str prof. stocked attacks (lo_quantities lo) \<and>
     lo_attacks lo = attacks @ [unarmed_profile str prof] \<and> lo_arrows lo = li_arrows input \<and>
     lo_default_weapon lo = (case attacks of [] \<Rightarrow> ''unarmed'' | a # _ \<Rightarrow> wp_weapon_id a)"
proof -
  have base: "stocked (fst ([], [])) (snd ([], []))" by (simp add: stocked_def table_get_def)
  obtain cls str dex prof attacks qs where
    items: "fold_res (derive_item cat input cls str dex prof) (li_owned input) ([], []) = Ok (attacks, qs)"
    and lo: "lo_attacks lo = attacks @ [unarmed_profile str prof]" "lo_quantities lo = qs"
      "lo_arrows lo = li_arrows input"
      "lo_default_weapon lo = (case attacks of [] \<Rightarrow> ''unarmed'' | a # _ \<Rightarrow> wp_weapon_id a)"
    using assms by (auto simp: derive_loadout_def Let_def bind_res_Ok)
  have "stocked (fst (attacks, qs)) (snd (attacks, qs))"
    by (rule fold_res_invariant [where P = "\<lambda>a. stocked (fst a) (snd a)", OF items base])
      (rule derive_item_stocked)
  with lo show ?thesis by (intro exI conjI) simp_all
qed

lemma unarmed_profile_id [simp]: "wp_weapon_id (unarmed_profile s p) = ''unarmed''"
  by (simp add: unarmed_profile_def)

lemma derive_loadout_default:
  assumes "derive_loadout cat input = Ok lo"
  shows "\<exists>a\<in>set (lo_attacks lo). wp_weapon_id a = lo_default_weapon lo"
proof -
  obtain attacks str prof where "lo_attacks lo = attacks @ [unarmed_profile str prof]"
    "lo_default_weapon lo = (case attacks of [] \<Rightarrow> ''unarmed'' | a # _ \<Rightarrow> wp_weapon_id a)"
    using derive_loadout_cases [OF assms] by blast
  then show ?thesis by (cases attacks) simp_all
qed

end
