(* ===== verification/Magic.thy ===== *)
theory Magic
  imports Catalog
begin

text \<open>
  \<^verbatim>\<open>crates/app-domain/src/combat/magic.rs\<close>: spell rules, cantrip scaling and the slot
  tables. The lemmas bound the tables and show that their row index is always in range.
\<close>

record spell_slots =
  ss_maximum :: u8
  ss_remaining :: u8

record spell_choice =
  sch_id :: string
  sch_level :: u8
  sch_range_ft :: i32
  sch_bonus_action :: bool
  sch_healing :: bool
  sch_supported :: bool

record casting_profile =
  cp_choices :: "spell_choice list"
  cp_level :: u8
  cp_ability_modifier :: i32
  cp_attack_bonus :: i32
  cp_save_dc :: i32
  cp_prepared :: "string list"
  cp_slots :: "(u8, spell_slots) table"

datatype spell_effect =
    SpellAttack die damage_type
  | DexteritySave die damage_type
  | Heal die
  | Missiles

record spell_rule =
  sr_level :: u8
  sr_range_ft :: i32
  sr_bonus_action :: bool
  sr_effect :: spell_effect

definition mk_rule :: "u8 \<Rightarrow> i32 \<Rightarrow> bool \<Rightarrow> spell_effect \<Rightarrow> spell_rule" where
  "mk_rule level reach bonus effect =
     \<lparr>sr_level = level, sr_range_ft = reach, sr_bonus_action = bonus, sr_effect = effect\<rparr>"

definition spell_rule_of :: "string \<Rightarrow> spell_rule option" where
  "spell_rule_of i =
     (if i = ''fire-bolt'' then Some (mk_rule 0 120 False (SpellAttack D10 Fire))
      else if i = ''eldritch-blast'' then Some (mk_rule 0 120 False (SpellAttack D10 Force))
      else if i = ''sacred-flame'' then Some (mk_rule 0 60 False (DexteritySave D8 Radiant))
      else if i = ''cure-wounds'' then Some (mk_rule 1 5 False (Heal D8))
      else if i = ''healing-word'' then Some (mk_rule 1 60 True (Heal D4))
      else if i = ''magic-missile'' then Some (mk_rule 1 120 False Missiles)
      else None)"

definition is_heal :: "spell_effect \<Rightarrow> bool" where
  "is_heal e = (case e of Heal _ \<Rightarrow> True | _ \<Rightarrow> False)"

text \<open>The cast \<open>spell.level as u8\<close> keeps the low eight bits.\<close>

definition spell_choices :: "catalog \<Rightarrow> string list \<Rightarrow> spell_choice list" where
  "spell_choices cat prepared = map (\<lambda>i.
     let rule = spell_rule_of i;
         level = (case find_spell cat i of None \<Rightarrow> 0 | Some s \<Rightarrow> nat (sp_level s mod 256))
     in \<lparr>sch_id = i, sch_level = level,
         sch_range_ft = (case rule of None \<Rightarrow> 0 | Some r \<Rightarrow> sr_range_ft r),
         sch_bonus_action = (case rule of None \<Rightarrow> False | Some r \<Rightarrow> sr_bonus_action r),
         sch_healing = (case rule of None \<Rightarrow> False | Some r \<Rightarrow> is_heal (sr_effect r)),
         sch_supported = (rule \<noteq> None)\<rparr>) prepared"

definition cantrip_scale :: "u8 \<Rightarrow> u8" where
  "cantrip_scale level = 1 + (if level \<ge> 5 then 1 else 0) + (if level \<ge> 11 then 1 else 0)
     + (if level \<ge> 17 then 1 else 0)"

definition full_slots :: "u8 list list" where
  "full_slots = [
     [2, 0, 0, 0, 0, 0, 0, 0, 0],
     [3, 0, 0, 0, 0, 0, 0, 0, 0],
     [4, 2, 0, 0, 0, 0, 0, 0, 0],
     [4, 3, 0, 0, 0, 0, 0, 0, 0],
     [4, 3, 2, 0, 0, 0, 0, 0, 0],
     [4, 3, 3, 0, 0, 0, 0, 0, 0],
     [4, 3, 3, 1, 0, 0, 0, 0, 0],
     [4, 3, 3, 2, 0, 0, 0, 0, 0],
     [4, 3, 3, 3, 1, 0, 0, 0, 0],
     [4, 3, 3, 3, 2, 0, 0, 0, 0],
     [4, 3, 3, 3, 2, 1, 0, 0, 0],
     [4, 3, 3, 3, 2, 1, 0, 0, 0],
     [4, 3, 3, 3, 2, 1, 1, 0, 0],
     [4, 3, 3, 3, 2, 1, 1, 0, 0],
     [4, 3, 3, 3, 2, 1, 1, 1, 0],
     [4, 3, 3, 3, 2, 1, 1, 1, 0],
     [4, 3, 3, 3, 2, 1, 1, 1, 1],
     [4, 3, 3, 3, 3, 1, 1, 1, 1],
     [4, 3, 3, 3, 3, 2, 1, 1, 1],
     [4, 3, 3, 3, 3, 2, 2, 1, 1]]"

text \<open>The \<open>enumerate().filter().map()\<close> chain over a row, from a first slot level on.\<close>

fun row_slots :: "u8 \<Rightarrow> u8 list \<Rightarrow> (u8, u8) table" where
  "row_slots lvl [] = []"
| "row_slots lvl (c # cs) = (if c > 0 then (lvl, c) # row_slots (lvl + 1) cs else row_slots (lvl + 1) cs)"

definition slot_capacity :: "string \<Rightarrow> u8 \<Rightarrow> (u8, u8) table" where
  "slot_capacity cls level =
     (if \<not> (1 \<le> level \<and> level \<le> 20) then []
      else if cls = ''warlock'' then
        let slot = (if level \<le> 2 then 1 else if level \<le> 4 then 2 else if level \<le> 6 then 3
                    else if level \<le> 8 then 4 else 5);
            count = (if level = 1 then 1 else if level \<le> 10 then 2 else if level \<le> 16 then 3 else 4)
        in [(slot, count)]
      else if cls \<in> set [''bard'', ''cleric'', ''druid'', ''sorcerer'', ''wizard'']
        then row_slots 1 (full_slots ! (level - 1))
      else if cls \<in> set [''paladin'', ''ranger'']
        then row_slots 1 (full_slots ! ((level + 1) div 2 - 1))
      else [])"

definition first_level_slots :: "string \<Rightarrow> u8 \<Rightarrow> u8" where
  "first_level_slots cls level = (case table_get (slot_capacity cls level) 1 of None \<Rightarrow> 0 | Some c \<Rightarrow> c)"

section \<open>Bounds of the tables\<close>

lemma cantrip_scale_bounds: "1 \<le> cantrip_scale level \<and> cantrip_scale level \<le> 4"
  by (simp add: cantrip_scale_def)

lemma spell_rule_level: "spell_rule_of i = Some r \<Longrightarrow> sr_level r \<le> 1"
  by (auto simp: spell_rule_of_def mk_rule_def split: if_splits)

lemma row_slots_keys: "(l, c) \<in> set (row_slots k cs) \<Longrightarrow> k \<le> l \<and> l < k + length cs \<and> c \<in> set cs \<and> 0 < c"
  by (induction cs arbitrary: k) (fastforce split: if_splits)+

lemma row_slots_distinct: "distinct (map fst (row_slots k cs))"
  by (induction cs arbitrary: k) (auto dest: row_slots_keys)

lemma full_slots_rows: "\<forall>row\<in>set full_slots. length row = 9 \<and> (\<forall>c\<in>set row. c \<le> 4)"
  by (simp add: full_slots_def)

lemma full_slots_length: "length full_slots = 20"
  by (simp add: full_slots_def)

lemma full_slots_row: "n < 20 \<Longrightarrow> length (full_slots ! n) = 9 \<and> (\<forall>c\<in>set (full_slots ! n). c \<le> 4)"
  using full_slots_rows full_slots_length by (metis nth_mem)

lemma slot_capacity_bounds:
  assumes "(l, c) \<in> set (slot_capacity cls level)"
  shows "1 \<le> l \<and> l \<le> 9 \<and> 1 \<le> c \<and> c \<le> 4"
proof -
  have row: "1 \<le> l \<and> l \<le> 9 \<and> 1 \<le> c \<and> c \<le> 4" if "(l, c) \<in> set (row_slots 1 (full_slots ! n))" "n < 20" for n
    using row_slots_keys [OF that(1)] full_slots_row [OF that(2)] by auto
  show ?thesis
  proof (cases "1 \<le> level \<and> level \<le> 20")
    case False
    with assms have False unfolding slot_capacity_def by (simp only: not_False_eq_True if_True list.set empty_iff)
    then show ?thesis ..
  next
    case True
    then have half: "(level + 1) div 2 - 1 < 20" "level - 1 < 20" by auto
    show ?thesis
    proof (cases "cls = ''warlock''")
      case True
      with assms \<open>1 \<le> level \<and> level \<le> 20\<close> show ?thesis
        by (simp add: slot_capacity_def Let_def split: if_split_asm)
    next
      case False
      consider (full) "(l, c) \<in> set (row_slots 1 (full_slots ! (level - 1)))"
        | (half) "(l, c) \<in> set (row_slots 1 (full_slots ! ((level + 1) div 2 - 1)))"
        using assms False True unfolding slot_capacity_def by (force split: if_split_asm)
      then show ?thesis using row half by cases blast+
    qed
  qed
qed

lemma slot_capacity_ok: "table_ok (slot_capacity cls level)"
  by (auto simp: slot_capacity_def table_ok_def Let_def row_slots_distinct)

end
