(* ===== verification/Combatant.thy ===== *)
theory Combatant
  imports Loadout Magic
begin

text \<open>
  A combatant and what happens to it: \<^verbatim>\<open>crates/app-domain/src/combat/combatant.rs\<close>,
  \<^verbatim>\<open>action_economy.rs\<close>, \<^verbatim>\<open>damage.rs\<close> and \<^verbatim>\<open>healing.rs\<close>.

  \<open>vitals_ok\<close> is the well-formedness of hit points, death saves and death that the persistence
  layer also demands of a stored hero (\<^verbatim>\<open>vitality.rs\<close>); \<open>combatant_evolves\<close> is what every
  operation keeps of a combatant: its identity, \<open>vitals_ok\<close>, and death.
\<close>

section \<open>State\<close>

record action_budget =
  ab_spell_slot_used :: bool
  ab_action :: bool
  ab_bonus_action :: bool
  ab_reaction :: bool
  ab_movement_ft :: i32

definition fresh_budget :: "i32 \<Rightarrow> action_budget" where
  "fresh_budget speed_ft = \<lparr>ab_spell_slot_used = False, ab_action = True, ab_bonus_action = True,
     ab_reaction = True, ab_movement_ft = speed_ft\<rparr>"

definition refresh_for_new_turn :: "action_budget \<Rightarrow> i32 \<Rightarrow> action_budget" where
  "refresh_for_new_turn b speed_ft = b\<lparr>ab_spell_slot_used := False, ab_action := True,
     ab_bonus_action := True, ab_reaction := True, ab_movement_ft := speed_ft\<rparr>"

record death_saves =
  sv_successes :: u8
  sv_failures :: u8
  sv_stable :: bool

definition new_death_saves :: death_saves where
  "new_death_saves = \<lparr>sv_successes = 0, sv_failures = 0, sv_stable = False\<rparr>"

definition stabilize :: "death_saves \<Rightarrow> death_saves" where
  "stabilize s = s\<lparr>sv_successes := 0, sv_failures := 0, sv_stable := True\<rparr>"

definition record_success :: "death_saves \<Rightarrow> bool \<times> death_saves" where
  "record_success s =
     (let s1 = s\<lparr>sv_successes := min (u8_saturating_add (sv_successes s) 1) 3\<rparr>
      in if sv_successes s1 \<ge> 3 then (True, stabilize s1) else (False, s1))"

definition record_failure :: "death_saves \<Rightarrow> bool \<times> death_saves" where
  "record_failure s =
     (let s1 = s\<lparr>sv_failures := min (u8_saturating_add (sv_failures s) 1) 3\<rparr>
      in (sv_failures s1 \<ge> 3, s1))"

record combatant =
  c_withdrawn :: bool
  c_untrained_armor :: bool
  c_display_name_key :: "string option"
  c_id :: combatant_id
  c_character_id :: "character_id option"
  c_loadout :: "combat_loadout option"
  c_casting :: "casting_profile option"
  c_name :: string
  c_max_hp :: i32
  c_current_hp :: i32
  c_temp_hp :: i32
  c_ac :: i32
  c_speed_ft :: i32
  c_initiative_roll :: i32
  c_dex_mod :: i32
  c_conditions :: "condition set"
  c_budget :: action_budget
  c_death_saves :: death_saves
  c_is_dead :: bool
  c_position :: position

definition new_combatant :: "combatant_id \<Rightarrow> string \<Rightarrow> i32 \<Rightarrow> i32 \<Rightarrow> i32 \<Rightarrow> combatant" where
  "new_combatant i name max_hp current_hp ac = \<lparr>c_withdrawn = False, c_untrained_armor = False,
     c_display_name_key = None, c_id = i, c_character_id = None, c_loadout = None, c_casting = None,
     c_name = name, c_max_hp = max_hp, c_current_hp = current_hp, c_temp_hp = 0, c_ac = ac,
     c_speed_ft = 30, c_initiative_roll = 0, c_dex_mod = 0, c_conditions = {},
     c_budget = fresh_budget 30, c_death_saves = new_death_saves, c_is_dead = False,
     c_position = \<lparr>pos_x = 0, pos_y = 0\<rparr>\<rparr>"

definition add_condition :: "condition \<Rightarrow> combatant \<Rightarrow> combatant" where
  "add_condition x c = c\<lparr>c_conditions := insert x (c_conditions c)\<rparr>"

definition remove_condition :: "condition \<Rightarrow> combatant \<Rightarrow> combatant" where
  "remove_condition x c = c\<lparr>c_conditions := c_conditions c - {x}\<rparr>"

definition has_condition :: "combatant \<Rightarrow> condition \<Rightarrow> bool" where
  "has_condition c x \<longleftrightarrow> x \<in> c_conditions c"

definition is_incapacitated :: "combatant \<Rightarrow> bool" where
  "is_incapacitated c \<longleftrightarrow> has_condition c Unconscious"

definition is_at_zero_hp :: "combatant \<Rightarrow> bool" where
  "is_at_zero_hp c \<longleftrightarrow> c_current_hp c = 0"

section \<open>Damage and healing\<close>

text \<open>The loop \<open>self.is_dead |= self.death_saves.record_failure()\<close>.\<close>

fun record_failures :: "nat \<Rightarrow> bool \<times> death_saves \<Rightarrow> bool \<times> death_saves" where
  "record_failures 0 (dead, s) = (dead, s)"
| "record_failures (Suc n) (dead, s) =
     (let (third, s1) = record_failure s in record_failures n (dead \<or> third, s1))"

text \<open>
  What the loss of hit points does to death saves and death, and the unconsciousness of a
  creature at zero: the two conditionals that close \<^verbatim>\<open>apply_raw_damage_with_critical\<close>.
\<close>

definition settle_wound :: "i32 \<Rightarrow> i32 \<Rightarrow> i32 \<Rightarrow> bool \<Rightarrow> combatant \<Rightarrow> combatant" where
  "settle_wound hp_before bleed_through amount critical c =
     (if hp_before = 0 then
        let (dead, saves) = record_failures (if critical then 2 else 1)
              (c_is_dead c, (c_death_saves c)\<lparr>sv_stable := False\<rparr>)
        in c\<lparr>c_death_saves := saves, c_is_dead := dead \<or> amount \<ge> c_max_hp c\<rparr>
      else if c_current_hp c = 0 then
        c\<lparr>c_death_saves := new_death_saves,
          c_is_dead := i32_saturating_sub bleed_through hp_before \<ge> c_max_hp c\<rparr>
      else c)"

definition fall_unconscious :: "combatant \<Rightarrow> combatant" where
  "fall_unconscious c = (if c_current_hp c = 0 then add_condition Unconscious c else c)"

definition apply_raw_damage_with_critical :: "combatant \<Rightarrow> i32 \<Rightarrow> bool \<Rightarrow> i32 \<times> combatant" where
  "apply_raw_damage_with_critical c amount0 critical =
     (let amount = max amount0 0
      in if amount = 0 \<or> c_is_dead c then (0, c)
         else
           let hp_before = c_current_hp c;
               bleed_through = max (i32_saturating_sub amount (c_temp_hp c)) 0;
               actual = min bleed_through hp_before;
               c1 = c\<lparr>c_temp_hp := max (i32_saturating_sub (c_temp_hp c) amount) 0,
                      c_current_hp := max (i32_saturating_sub hp_before bleed_through) 0\<rparr>
           in (actual, fall_unconscious (settle_wound hp_before bleed_through amount critical c1)))"

definition apply_raw_damage :: "combatant \<Rightarrow> i32 \<Rightarrow> i32 \<times> combatant" where
  "apply_raw_damage c amount = apply_raw_damage_with_critical c amount False"

definition apply_healing :: "combatant \<Rightarrow> i32 \<Rightarrow> combatant" where
  "apply_healing c amount =
     (if c_is_dead c then c
      else
        let c1 = c\<lparr>c_current_hp := min (i32_add (c_current_hp c) amount) (c_max_hp c)\<rparr>
        in if c_current_hp c1 > 0
           then remove_condition Unconscious (c1\<lparr>c_death_saves := new_death_saves\<rparr>) else c1)"

datatype damage_relation = NormalDamage | Resistant | Immune | Vulnerable

text \<open>The lower-cased \<open>Debug\<close> name of a damage type is the key of the resistance table.\<close>

fun damage_type_key :: "damage_type \<Rightarrow> string" where
  "damage_type_key Acid = ''acid''"
| "damage_type_key Bludgeoning = ''bludgeoning''"
| "damage_type_key Cold = ''cold''"
| "damage_type_key Fire = ''fire''"
| "damage_type_key Force = ''force''"
| "damage_type_key Lightning = ''lightning''"
| "damage_type_key Necrotic = ''necrotic''"
| "damage_type_key Piercing = ''piercing''"
| "damage_type_key Poison = ''poison''"
| "damage_type_key Psychic = ''psychic''"
| "damage_type_key Radiant = ''radiant''"
| "damage_type_key Slashing = ''slashing''"
| "damage_type_key Thunder = ''thunder''"

type_synonym damage_resistance = "(string, damage_relation) table"

definition set_resistance :: "damage_resistance \<Rightarrow> damage_type \<Rightarrow> damage_relation \<Rightarrow> damage_resistance" where
  "set_resistance t d r = table_put (damage_type_key d) r t"

definition get_resistance :: "damage_resistance \<Rightarrow> damage_type \<Rightarrow> damage_relation" where
  "get_resistance t d = (case table_get t (damage_type_key d) of Some r \<Rightarrow> r | None \<Rightarrow> NormalDamage)"

definition compute_effective_damage :: "i32 \<Rightarrow> damage_type \<Rightarrow> damage_resistance \<Rightarrow> i32" where
  "compute_effective_damage raw d resist =
     (case get_resistance resist d of
        NormalDamage \<Rightarrow> raw
      | Resistant \<Rightarrow> i32_div raw 2
      | Immune \<Rightarrow> 0
      | Vulnerable \<Rightarrow> i32_saturating_mul raw 2)"

definition apply_damage_with_critical ::
  "combatant \<Rightarrow> i32 \<Rightarrow> damage_type \<Rightarrow> damage_resistance \<Rightarrow> bool \<Rightarrow> i32 \<times> combatant" where
  "apply_damage_with_critical c raw d resist critical =
     apply_raw_damage_with_critical c (compute_effective_damage (max raw 0) d resist) critical"

definition apply_damage_to_combatant ::
  "combatant \<Rightarrow> i32 \<Rightarrow> damage_type \<Rightarrow> damage_resistance \<Rightarrow> i32 \<times> combatant" where
  "apply_damage_to_combatant c raw d resist = apply_damage_with_critical c raw d resist False"

section \<open>Action economy\<close>

datatype action_economy_error = AeActionExhausted | AeBonusActionExhausted | AeReactionExhausted
  | AeInsufficientMovement i32 i32

fun action_economy_display :: "action_economy_error \<Rightarrow> string" where
  "action_economy_display AeActionExhausted = ''action already used this turn''"
| "action_economy_display AeBonusActionExhausted = ''bonus action already used this turn''"
| "action_economy_display AeReactionExhausted = ''reaction already used this turn''"
| "action_economy_display (AeInsufficientMovement have need) =
     ''not enough movement remaining (have '' @ show_int have @ ''ft, need '' @ show_int need @ ''ft)''"

definition consume_movement_ft ::
  "action_budget \<Rightarrow> i32 \<Rightarrow> (action_economy_error, unit) res \<times> action_budget" where
  "consume_movement_ft b feet =
     (if ab_movement_ft b < feet then (Err (AeInsufficientMovement (ab_movement_ft b) feet), b)
      else (Ok (), b\<lparr>ab_movement_ft := i32_sub (ab_movement_ft b) feet\<rparr>))"

fun consume_action ::
  "action_budget \<Rightarrow> action_kind \<Rightarrow> (action_economy_error, unit) res \<times> action_budget" where
  "consume_action b Action =
     (if \<not> ab_action b then (Err AeActionExhausted, b) else (Ok (), b\<lparr>ab_action := False\<rparr>))"
| "consume_action b BonusAction =
     (if \<not> ab_bonus_action b then (Err AeBonusActionExhausted, b) else (Ok (), b\<lparr>ab_bonus_action := False\<rparr>))"
| "consume_action b Reaction =
     (if \<not> ab_reaction b then (Err AeReactionExhausted, b) else (Ok (), b\<lparr>ab_reaction := False\<rparr>))"
| "consume_action b Movement = consume_movement_ft b 5"

section \<open>Death saves and recovery\<close>

definition dying :: "combatant \<Rightarrow> bool" where
  "dying c \<longleftrightarrow> c_current_hp c = 0 \<and> c_max_hp c > 0 \<and> \<not> c_is_dead c
     \<and> \<not> sv_stable (c_death_saves c) \<and> sv_failures (c_death_saves c) < 3
     \<and> sv_successes (c_death_saves c) < 3"

definition resolve_death_save ::
  "'g sampler \<Rightarrow> combatant \<Rightarrow> 'g seeded_rng \<Rightarrow> death_save_result option \<times> combatant \<times> 'g seeded_rng" where
  "resolve_death_save rr c rng =
     (if \<not> dying c then (None, c, rng)
      else
        let (roll, rng1) = roll_one rr D20 rng;
            c1 = (if roll = 20 then apply_healing c 1
                  else if 10 \<le> roll \<and> roll \<le> 19
                    then c\<lparr>c_death_saves := snd (record_success (c_death_saves c))\<rparr>
                  else
                    let (dead, saves) = record_failures (if roll = 1 then 2 else 1)
                          (c_is_dead c, c_death_saves c)
                    in c\<lparr>c_death_saves := saves, c_is_dead := dead\<rparr>)
        in (Some \<lparr>ds_combatant = c_id c1, ds_roll = roll, ds_success = (roll \<ge> 10),
                  ds_successes_total = sv_successes (c_death_saves c1),
                  ds_failures_total = sv_failures (c_death_saves c1),
                  ds_dead = c_is_dead c1, ds_stable = sv_stable (c_death_saves c1)\<rparr>, c1, rng1))"

definition roll_death_save ::
  "'g sampler \<Rightarrow> combatant \<Rightarrow> 'g seeded_rng \<Rightarrow> bool \<times> combatant \<times> 'g seeded_rng" where
  "roll_death_save rr c rng =
     (let (r, c1, rng1) = resolve_death_save rr c rng
      in (case r of Some d \<Rightarrow> ds_success d | None \<Rightarrow> False, c1, rng1))"

definition stabilize_with_check :: "combatant \<Rightarrow> i32 \<Rightarrow> bool \<times> combatant" where
  "stabilize_with_check c medicine_total =
     (if \<not> dying c \<or> medicine_total < 10 then (False, c)
      else (True, c\<lparr>c_death_saves := stabilize (c_death_saves c)\<rparr>))"

record natural_recovery =
  nr_combatant :: combatant_id
  nr_started_at_seconds :: u64
  nr_ready_at_seconds :: u64

datatype recovery_error = Ineligible | InvalidDeadline

definition i64_max_u64 :: u64 where "i64_max_u64 = 9223372036854775807"

text \<open>A creature the clock can bring back: living, stable, at zero hit points.\<close>

definition recoverable :: "combatant \<Rightarrow> bool" where
  "recoverable c \<longleftrightarrow> \<not> (c_current_hp c \<noteq> 0 \<or> c_max_hp c \<le> 0 \<or> c_is_dead c \<or> \<not> sv_stable (c_death_saves c))"

definition begin_natural_recovery ::
  "'g sampler \<Rightarrow> combatant \<Rightarrow> u64 \<Rightarrow> 'g seeded_rng \<Rightarrow>
   (recovery_error, natural_recovery) res \<times> 'g seeded_rng" where
  "begin_natural_recovery rr c now rng =
     (if \<not> recoverable c then (Err Ineligible, rng)
      else if now > i64_max_u64 - 4 * 3600 then (Err InvalidDeadline, rng)
      else
        let (hours, rng1) = roll_one rr D4 rng
        in (Ok \<lparr>nr_combatant = c_id c, nr_started_at_seconds = now,
                nr_ready_at_seconds = u64_add now (nat hours * 3600)\<rparr>, rng1))"

definition complete_natural_recovery ::
  "combatant \<Rightarrow> natural_recovery \<Rightarrow> u64 \<Rightarrow> (recovery_error, bool) res \<times> combatant" where
  "complete_natural_recovery c deadline now =
     try_state (ok_or (u64_checked_sub (nr_ready_at_seconds deadline) (nr_started_at_seconds deadline))
                 InvalidDeadline) c (\<lambda>duration.
     try_state (reject_if (duration \<notin> set [3600, 7200, 10800, 14400]
                  \<or> nr_ready_at_seconds deadline > i64_max_u64) InvalidDeadline) c (\<lambda>_.
     try_state (reject_if (nr_combatant deadline \<noteq> c_id c) InvalidDeadline) c (\<lambda>_.
     if now < nr_ready_at_seconds deadline \<or> \<not> recoverable c then (Ok False, c)
     else (Ok True, apply_healing c 1))))"

section \<open>Well-formed vitals\<close>

definition vitals_ok :: "combatant \<Rightarrow> bool" where
  "vitals_ok c \<longleftrightarrow>
     0 < c_max_hp c \<and> c_max_hp c \<le> 1000000000
     \<and> 0 \<le> c_current_hp c \<and> c_current_hp c \<le> c_max_hp c
     \<and> 0 \<le> c_temp_hp c \<and> c_temp_hp c \<le> i32_max
     \<and> sv_successes (c_death_saves c) \<le> 2 \<and> sv_failures (c_death_saves c) \<le> 3
     \<and> (sv_failures (c_death_saves c) = 3 \<longrightarrow> c_is_dead c)
     \<and> (c_is_dead c \<longrightarrow> c_current_hp c = 0 \<and> \<not> sv_stable (c_death_saves c))
     \<and> (sv_stable (c_death_saves c) \<longrightarrow> c_current_hp c = 0 \<and> sv_successes (c_death_saves c) = 0
          \<and> sv_failures (c_death_saves c) = 0)
     \<and> (0 < c_current_hp c \<longrightarrow> sv_successes (c_death_saves c) = 0 \<and> sv_failures (c_death_saves c) = 0)
     \<and> (c_current_hp c = 0 \<longrightarrow> Unconscious \<in> c_conditions c)"

definition same_identity :: "combatant \<Rightarrow> combatant \<Rightarrow> bool" where
  "same_identity c d \<longleftrightarrow>
     c_id d = c_id c \<and> c_character_id d = c_character_id c \<and> c_name d = c_name c
     \<and> c_max_hp d = c_max_hp c \<and> c_ac d = c_ac c \<and> c_speed_ft d = c_speed_ft c
     \<and> c_dex_mod d = c_dex_mod c \<and> c_withdrawn d = c_withdrawn c
     \<and> c_untrained_armor d = c_untrained_armor c
     \<and> map_option (\<lambda>l. (lo_attacks l, lo_shield l)) (c_loadout d)
           = map_option (\<lambda>l. (lo_attacks l, lo_shield l)) (c_loadout c)
     \<and> map_option (\<lambda>p. p\<lparr>cp_slots := []\<rparr>) (c_casting d) = map_option (\<lambda>p. p\<lparr>cp_slots := []\<rparr>) (c_casting c)"

definition combatant_evolves :: "combatant \<Rightarrow> combatant \<Rightarrow> bool" where
  "combatant_evolves c d \<longleftrightarrow>
     same_identity c d
     \<and> (vitals_ok c \<longrightarrow> vitals_ok d \<and> (c_is_dead c \<longrightarrow> c_is_dead d \<and> c_current_hp d = c_current_hp c))"

text \<open>A relation every operation keeps lifts to a table of combatants.\<close>

definition pointwise :: "('v \<Rightarrow> 'v \<Rightarrow> bool) \<Rightarrow> ('k, 'v) table \<Rightarrow> ('k, 'v) table \<Rightarrow> bool" where
  "pointwise R t u \<longleftrightarrow>
     map fst u = map fst t \<and> (\<forall>k v. table_get t k = Some v \<longrightarrow> (\<exists>w. table_get u k = Some w \<and> R v w))"

locale evolution =
  fixes R :: "'v \<Rightarrow> 'v \<Rightarrow> bool"
  assumes refl: "R v v" and trans: "R u v \<Longrightarrow> R v w \<Longrightarrow> R u w"
begin

lemma pointwise_refl: "pointwise R t t"
  by (simp add: pointwise_def refl)

lemma pointwise_trans: "pointwise R t u \<Longrightarrow> pointwise R u w \<Longrightarrow> pointwise R t w"
  unfolding pointwise_def by (metis trans)

lemma pointwise_modify:
  "(\<And>v. table_get t k = Some v \<Longrightarrow> R v (f v)) \<Longrightarrow> pointwise R t (table_modify k f t)"
  by (auto simp: pointwise_def refl)

text \<open>The \<open>?\<close> operator keeps the relation.\<close>

lemma after_try: "(\<And>x. p = Ok x \<Longrightarrow> R s (snd (k x))) \<Longrightarrow> R s (snd (try_state p s k))"
  by (cases p) (simp_all add: refl)

lemma after_then:
  "R s (snd m) \<Longrightarrow> (\<And>x t. m = (Ok x, t) \<Longrightarrow> R t (snd (k x t))) \<Longrightarrow> R s (snd (and_then m k))"
  by (cases m; cases "fst m") (auto intro: trans)

lemma settles_return: "R s t \<Longrightarrow> Q x \<Longrightarrow> settles R Q s (Ok x, t)"
  by (simp add: settles_def)

lemma settles_then:
  "settles R Q s m \<Longrightarrow> (\<And>x t. R s t \<Longrightarrow> Q x \<Longrightarrow> settles R Q' t (k x t)) \<Longrightarrow> settles R Q' s (and_then m k)"
  by (force simp: settles_def intro: trans)

lemma settles_try: "p = Ok x \<Longrightarrow> settles R Q s (k x) \<Longrightarrow> settles R Q s (try_state p s k)"
  by simp

lemma settles_weaken: "settles R Q t m \<Longrightarrow> R s t \<Longrightarrow> settles R Q s m"
  by (force simp: settles_def intro: trans)

lemma settles_for:
  assumes "\<And>x acc t. x \<in> set xs \<Longrightarrow> R s t \<Longrightarrow> Q acc \<Longrightarrow> settles R Q t (f x acc t)" "Q acc"
  shows "settles R Q s (for_state f xs acc s)"
proof -
  have "settles R Q t (for_state f ys acc t)" if "set ys \<subseteq> set xs" "R s t" "Q acc" for ys t acc
    using that
  proof (induction ys arbitrary: t acc)
    case (Cons y ys)
    show ?case
      unfolding for_state.simps
      by (rule settles_then [OF assms(1)]) (use Cons trans in \<open>auto intro: Cons.IH\<close>)
  qed (simp add: settles_def refl)
  then show ?thesis using assms(2) refl by blast
qed

lemma pointwise_get: "pointwise R t u \<Longrightarrow> table_get t k = Some v \<Longrightarrow> \<exists>w. table_get u k = Some w \<and> R v w"
  by (simp add: pointwise_def)

end

interpretation roster: evolution combatant_evolves
  by unfold_locales (auto simp: combatant_evolves_def same_identity_def)

lemma pointwise_keys: "pointwise R t u \<Longrightarrow> map fst u = map fst t"
  by (simp add: pointwise_def)

lemma pointwise_back:
  assumes "pointwise R t u" "table_get u k = Some w"
  shows "\<exists>v. table_get t k = Some v \<and> R v w"
proof -
  have "k \<in> set (map fst u)" using assms(2) table_get_None [of u k] by force
  then have "k \<in> set (map fst t)" using pointwise_keys [OF assms(1)] by simp
  then obtain v where "table_get t k = Some v" using table_get_keys by fast
  with assms show ?thesis by (fastforce simp: pointwise_def)
qed

lemma same_identity_refl [simp]: "same_identity c c"
  by (simp add: same_identity_def)

section \<open>Every operation evolves a combatant\<close>

lemma vitals_ok_frame [simp]:
  "vitals_ok (c\<lparr>c_budget := b\<rparr>) = vitals_ok c" "vitals_ok (c\<lparr>c_position := p\<rparr>) = vitals_ok c"
  "vitals_ok (c\<lparr>c_loadout := l\<rparr>) = vitals_ok c" "vitals_ok (c\<lparr>c_casting := k\<rparr>) = vitals_ok c"
  by (simp_all add: vitals_ok_def)

lemma vitals_ok_add_condition:
  assumes "vitals_ok c"
  shows "vitals_ok (add_condition x c)"
  using assms unfolding vitals_ok_def add_condition_def by (simp (no_asm_use)) blast

lemma vitals_hp:
  assumes "vitals_ok c"
  shows "0 \<le> c_current_hp c" "c_current_hp c \<le> c_max_hp c" "0 < c_max_hp c" "c_max_hp c \<le> 1000000000"
    "0 \<le> c_temp_hp c" "c_temp_hp c \<le> i32_max"
  using assms unfolding vitals_ok_def by blast+

lemma vitals_saves:
  assumes "vitals_ok c"
  shows "sv_successes (c_death_saves c) \<le> 2" "sv_failures (c_death_saves c) \<le> 3"
    "sv_failures (c_death_saves c) = 3 \<Longrightarrow> c_is_dead c"
    "c_is_dead c \<Longrightarrow> c_current_hp c = 0" "c_is_dead c \<Longrightarrow> \<not> sv_stable (c_death_saves c)"
    "sv_stable (c_death_saves c) \<Longrightarrow> c_current_hp c = 0"
    "0 < c_current_hp c \<Longrightarrow> sv_successes (c_death_saves c) = 0"
    "0 < c_current_hp c \<Longrightarrow> sv_failures (c_death_saves c) = 0"
    "c_current_hp c = 0 \<Longrightarrow> Unconscious \<in> c_conditions c"
  using assms unfolding vitals_ok_def by blast+

lemmas evolves_defs = combatant_evolves_def same_identity_def

lemma budget_evolves: "combatant_evolves c (c\<lparr>c_budget := b\<rparr>)"
  by (simp add: evolves_defs)

lemma position_evolves: "combatant_evolves c (c\<lparr>c_position := p\<rparr>)"
  by (simp add: evolves_defs)

lemma loadout_evolves:
  "c_loadout c = Some l \<Longrightarrow> lo_attacks l' = lo_attacks l \<Longrightarrow> lo_shield l' = lo_shield l \<Longrightarrow>
     combatant_evolves c (c\<lparr>c_loadout := Some l'\<rparr>)"
  by (simp add: evolves_defs)

lemma casting_evolves:
  "c_casting c = Some p \<Longrightarrow> combatant_evolves c (c\<lparr>c_casting := Some (p\<lparr>cp_slots := s\<rparr>)\<rparr>)"
  by (simp add: evolves_defs)

lemma condition_evolves: "combatant_evolves c (add_condition x c)"
  using vitals_ok_add_condition [of c x] by (simp add: evolves_defs add_condition_def)

lemma kill_evolves:
  assumes "c_current_hp c = 0" "\<not> sv_stable (c_death_saves c)"
  shows "combatant_evolves c (c\<lparr>c_is_dead := True\<rparr>)"
  using assms by (simp add: evolves_defs vitals_ok_def)

text \<open>The fields of an identity, for proofs about an evolved combatant.\<close>

lemma evolves_fields:
  assumes "combatant_evolves c d"
  shows "c_id d = c_id c" "c_character_id d = c_character_id c" "c_name d = c_name c" "c_max_hp d = c_max_hp c"
    "c_ac d = c_ac c" "c_speed_ft d = c_speed_ft c" "c_dex_mod d = c_dex_mod c" "c_withdrawn d = c_withdrawn c"
    "c_untrained_armor d = c_untrained_armor c"
    "map_option (\<lambda>l. (lo_attacks l, lo_shield l)) (c_loadout d) = map_option (\<lambda>l. (lo_attacks l, lo_shield l)) (c_loadout c)"
    "map_option (\<lambda>p. p\<lparr>cp_slots := []\<rparr>) (c_casting d) = map_option (\<lambda>p. p\<lparr>cp_slots := []\<rparr>) (c_casting c)"
  using assms by (simp_all add: evolves_defs)

lemma evolves_casting:
  assumes "combatant_evolves c d" "c_casting d = Some p"
  shows "\<exists>q. c_casting c = Some q \<and> cp_ability_modifier p = cp_ability_modifier q \<and> cp_level p = cp_level q"
proof -
  from evolves_fields(11) [OF assms(1)] assms(2) obtain q where
    q: "c_casting c = Some q" "p\<lparr>cp_slots := []\<rparr> = q\<lparr>cp_slots := []\<rparr>" by (cases "c_casting c") auto
  from q(2) have "cp_ability_modifier (p\<lparr>cp_slots := []\<rparr>) = cp_ability_modifier (q\<lparr>cp_slots := []\<rparr>)"
    "cp_level (p\<lparr>cp_slots := []\<rparr>) = cp_level (q\<lparr>cp_slots := []\<rparr>)" by simp_all
  with q(1) show ?thesis by simp
qed

lemma record_failures_spec:
  "record_failures n (dead, s) = (dead', s') \<Longrightarrow> sv_failures s \<le> 3 \<Longrightarrow>
     sv_failures s' = min 3 (sv_failures s + n) \<and> sv_successes s' = sv_successes s
     \<and> sv_stable s' = sv_stable s \<and> (dead' \<longleftrightarrow> dead \<or> 0 < n \<and> 3 \<le> sv_failures s + n)"
proof (induction n arbitrary: dead s)
  case (Suc n)
  obtain third s1 where f: "record_failure s = (third, s1)" by fastforce
  then have s1: "sv_failures s1 = min 3 (sv_failures s + 1)" "sv_successes s1 = sv_successes s"
    "sv_stable s1 = sv_stable s" "third = (3 \<le> sv_failures s + 1)"
    using Suc.prems(2) by (auto simp: record_failure_def Let_def u8_saturating_add_def)
  from Suc.prems(1) f have "record_failures n (dead \<or> third, s1) = (dead', s')" by simp
  from Suc.IH [OF this] s1 Suc.prems(2) show ?case by auto
qed simp

lemma record_success_spec:
  "sv_successes s \<le> 2 \<Longrightarrow> record_success s = (done3, s') \<Longrightarrow>
     (if sv_successes s = 2 then s' = stabilize s else s' = s\<lparr>sv_successes := sv_successes s + 1\<rparr>)
     \<and> done3 = (sv_successes s = 2)"
  by (auto simp: record_success_def stabilize_def Let_def u8_saturating_add_def split: if_splits)

lemma settle_wound_frame:
  "same_identity c (settle_wound hp bl am cr c)" "c_budget (settle_wound hp bl am cr c) = c_budget c"
  "c_position (settle_wound hp bl am cr c) = c_position c" "c_loadout (settle_wound hp bl am cr c) = c_loadout c"
  "c_casting (settle_wound hp bl am cr c) = c_casting c" "c_temp_hp (settle_wound hp bl am cr c) = c_temp_hp c"
  "c_current_hp (settle_wound hp bl am cr c) = c_current_hp c"
  "c_conditions (settle_wound hp bl am cr c) = c_conditions c"
  unfolding settle_wound_def
  by (cases "hp = 0"; cases "c_current_hp c = 0"; simp add: same_identity_def split: prod.split)+

lemma fall_unconscious_frame:
  "same_identity c (fall_unconscious c)" "c_budget (fall_unconscious c) = c_budget c"
  "c_position (fall_unconscious c) = c_position c" "c_loadout (fall_unconscious c) = c_loadout c"
  "c_casting (fall_unconscious c) = c_casting c" "c_temp_hp (fall_unconscious c) = c_temp_hp c"
  "c_current_hp (fall_unconscious c) = c_current_hp c" "c_is_dead (fall_unconscious c) = c_is_dead c"
  "c_death_saves (fall_unconscious c) = c_death_saves c"
  by (simp_all add: fall_unconscious_def add_condition_def same_identity_def)

lemmas wound_frames = settle_wound_frame fall_unconscious_frame

lemma same_identity_trans: "same_identity b c \<Longrightarrow> same_identity c d \<Longrightarrow> same_identity b d"
  by (simp add: same_identity_def)

lemma damage_frame:
  assumes d: "apply_raw_damage_with_critical c amount critical = (actual, d)"
  shows "same_identity c d" "c_budget d = c_budget c" "c_position d = c_position c"
    "c_loadout d = c_loadout c" "c_casting d = c_casting c"
proof -
  have upd: "same_identity c (c\<lparr>c_temp_hp := t, c_current_hp := h\<rparr>)" for t h
    by (simp add: same_identity_def)
  note eq = d [unfolded apply_raw_damage_with_critical_def Let_def]
  show "same_identity c d"
    using eq by (auto split: if_splits intro: same_identity_trans [OF upd]
        same_identity_trans [OF settle_wound_frame(1)] fall_unconscious_frame(1))
  show "c_budget d = c_budget c" "c_position d = c_position c" "c_loadout d = c_loadout c" "c_casting d = c_casting c"
    using eq by (auto simp: wound_frames split: if_splits)
qed

text \<open>The damage rule without saturation, on well-formed vitals.\<close>

lemma damage_result:
  assumes ok: "vitals_ok c" and live: "\<not> c_is_dead c" and pos: "0 < amount" and rng: "in_i32 amount"
    and res: "apply_raw_damage_with_critical c amount critical = (actual, d)"
  defines "bleed \<equiv> max (amount - c_temp_hp c) 0"
  shows "c_temp_hp d = max (c_temp_hp c - amount) 0"
    and "c_current_hp d = max (c_current_hp c - bleed) 0"
    and "actual = c_current_hp c - c_current_hp d"
    and "c_is_dead d \<longleftrightarrow>
       (if c_current_hp c = 0
        then 3 \<le> sv_failures (c_death_saves c) + (if critical then 2 else 1) \<or> c_max_hp c \<le> amount
        else c_max_hp c \<le> bleed - c_current_hp c)"
    and "c_death_saves d =
       (if c_current_hp c = 0
        then \<lparr>sv_successes = sv_successes (c_death_saves c),
               sv_failures = min 3 (sv_failures (c_death_saves c) + (if critical then 2 else 1)),
               sv_stable = False\<rparr>
        else if c_current_hp d = 0 then new_death_saves else c_death_saves c)"
    and "c_conditions d = (if c_current_hp d = 0 then insert Unconscious (c_conditions c) else c_conditions c)"
proof -
  note hp = vitals_hp(1-4) [OF ok] and temp = vitals_hp(5,6) [OF ok] and fail = vitals_saves(2) [OF ok]
  have am: "amount \<le> i32_max" using rng by (simp add: in_i32_def)
  have s1: "max (i32_saturating_sub amount (c_temp_hp c)) 0 = bleed"
    using temp am pos unfolding i32_saturating_sub_def sat32_def bleed_def by linarith
  have s2: "max (i32_saturating_sub (c_temp_hp c) amount) 0 = max (c_temp_hp c - amount) 0"
    using temp am pos unfolding i32_saturating_sub_def sat32_def by linarith
  have b: "0 \<le> bleed" "bleed \<le> i32_max" using am temp pos unfolding bleed_def by linarith+
  have s3: "max (i32_saturating_sub (c_current_hp c) bleed) 0 = max (c_current_hp c - bleed) 0"
    using hp b unfolding i32_saturating_sub_def sat32_def by linarith
  have s4: "i32_saturating_sub bleed (c_current_hp c) = bleed - c_current_hp c"
    using hp b unfolding i32_saturating_sub_def sat32_def by linarith
  have mx: "max amount 0 = amount" "amount \<noteq> 0" using pos by auto
  obtain dead s where rf: "record_failures (if critical then 2 else 1)
      (False, (c_death_saves c)\<lparr>sv_stable := False\<rparr>) = (dead, s)" by fastforce
  note rfs = record_failures_spec [OF rf]
  have sv: "s = \<lparr>sv_successes = sv_successes (c_death_saves c),
       sv_failures = min 3 (sv_failures (c_death_saves c) + (if critical then 2 else 1)), sv_stable = False\<rparr>"
    using rfs fail by simp
  have dd: "dead \<longleftrightarrow> 3 \<le> sv_failures (c_death_saves c) + (if critical then 2 else 1)"
    using rfs fail by simp
  let ?c = "c\<lparr>c_temp_hp := max (c_temp_hp c - amount) 0, c_current_hp := max (c_current_hp c - bleed) 0\<rparr>"
  have d: "d = fall_unconscious (settle_wound (c_current_hp c) bleed amount critical ?c)"
    and act: "actual = min bleed (c_current_hp c)"
    using res live mx by (simp_all add: apply_raw_damage_with_critical_def Let_def s1 s2 s3)
  show hpd: "c_current_hp d = max (c_current_hp c - bleed) 0" by (simp add: d wound_frames)
  then show "actual = c_current_hp c - c_current_hp d" using act hp b by simp
  show "c_temp_hp d = max (c_temp_hp c - amount) 0" by (simp add: d wound_frames)
  show "c_conditions d = (if c_current_hp d = 0 then insert Unconscious (c_conditions c) else c_conditions c)"
    unfolding d fall_unconscious_def
    by (cases "max (c_current_hp c - bleed) 0 = 0") (simp_all add: settle_wound_frame add_condition_def)
  show "c_is_dead d \<longleftrightarrow> (if c_current_hp c = 0
        then 3 \<le> sv_failures (c_death_saves c) + (if critical then 2 else 1) \<or> c_max_hp c \<le> amount
        else c_max_hp c \<le> bleed - c_current_hp c)"
  proof (cases "c_current_hp c = 0")
    case True
    then show ?thesis using rf live by (simp add: d fall_unconscious_frame settle_wound_def dd)
  next
    case False
    then have "\<not> c_max_hp c \<le> bleed - c_current_hp c" if "0 < c_current_hp c - bleed" using that hp by linarith
    with False live show ?thesis by (simp add: d fall_unconscious_frame settle_wound_def s4)
  qed
  show "c_death_saves d = (if c_current_hp c = 0
        then \<lparr>sv_successes = sv_successes (c_death_saves c),
               sv_failures = min 3 (sv_failures (c_death_saves c) + (if critical then 2 else 1)),
               sv_stable = False\<rparr>
        else if c_current_hp d = 0 then new_death_saves else c_death_saves c)"
  proof (cases "c_current_hp c = 0")
    case True
    then show ?thesis using rf live sv by (simp add: d fall_unconscious_frame settle_wound_def)
  next
    case False
    then show ?thesis by (simp add: hpd) (simp add: d fall_unconscious_frame settle_wound_def)
  qed
qed

lemma vitals_okI:
  assumes "0 < c_max_hp c" "c_max_hp c \<le> 1000000000" "0 \<le> c_current_hp c" "c_current_hp c \<le> c_max_hp c"
    "0 \<le> c_temp_hp c" "c_temp_hp c \<le> i32_max"
    "sv_successes (c_death_saves c) \<le> 2" "sv_failures (c_death_saves c) \<le> 3"
    "sv_failures (c_death_saves c) = 3 \<Longrightarrow> c_is_dead c"
    "c_is_dead c \<Longrightarrow> c_current_hp c = 0 \<and> \<not> sv_stable (c_death_saves c)"
    "sv_stable (c_death_saves c) \<Longrightarrow>
       c_current_hp c = 0 \<and> sv_successes (c_death_saves c) = 0 \<and> sv_failures (c_death_saves c) = 0"
    "0 < c_current_hp c \<Longrightarrow> sv_successes (c_death_saves c) = 0 \<and> sv_failures (c_death_saves c) = 0"
    "c_current_hp c = 0 \<Longrightarrow> Unconscious \<in> c_conditions c"
  shows "vitals_ok c"
  unfolding vitals_ok_def using assms by blast

lemma damage_vitals:
  assumes ok: "vitals_ok c" and live: "\<not> c_is_dead c" and pos: "0 < amount" and rng: "in_i32 amount"
    and res: "apply_raw_damage_with_critical c amount critical = (actual, d)"
  shows "vitals_ok d"
proof -
  note r = damage_result [OF assms] and id = damage_frame(1) [OF res, unfolded same_identity_def]
  note hp = vitals_hp [OF ok] and sv = vitals_saves [OF ok]
  have max: "c_max_hp d = c_max_hp c" using id by blast
  have cur: "0 \<le> c_current_hp d" "c_current_hp d \<le> c_current_hp c" using r(2) hp(1) by linarith+
  show ?thesis
  proof (cases "c_current_hp c = 0")
    case True
    note saves = r(5) [unfolded if_P [OF True]]
    have zero: "c_current_hp d = 0" using cur True by simp
    show ?thesis
    proof (rule vitals_okI)
      show "c_is_dead d" if "sv_failures (c_death_saves d) = 3"
      proof -
        have "3 \<le> sv_failures (c_death_saves c) + (if critical then 2 else 1)"
          using that unfolding saves by (simp add: min_def split: if_split_asm)
        then show ?thesis using r(4) True by simp
      qed
    qed (use zero max hp pos r(1) r(6) sv(1) in \<open>simp_all add: saves\<close>)
  next
    case False
    then have z: "sv_successes (c_death_saves c) = 0" "sv_failures (c_death_saves c) = 0"
      "\<not> sv_stable (c_death_saves c)" using hp sv(6,7,8) by auto
    have saves: "sv_successes (c_death_saves d) = 0" "sv_failures (c_death_saves d) = 0"
      "\<not> sv_stable (c_death_saves d)" using r(5) False z by (auto simp: new_death_saves_def)
    have dead: "c_current_hp d = 0" if "c_is_dead d"
    proof -
      have "c_max_hp c \<le> max (amount - c_temp_hp c) 0 - c_current_hp c" using that r(4) False by simp
      then show ?thesis using r(2) hp by linarith
    qed
    show ?thesis by (rule vitals_okI) (use max hp cur pos r(1) r(6) saves dead in simp_all)
  qed
qed

lemma damage_evolves:
  assumes "in_i32 amount"
  shows "combatant_evolves c (snd (apply_raw_damage_with_critical c amount critical))"
proof -
  obtain actual d where res: "apply_raw_damage_with_critical c amount critical = (actual, d)" by fastforce
  have same: "d = c" if "c_is_dead c \<or> amount \<le> 0"
    using res that by (auto simp: apply_raw_damage_with_critical_def Let_def)
  have "vitals_ok d" if "vitals_ok c"
    using damage_vitals [OF that _ _ assms res] same that by (cases "c_is_dead c \<or> amount \<le> 0") auto
  with res same damage_frame(1) [OF res] show ?thesis by (simp add: combatant_evolves_def)
qed

lemma apply_damage_evolves:
  assumes "in_i32 raw"
  shows "combatant_evolves c (snd (apply_damage_with_critical c raw d [] critical))"
proof -
  have "in_i32 (max raw 0)" using assms by (auto simp: in_i32_def)
  then show ?thesis
    by (simp add: apply_damage_with_critical_def compute_effective_damage_def get_resistance_def
        table_get_def damage_evolves)
qed

lemma healing_result:
  assumes ok: "vitals_ok c" and live: "\<not> c_is_dead c" and am: "0 \<le> amount" "amount \<le> 1000000000"
  shows "c_current_hp (apply_healing c amount) = min (c_current_hp c + amount) (c_max_hp c)"
    "same_identity c (apply_healing c amount)"
    "c_temp_hp (apply_healing c amount) = c_temp_hp c"
    "c_is_dead (apply_healing c amount) = c_is_dead c"
    "c_death_saves (apply_healing c amount) =
       (if 0 < min (c_current_hp c + amount) (c_max_hp c) then new_death_saves else c_death_saves c)"
    "c_conditions (apply_healing c amount) =
       (if 0 < min (c_current_hp c + amount) (c_max_hp c) then c_conditions c - {Unconscious} else c_conditions c)"
proof -
  have add: "i32_add (c_current_hp c) amount = c_current_hp c + amount"
    using am vitals_hp [OF ok] by (simp add: i32_add_def wrap32_id in_i32_def)
  let ?hp = "min (c_current_hp c + amount) (c_max_hp c)"
  have h: "apply_healing c amount =
    (if 0 < ?hp then remove_condition Unconscious (c\<lparr>c_current_hp := ?hp, c_death_saves := new_death_saves\<rparr>)
     else c\<lparr>c_current_hp := ?hp\<rparr>)"
    using live by (simp only: apply_healing_def add Let_def if_False) simp
  show "c_current_hp (apply_healing c amount) = ?hp" "same_identity c (apply_healing c amount)"
    "c_temp_hp (apply_healing c amount) = c_temp_hp c" "c_is_dead (apply_healing c amount) = c_is_dead c"
    "c_death_saves (apply_healing c amount) = (if 0 < ?hp then new_death_saves else c_death_saves c)"
    "c_conditions (apply_healing c amount) = (if 0 < ?hp then c_conditions c - {Unconscious} else c_conditions c)"
    unfolding h by (cases "0 < ?hp"; simp only: if_True if_False; simp add: remove_condition_def same_identity_def)+
qed

lemma healing_dead: "c_is_dead c \<Longrightarrow> apply_healing c amount = c"
  by (simp add: apply_healing_def)

lemma healing_identity: "same_identity c (apply_healing c amount)"
  by (simp add: apply_healing_def Let_def same_identity_def remove_condition_def)

lemma healing_evolves:
  assumes am: "0 \<le> amount" "amount \<le> 1000000000"
  shows "combatant_evolves c (apply_healing c amount)"
proof (cases "vitals_ok c \<and> \<not> c_is_dead c")
  case False
  then show ?thesis using healing_dead [of c amount] healing_identity [of c amount]
    by (auto simp: combatant_evolves_def)
next
  case True
  then have ok: "vitals_ok c" and live: "\<not> c_is_dead c" by auto
  note h = healing_result [OF ok live am] and hp = vitals_hp [OF ok] and sv = vitals_saves [OF ok]
  have max: "c_max_hp (apply_healing c amount) = c_max_hp c" using h(2) by (simp add: same_identity_def)
  have "vitals_ok (apply_healing c amount)"
  proof (cases "0 < min (c_current_hp c + amount) (c_max_hp c)")
    case True
    show ?thesis
      by (rule vitals_okI) (use True max hp am live in \<open>simp_all add: h new_death_saves_def\<close>)
  next
    case False
    then have z: "c_current_hp c = 0" "amount = 0" using hp am by linarith+
    then have "apply_healing c amount = c"
      using hp live by (cases c) (simp add: apply_healing_def i32_add_def wrap32_def)
    then show ?thesis using ok by simp
  qed
  with h(2) live show ?thesis by (simp add: combatant_evolves_def)
qed

lemma death_save_evolves: "combatant_evolves c (fst (snd (resolve_death_save rr c rng)))"
proof (cases "dying c")
  case False
  then show ?thesis by (simp add: resolve_death_save_def roster.refl)
next
  case True
  then have dy: "c_current_hp c = 0" "0 < c_max_hp c" "\<not> c_is_dead c" "\<not> sv_stable (c_death_saves c)"
    "sv_failures (c_death_saves c) < 3" "sv_successes (c_death_saves c) < 3" by (simp_all add: dying_def)
  obtain roll rng1 where roll: "roll_one rr D20 rng = (roll, rng1)" by fastforce
  obtain dead s where rf: "record_failures (if roll = 1 then 2 else 1) (c_is_dead c, c_death_saves c) = (dead, s)"
    by fastforce
  have le3: "sv_failures (c_death_saves c) \<le> 3" "sv_successes (c_death_saves c) \<le> 2" using dy by simp_all
  note fs = record_failures_spec [OF rf le3(1)]
  have heal: "combatant_evolves c (apply_healing c 1)" by (rule healing_evolves) simp_all
  have succ: "combatant_evolves c (c\<lparr>c_death_saves := snd (record_success (c_death_saves c))\<rparr>)"
  proof -
    obtain done3 s1 where rs: "record_success (c_death_saves c) = (done3, s1)" by fastforce
    have s1: "sv_successes s1 \<le> 2" "sv_failures s1 \<noteq> 3" "sv_failures s1 \<le> 3"
      "sv_stable s1 \<Longrightarrow> sv_successes s1 = 0 \<and> sv_failures s1 = 0"
      using record_success_spec [OF le3(2) rs] le3 dy(4,5) by (auto simp: stabilize_def split: if_splits)
    have "vitals_ok (c\<lparr>c_death_saves := s1\<rparr>)" if "vitals_ok c"
      by (rule vitals_okI) (use s1 dy vitals_hp [OF that] vitals_saves(9) [OF that] in simp_all)
    then show ?thesis using rs dy by (simp add: evolves_defs)
  qed
  have fail: "combatant_evolves c (c\<lparr>c_death_saves := s, c_is_dead := dead\<rparr>)"
  proof -
    have "vitals_ok (c\<lparr>c_death_saves := s, c_is_dead := dead\<rparr>)" if "vitals_ok c"
      by (rule vitals_okI) (use fs le3 dy vitals_hp [OF that] vitals_saves(9) [OF that] in auto)
    then show ?thesis using dy by (simp add: evolves_defs)
  qed
  have "fst (snd (resolve_death_save rr c rng)) =
     (if roll = 20 then apply_healing c 1
      else if 10 \<le> roll \<and> roll \<le> 19 then c\<lparr>c_death_saves := snd (record_success (c_death_saves c))\<rparr>
      else c\<lparr>c_death_saves := s, c_is_dead := dead\<rparr>)"
    using True roll rf by (simp add: resolve_death_save_def Let_def)
  then show ?thesis using heal succ fail by auto
qed

text \<open>One hit point, and a death save.\<close>

lemma heal_one:
  assumes "vitals_ok c" "\<not> c_is_dead c" "c_current_hp c = 0"
  shows "c_current_hp (apply_healing c 1) = 1" "c_death_saves (apply_healing c 1) = new_death_saves"
    "c_conditions (apply_healing c 1) = c_conditions c - {Unconscious}" "\<not> c_is_dead (apply_healing c 1)"
    "c_id (apply_healing c 1) = c_id c"
  using healing_result [OF assms(1,2), of 1] vitals_hp [OF assms(1)] assms(2,3) by (auto simp: same_identity_def)

lemma death_save_cases:
  assumes "sampler_ok rr" "vitals_ok c" "resolve_death_save rr c g = (out, d, g')"
  shows "if \<not> dying c then out = None \<and> d = c \<and> g' = g
     else \<exists>e. out = Some e \<and> 1 \<le> ds_roll e \<and> ds_roll e \<le> 20 \<and> ds_dead e = c_is_dead d \<and> vitals_ok d
       \<and> (if ds_roll e = 20 then c_current_hp d = 1 \<and> \<not> c_is_dead d \<and> c_death_saves d = new_death_saves
             \<and> Unconscious \<notin> c_conditions d
          else c_current_hp d = 0
            \<and> (if 10 \<le> ds_roll e then \<not> c_is_dead d
                 \<and> (if sv_successes (c_death_saves c) = 2 then sv_stable (c_death_saves d)
                    else \<not> sv_stable (c_death_saves d)
                      \<and> sv_successes (c_death_saves d) = sv_successes (c_death_saves c) + 1
                      \<and> sv_failures (c_death_saves d) = sv_failures (c_death_saves c))
               else sv_failures (c_death_saves d) = min 3 (sv_failures (c_death_saves c) + (if ds_roll e = 1 then 2 else 1))
                 \<and> (c_is_dead d \<longleftrightarrow> sv_failures (c_death_saves d) = 3)
                 \<and> sv_successes (c_death_saves d) = sv_successes (c_death_saves c)))"
proof (cases "dying c")
  case False
  then show ?thesis using assms(3) by (simp add: resolve_death_save_def)
next
  case dy: True
  then have dead: "\<not> c_is_dead c" "c_current_hp c = 0" "\<not> sv_stable (c_death_saves c)" "sv_failures (c_death_saves c) \<le> 2"
    by (auto simp: dying_def)
  obtain roll g1 where roll: "roll_one rr D20 g = (roll, g1)" by fastforce
  from roll_one_range [OF assms(1) roll] have k: "1 \<le> roll" "roll \<le> 20" by simp_all
  have ok: "vitals_ok d"
    using death_save_evolves [of c rr g] assms(2,3) by (simp add: combatant_evolves_def)
  consider (twenty) "roll = 20" | (success) "10 \<le> roll" "roll \<le> 19" | (failure) "roll < 10" using k by linarith
  then show ?thesis
  proof cases
    case twenty
    note h = heal_one [OF assms(2) dead(1,2)]
    let ?e = "\<lparr>ds_combatant = c_id (apply_healing c 1), ds_roll = 20, ds_success = True,
       ds_successes_total = sv_successes (c_death_saves (apply_healing c 1)),
       ds_failures_total = sv_failures (c_death_saves (apply_healing c 1)),
       ds_dead = c_is_dead (apply_healing c 1), ds_stable = sv_stable (c_death_saves (apply_healing c 1))\<rparr>"
    have "(out, d, g') = (Some ?e, apply_healing c 1, g1)"
      using twenty dy roll by (simp add: resolve_death_save_def Let_def assms(3) [symmetric])
    then have d: "d = apply_healing c 1" and "out = Some ?e" by simp_all
    then obtain e where e: "out = Some e" "ds_roll e = 20" "ds_dead e = c_is_dead d" by simp
    have "Unconscious \<notin> c_conditions d" using h(3) d by simp
    with e h(1,2,4) ok dy show ?thesis unfolding d by simp
  next
    case success
    obtain third s' where rec: "record_success (c_death_saves c) = (third, s')" by fastforce
    from record_success_spec [OF vitals_saves(1) [OF assms(2)] this] have s':
      "if sv_successes (c_death_saves c) = 2 then s' = stabilize (c_death_saves c)
       else s' = (c_death_saves c)\<lparr>sv_successes := sv_successes (c_death_saves c) + 1\<rparr>" by simp
    have "out = Some \<lparr>ds_combatant = c_id c, ds_roll = roll, ds_success = True, ds_successes_total = sv_successes s',
        ds_failures_total = sv_failures s', ds_dead = c_is_dead c, ds_stable = sv_stable s'\<rparr>"
      and d: "d = c\<lparr>c_death_saves := s'\<rparr>"
      using success assms(3) dy roll rec by (simp_all add: resolve_death_save_def Let_def)
    moreover have "if sv_successes (c_death_saves c) = 2 then sv_stable s'
       else \<not> sv_stable s' \<and> sv_successes s' = sv_successes (c_death_saves c) + 1 \<and> sv_failures s' = sv_failures (c_death_saves c)"
      using s' dead(3) by (auto simp: stabilize_def split: if_splits)
    ultimately show ?thesis using success k dy dead(1,2) ok unfolding d by simp
  next
    case failure
    obtain gone s' where rec: "record_failures (if roll = 1 then 2 else 1) (c_is_dead c, c_death_saves c) = (gone, s')"
      by fastforce
    from record_failures_spec [OF this] dead have s':
      "sv_failures s' = min 3 (sv_failures (c_death_saves c) + (if roll = 1 then 2 else 1))"
      "gone \<longleftrightarrow> 3 \<le> sv_failures (c_death_saves c) + (if roll = 1 then 2 else 1)"
      "sv_successes s' = sv_successes (c_death_saves c)" by auto
    have "out = Some \<lparr>ds_combatant = c_id c, ds_roll = roll, ds_success = False, ds_successes_total = sv_successes s',
        ds_failures_total = sv_failures s', ds_dead = gone, ds_stable = sv_stable s'\<rparr>"
      "d = c\<lparr>c_death_saves := s', c_is_dead := gone\<rparr>"
      using failure assms(3) dy roll rec by (simp_all add: resolve_death_save_def)
    then show ?thesis using failure k s' dy dead ok by auto
  qed
qed

end
