(* ===== verification/Initiative.thy ===== *)
theory Initiative
  imports Combat_Types
begin

text \<open>
  \<^verbatim>\<open>crates/app-domain/src/combat/initiative.rs\<close>: the turn order. The interface
  \<open>turn_order\<close> states what the resolver relies on, a cyclic position with a round counter, and
  derives that a full cycle visits every position once and ends one round later. The rest of the
  theory says what building, restoring and removing do to the order.
\<close>

record initiative_entry =
  ie_id :: combatant_id
  ie_roll :: i32
  ie_dex_tiebreak :: i32

record initiative_order =
  io_entries :: "initiative_entry list"
  io_current_index :: usize
  io_round :: u32

definition restore_order :: "initiative_entry list \<Rightarrow> combatant_id \<Rightarrow> u32 \<Rightarrow> initiative_order option" where
  "restore_order entries current rnd =
     (if rnd = 0 then None
      else case position_of (\<lambda>e. ie_id e = current) entries of
             None \<Rightarrow> None
           | Some i \<Rightarrow> Some \<lparr>io_entries = entries, io_current_index = i, io_round = rnd\<rparr>)"

text \<open>The comparator sorts by descending roll, then descending tiebreak; the sort is stable.\<close>

definition build_order :: "initiative_entry list \<Rightarrow> initiative_order" where
  "build_order entries =
     \<lparr>io_entries = sort_key (\<lambda>e. (- ie_roll e, - ie_dex_tiebreak e)) entries,
      io_current_index = 0, io_round = 1\<rparr>"

text \<open>\<open>current\<close> indexes the vector: \<open>None\<close> where it would panic.\<close>

definition order_current :: "initiative_order \<Rightarrow> initiative_entry option" where
  "order_current ord =
     (if io_current_index ord < length (io_entries ord)
      then Some (io_entries ord ! io_current_index ord) else None)"

definition order_len :: "initiative_order \<Rightarrow> usize" where
  "order_len ord = length (io_entries ord)"

definition order_is_empty :: "initiative_order \<Rightarrow> bool" where
  "order_is_empty ord \<longleftrightarrow> io_entries ord = []"

definition order_advance :: "initiative_order \<Rightarrow> initiative_order" where
  "order_advance ord =
     (let i = io_current_index ord + 1
      in if i \<ge> length (io_entries ord)
         then ord\<lparr>io_current_index := 0, io_round := u32_add (io_round ord) 1\<rparr>
         else ord\<lparr>io_current_index := i\<rparr>)"

definition remove_at :: "nat \<Rightarrow> 'a list \<Rightarrow> 'a list" where
  "remove_at i xs = take i xs @ drop (Suc i) xs"

definition order_remove :: "combatant_id \<Rightarrow> initiative_order \<Rightarrow> initiative_order" where
  "order_remove i ord =
     (case position_of (\<lambda>e. ie_id e = i) (io_entries ord) of
        None \<Rightarrow> ord
      | Some pos \<Rightarrow>
          let entries = remove_at pos (io_entries ord)
          in if entries = [] then ord\<lparr>io_entries := entries\<rparr>
             else
               let cur = (if pos \<le> io_current_index ord \<and> io_current_index ord > 0
                          then io_current_index ord - 1 else io_current_index ord)
               in ord\<lparr>io_entries := entries,
                      io_current_index := (if cur \<ge> length entries then 0 else cur)\<rparr>)"

section \<open>The cyclic interface\<close>

locale turn_order =
  fixes pos :: "'o \<Rightarrow> nat" and size_of :: "'o \<Rightarrow> nat" and rnd :: "'o \<Rightarrow> nat"
    and adv :: "'o \<Rightarrow> 'o" and ok :: "'o \<Rightarrow> bool"
  assumes ok_pos: "ok ord \<Longrightarrow> pos ord < size_of ord"
    and ok_adv: "ok ord \<Longrightarrow> ok (adv ord)"
    and size_adv: "size_of (adv ord) = size_of ord"
    and pos_adv: "ok ord \<Longrightarrow> pos (adv ord) = Suc (pos ord) mod size_of ord"
    and rnd_adv: "ok ord \<Longrightarrow> rnd (adv ord) =
       (rnd ord + (if Suc (pos ord) = size_of ord then 1 else 0)) mod 4294967296"
    and rnd_ok: "ok ord \<Longrightarrow> rnd ord < 4294967296"
begin

lemma ok_steps: "ok ord \<Longrightarrow> ok ((adv ^^ k) ord)"
  by (induction k) (auto intro: ok_adv)

lemma size_steps: "size_of ((adv ^^ k) ord) = size_of ord"
  by (induction k) (auto simp: size_adv)

lemma pos_steps: "ok ord \<Longrightarrow> pos ((adv ^^ k) ord) = (pos ord + k) mod size_of ord"
proof (induction k)
  case 0
  then show ?case using ok_pos by simp
next
  case (Suc k)
  then show ?case using pos_adv [OF ok_steps [OF Suc.prems], of k] by (simp add: size_steps mod_Suc_eq)
qed

lemma rnd_steps:
  assumes "ok ord"
  shows "rnd ((adv ^^ k) ord) = (rnd ord + (pos ord + k) div size_of ord) mod 4294967296"
proof (induction k)
  case 0
  then show ?case using ok_pos [OF assms] rnd_ok [OF assms] by simp
next
  case (Suc k)
  have n: "0 < size_of ord" using ok_pos [OF assms] by simp
  have "Suc ((pos ord + k) mod size_of ord) = size_of ord \<longleftrightarrow> Suc (pos ord + k) mod size_of ord = 0"
    using n by (simp add: mod_Suc)
  then have "(pos ord + Suc k) div size_of ord =
      (pos ord + k) div size_of ord + (if Suc ((pos ord + k) mod size_of ord) = size_of ord then 1 else 0)"
    by (simp add: div_Suc)
  then show ?case
    using Suc rnd_adv [OF ok_steps [OF assms], of k]
    by (simp add: size_steps pos_steps [OF assms] mod_simps ac_simps)
qed

lemma full_cycle:
  assumes "ok ord"
  shows "pos ((adv ^^ size_of ord) ord) = pos ord"
    and "rnd ((adv ^^ size_of ord) ord) = (rnd ord + 1) mod 4294967296"
    and "i < size_of ord \<Longrightarrow> \<exists>k<size_of ord. pos ((adv ^^ k) ord) = i"
proof -
  have n: "pos ord < size_of ord" by (rule ok_pos [OF assms])
  show "pos ((adv ^^ size_of ord) ord) = pos ord" using pos_steps [OF assms] n by simp
  show "rnd ((adv ^^ size_of ord) ord) = (rnd ord + 1) mod 4294967296"
  proof -
    have "size_of ord \<noteq> 0" using n by simp
    then have "(pos ord + size_of ord) div size_of ord = 1" using n by (simp add: div_add_self2)
    then show ?thesis using rnd_steps [OF assms, of "size_of ord"] by simp
  qed
  assume i: "i < size_of ord"
  define k where "k = (i + (size_of ord - pos ord)) mod size_of ord"
  have "(pos ord + k) mod size_of ord = (pos ord + (i + (size_of ord - pos ord))) mod size_of ord"
    by (simp add: k_def mod_simps)
  also have "\<dots> = i" using i n by simp
  finally have "pos ((adv ^^ k) ord) = i" by (simp add: pos_steps [OF assms])
  moreover have "k < size_of ord" using n by (simp add: k_def)
  ultimately show "\<exists>k<size_of ord. pos ((adv ^^ k) ord) = i" by blast
qed

end

definition order_ok :: "initiative_order \<Rightarrow> bool" where
  "order_ok ord \<longleftrightarrow> io_current_index ord < length (io_entries ord) \<and> io_round ord < 4294967296"

lemma order_advance_entries [simp]: "io_entries (order_advance ord) = io_entries ord"
  by (simp add: order_advance_def Let_def)

lemma order_ok_advance [simp]: "order_ok ord \<Longrightarrow> order_ok (order_advance ord)"
  by (auto simp: order_ok_def order_advance_def Let_def u32_add_def)

lemma order_ok_current: "order_ok ord \<Longrightarrow> order_current ord = Some (io_entries ord ! io_current_index ord)"
  by (simp add: order_ok_def order_current_def)

lemma order_current_mem: "order_current ord = Some e \<Longrightarrow> e \<in> set (io_entries ord)"
  by (auto simp: order_current_def split: if_splits)

lemma order_ok_restore:
  "restore_order entries current rnd = Some ord \<Longrightarrow> rnd < 4294967296 \<Longrightarrow> order_ok ord"
  by (auto simp: restore_order_def order_ok_def split: if_splits option.splits dest: position_of_Some)

interpretation cyclic: turn_order io_current_index order_len io_round order_advance order_ok
proof
  fix ord :: initiative_order
  show "order_ok ord \<Longrightarrow> io_current_index ord < order_len ord"
    by (simp add: order_ok_def order_len_def)
  show "order_ok ord \<Longrightarrow> order_ok (order_advance ord)" by simp
  show "order_len (order_advance ord) = order_len ord" by (simp add: order_len_def)
  show "order_ok ord \<Longrightarrow> io_current_index (order_advance ord) = Suc (io_current_index ord) mod order_len ord"
  proof -
    assume "order_ok ord"
    then have "Suc (io_current_index ord) \<le> order_len ord" by (simp add: order_ok_def order_len_def)
    then show ?thesis
      by (cases "Suc (io_current_index ord) = order_len ord")
        (simp_all add: order_advance_def order_len_def)
  qed
  show "order_ok ord \<Longrightarrow> io_round (order_advance ord) =
      (io_round ord + (if Suc (io_current_index ord) = order_len ord then 1 else 0)) mod 4294967296"
    by (auto simp: order_ok_def order_advance_def order_len_def u32_add_def Let_def)
  show "order_ok ord \<Longrightarrow> io_round ord < 4294967296" by (simp add: order_ok_def)
qed

section \<open>Building, restoring, removing\<close>

lemma remove_at_nth:
  "i < length xs \<Longrightarrow> j < length xs - 1 \<Longrightarrow> remove_at i xs ! j = (if j < i then xs ! j else xs ! Suc j)"
  by (auto simp: remove_at_def nth_append min_def)

lemma length_remove_at: "i < length xs \<Longrightarrow> length (remove_at i xs) = length xs - 1"
  by (simp add: remove_at_def)

lemma order_remove_cases:
  assumes ok: "order_ok ord" and pos: "position_of (\<lambda>e. ie_id e = i) (io_entries ord) = Some p"
    and more: "1 < length (io_entries ord)"
  shows "order_ok (order_remove i ord)"
    and "order_current (order_remove i ord) = Some (io_entries ord !
           (if p = io_current_index ord
            then (if p = 0 then 1 else p - 1) else io_current_index ord))"
proof -
  define cur where "cur = io_current_index ord"
  define n where "n = length (io_entries ord)"
  have p: "p < n" using position_of_Some [OF pos] by (simp add: n_def)
  have cur_n: "cur < n" using ok by (simp add: order_ok_def cur_def n_def)
  define entries where "entries = remove_at p (io_entries ord)"
  have len: "length entries = n - 1" using p by (simp add: entries_def n_def length_remove_at)
  have ne: "entries \<noteq> []" using len more by (auto simp: n_def)
  define cur' where "cur' = (if p \<le> cur \<and> cur > 0 then cur - 1 else cur)"
  have lt: "cur' < n - 1" using p cur_n more by (auto simp: cur'_def n_def)
  have "order_remove i ord = ord\<lparr>io_entries := entries,
      io_current_index := (if cur' \<ge> length entries then 0 else cur')\<rparr>"
    unfolding order_remove_def pos option.case Let_def entries_def [symmetric] cur_def [symmetric]
      cur'_def [symmetric] using ne by simp
  then have rem: "order_remove i ord = ord\<lparr>io_entries := entries, io_current_index := cur'\<rparr>"
    using lt len by simp
  show "order_ok (order_remove i ord)" using ok lt len by (simp add: rem order_ok_def)
  have "entries ! cur' = io_entries ord ! (if p = cur then (if p = 0 then 1 else p - 1) else cur)"
    using remove_at_nth [of p "io_entries ord" cur'] p lt by (auto simp: entries_def cur'_def n_def)
  then show "order_current (order_remove i ord) = Some (io_entries ord !
       (if p = io_current_index ord then (if p = 0 then 1 else p - 1) else io_current_index ord))"
    using lt len by (simp add: rem order_current_def cur_def)
qed

end
