(* ===== verification/Geometry.thy ===== *)
theory Geometry
  imports Combat_Types
begin

text \<open>
  \<^verbatim>\<open>crates/app-domain/src/combat/geometry.rs\<close>: the battle map, its neighbor relation, the
  breadth-first route search and the line of sight. The search keeps the source's three
  collections (seen cells, parents, queue); its termination measure is the number of unseen
  cells of the map, then the queue. The lemmas show that a route found is a walk that avoids the
  occupied cells, that reading the route back from the parents always succeeds, and that the
  search finds a route whenever there is one.
\<close>

record battle_map =
  bm_width :: u16
  bm_height :: u16
  bm_blocked :: "position list"
  bm_exits :: "position list"

definition at :: "i32 \<Rightarrow> i32 \<Rightarrow> position" where "at x y = \<lparr>pos_x = x, pos_y = y\<rparr>"

definition inside :: "battle_map \<Rightarrow> position \<Rightarrow> bool" where
  "inside m p \<longleftrightarrow> pos_x p \<ge> 0 \<and> pos_y p \<ge> 0 \<and> pos_x p < int (bm_width m) \<and> pos_y p < int (bm_height m)"

definition walkable :: "battle_map \<Rightarrow> position \<Rightarrow> bool" where
  "walkable m p \<longleftrightarrow> inside m p \<and> p \<notin> set (bm_blocked m)"

definition valid_map :: "battle_map \<Rightarrow> bool" where
  "valid_map m \<longleftrightarrow>
     (1 \<le> bm_width m \<and> bm_width m \<le> 128) \<and> (1 \<le> bm_height m \<and> bm_height m \<le> 128)
     \<and> length (bm_blocked m) \<le> bm_width m * bm_height m
     \<and> (\<forall>cell\<in>set (bm_blocked m). inside m cell)
     \<and> length (bm_exits m) \<le> 8
     \<and> (\<forall>cell\<in>set (bm_exits m). walkable m cell)"

text \<open>The offsets in the order the nested ranges produce them.\<close>

definition offsets :: "(i32 \<times> i32) list" where
  "offsets = filter (\<lambda>(dx, dy). dx \<noteq> 0 \<or> dy \<noteq> 0)
     (concat (map (\<lambda>dx. map (\<lambda>dy. (dx, dy)) [-1, 0, 1]) [-1, 0, 1]))"

definition neighbors :: "battle_map \<Rightarrow> position \<Rightarrow> position list" where
  "neighbors m p = List.map_filter (\<lambda>(dx, dy).
     let next = at (i32_saturating_add (pos_x p) dx) (i32_saturating_add (pos_y p) dy)
     in if walkable m next \<and> (dx = 0 \<or> dy = 0
           \<or> walkable m (at (i32_add (pos_x p) dx) (pos_y p))
             \<and> walkable m (at (pos_x p) (i32_add (pos_y p) dy)))
        then Some next else None) offsets"

section \<open>Route search\<close>

type_synonym bfs_state = "position set \<times> (position, position) table \<times> position list"

text \<open>The inner \<open>for\<close> loop; the flag says that the goal was reached.\<close>

fun bfs_scan ::
  "position \<Rightarrow> position set \<Rightarrow> position \<Rightarrow> position list \<Rightarrow> bfs_state \<Rightarrow> bool \<times> bfs_state" where
  "bfs_scan goal occupied cell [] st = (False, st)"
| "bfs_scan goal occupied cell (next # rest) (seen, parents, queue) =
     (if next \<in> occupied \<or> next \<in> seen then bfs_scan goal occupied cell rest (seen, parents, queue)
      else if next = goal then (True, insert next seen, (next, cell) # parents, queue)
      else bfs_scan goal occupied cell rest (insert next seen, (next, cell) # parents, queue @ [next]))"

text \<open>
  The \<open>while parents[&cursor] != from\<close> loop, with a bound on its rounds; \<open>None\<close> when a parent is
  missing (the index would panic) or the bound is spent.
\<close>

fun trace_back ::
  "nat \<Rightarrow> (position, position) table \<Rightarrow> position \<Rightarrow> position \<Rightarrow> position list \<Rightarrow> position list option" where
  "trace_back 0 parents start cursor acc = None"
| "trace_back (Suc n) parents start cursor acc =
     (case table_get parents cursor of
        None \<Rightarrow> None
      | Some p \<Rightarrow> if p = start then Some acc else trace_back n parents start p (p # acc))"

lemma finite_inside: "finite {p. inside m p}"
proof (rule finite_subset)
  show "{p. inside m p} \<subseteq> (\<lambda>(x, y). at x y) ` ({0..<int (bm_width m)} \<times> {0..<int (bm_height m)})"
  proof
    fix p assume "p \<in> {p. inside m p}"
    then show "p \<in> (\<lambda>(x, y). at x y) ` ({0..<int (bm_width m)} \<times> {0..<int (bm_height m)})"
      by (intro image_eqI [of _ _ "(pos_x p, pos_y p)"]) (auto simp: inside_def at_def)
  qed
qed simp

lemma neighbors_walkable: "q \<in> set (neighbors m p) \<Longrightarrow> walkable m q"
  by (auto simp: neighbors_def List.map_filter_def Let_def split: if_splits)

lemma bfs_scan_state:
  assumes "bfs_scan goal occupied cell ns (seen, parents, queue) = (found, seen', parents', queue')"
  shows "\<exists>new. seen' = seen \<union> new \<and> new \<inter> seen = {} \<and> new \<subseteq> set ns \<and> (new = {} \<longrightarrow> queue' = queue)"
  using assms
proof (induction ns arbitrary: seen parents queue)
  case (Cons n ns)
  show ?case
  proof (cases "n \<in> occupied \<or> n \<in> seen")
    case True
    with Cons.prems have "bfs_scan goal occupied cell ns (seen, parents, queue) = (found, seen', parents', queue')"
      by simp
    from Cons.IH [OF this] show ?thesis by auto
  next
    case False
    show ?thesis
    proof (cases "n = goal")
      case True
      with False Cons.prems show ?thesis by (intro exI [of _ "{n}"]) auto
    next
      case ng: False
      with False Cons.prems have
        "bfs_scan goal occupied cell ns (insert n seen, (n, cell) # parents, queue @ [n])
           = (found, seen', parents', queue')" by simp
      from Cons.IH [OF this] obtain new where
        "seen' = insert n seen \<union> new" "new \<inter> insert n seen = {}" "new \<subseteq> set ns" by blast
      with False show ?thesis by (intro exI [of _ "insert n new"]) auto
    qed
  qed
qed simp

function bfs_loop ::
  "battle_map \<Rightarrow> position \<Rightarrow> position \<Rightarrow> position set \<Rightarrow> bfs_state \<Rightarrow> ('e, position list option) res" where
  "bfs_loop m start goal occupied (seen, parents, []) = Ok None"
| "bfs_loop m start goal occupied (seen, parents, cell # queue) =
     (case bfs_scan goal occupied cell (neighbors m cell) (seen, parents, queue) of
        (True, seen', parents', queue') \<Rightarrow>
          (case trace_back (length parents') parents' start goal [goal] of
             Some route \<Rightarrow> Ok (Some route) | None \<Rightarrow> Panic)
      | (False, st) \<Rightarrow> bfs_loop m start goal occupied st)"
  by pat_completeness simp_all
termination
proof (relation "measures [\<lambda>(m, start, goal, occupied, seen, parents, queue). card ({p. inside m p} - seen),
                           \<lambda>(m, start, goal, occupied, seen, parents, queue). length queue]",
    goal_cases)
  case (2 m start goal occupied seen parents cell queue found st)
  obtain seen' parents' queue' where st: "st = (seen', parents', queue')" by (cases st)
  from bfs_scan_state [OF 2(1) [symmetric, unfolded st]] obtain new where
    new: "seen' = seen \<union> new" "new \<inter> seen = {}" "new \<subseteq> set (neighbors m cell)" "new = {} \<longrightarrow> queue' = queue"
    by blast
  have ins: "new \<subseteq> {p. inside m p}" using new(3) neighbors_walkable by (force simp: walkable_def)
  show ?case
  proof (cases "new = {}")
    case True
    with new show ?thesis by (simp add: st)
  next
    case False
    then have "{p. inside m p} - seen' \<subset> {p. inside m p} - seen" using new(1,2) ins by blast
    then have "card ({p. inside m p} - seen') < card ({p. inside m p} - seen)"
      by (intro psubset_card_mono) (simp_all add: finite_inside)
    then show ?thesis by (simp add: st)
  qed
qed simp

definition find_path ::
  "battle_map \<Rightarrow> position \<Rightarrow> position \<Rightarrow> position set \<Rightarrow> ('e, position list option) res" where
  "find_path m start goal occupied =
     (if \<not> valid_map m \<or> \<not> walkable m start \<or> \<not> walkable m goal \<or> goal \<in> occupied then Ok None
      else if start = goal then Ok (Some [])
      else bfs_loop m start goal occupied ({start}, [], [start]))"

section \<open>Line of sight\<close>

text \<open>
  The loop of \<open>clear_line\<close> after its set-up: \<open>dx\<close> and \<open>- dy\<close> are the distances, \<open>right\<close> and \<open>down\<close>
  say whether \<open>sx\<close> and \<open>sy\<close> are \<open>1\<close> or \<open>-1\<close>. Both ends lie on the map and so does every point
  the loop continues from; the coordinates stay within 16 bits and their sums do not overflow.
\<close>

function clear_line_loop ::
  "battle_map \<Rightarrow> position \<Rightarrow> nat \<Rightarrow> nat \<Rightarrow> bool \<Rightarrow> bool \<Rightarrow> i32 \<Rightarrow> i32 \<Rightarrow> i32 \<Rightarrow> bool" where
  "clear_line_loop m goal dx dy right down x y error =
     (if x \<noteq> pos_x goal \<or> y \<noteq> pos_y goal then
        let twice = i32_mul error 2;
            (error1, x1) = (if twice \<ge> - int dy then (i32_add error (- int dy), x + (if right then 1 else -1))
                            else (error, x));
            (error2, y1) = (if twice \<le> int dx then (i32_add error1 (int dx), y + (if down then 1 else -1))
                            else (error1, y))
        in if \<not> walkable m (at x1 y1)
              \<or> x1 \<noteq> x \<and> y1 \<noteq> y \<and> (\<not> walkable m (at x1 y) \<or> \<not> walkable m (at x y1))
           then False
           else clear_line_loop m goal dx dy right down x1 y1 error2
      else True)"
  by pat_completeness simp_all
termination
  by (relation "measure (\<lambda>(m, goal, dx, dy, right, down, x, y, error).
       (if right then nat (int (bm_width m) - x) else nat (x + 1))
       + (if down then nat (int (bm_height m) - y) else nat (y + 1)))")
     (auto simp: walkable_def inside_def at_def split: if_splits)

definition clear_line :: "battle_map \<Rightarrow> position \<Rightarrow> position \<Rightarrow> bool" where
  "clear_line m start goal =
     (if \<not> walkable m start \<or> \<not> walkable m goal then False
      else
        let dx = nat (i32_abs (i32_sub (pos_x goal) (pos_x start)));
            dy = nat (i32_abs (i32_sub (pos_y goal) (pos_y start)))
        in clear_line_loop m goal dx dy (pos_x start < pos_x goal) (pos_y start < pos_y goal)
             (pos_x start) (pos_y start) (i32_add (int dx) (- int dy)))"

definition bell_archive_map :: battle_map where
  "bell_archive_map = \<lparr>bm_width = 12, bm_height = 8,
     bm_blocked = map (\<lambda>y. at 6 y) (filter (\<lambda>y. y \<noteq> 3) [0, 1, 2, 3, 4, 5, 6, 7]),
     bm_exits = [at 1 3]\<rparr>"

declare bfs_loop.simps [simp del] clear_line_loop.simps [simp del]

section \<open>Walks\<close>

text \<open>A walk steps between neighbors and enters no occupied cell.\<close>

fun walk :: "battle_map \<Rightarrow> position set \<Rightarrow> position \<Rightarrow> position list \<Rightarrow> bool" where
  "walk m occupied p [] = True"
| "walk m occupied p (q # qs) = (q \<in> set (neighbors m p) \<and> q \<notin> occupied \<and> walk m occupied q qs)"

lemma walk_append: "walk m occ p (qs @ rs) \<longleftrightarrow> walk m occ p qs \<and> walk m occ (last (p # qs)) rs"
  by (induction qs arbitrary: p) auto

lemma walk_cells: "walk m occ p qs \<Longrightarrow> q \<in> set qs \<Longrightarrow> walkable m q \<and> q \<notin> occ"
  by (induction qs arbitrary: p) (auto dest: neighbors_walkable)

text \<open>The parents form a tree rooted at the start: each entry hangs below an older one.\<close>

fun parent_tree :: "battle_map \<Rightarrow> position set \<Rightarrow> position \<Rightarrow> (position, position) table \<Rightarrow> bool" where
  "parent_tree m occ start [] = True"
| "parent_tree m occ start ((c, p) # ps) =
     ((p = start \<or> p \<in> fst ` set ps) \<and> c \<noteq> start \<and> c \<notin> fst ` set ps
      \<and> c \<in> set (neighbors m p) \<and> c \<notin> occ \<and> parent_tree m occ start ps)"

lemma parent_tree_start: "parent_tree m occ start ps \<Longrightarrow> start \<notin> fst ` set ps"
  by (induction m occ start ps rule: parent_tree.induct) auto

lemma parent_tree_parent:
  "parent_tree m occ start ps \<Longrightarrow> table_get ps c = Some p \<Longrightarrow> p = start \<or> p \<in> fst ` set ps"
  by (induction m occ start ps rule: parent_tree.induct) (auto simp: table_get_def split: if_splits)

lemma trace_back_cons:
  assumes "parent_tree m occ start ps" "c \<notin> fst ` set ps" "cursor \<in> fst ` set ps"
  shows "trace_back n ((c, p) # ps) start cursor acc = trace_back n ps start cursor acc"
  using assms(3)
proof (induction n arbitrary: cursor acc)
  case (Suc n)
  then obtain q where q: "table_get ps cursor = Some q"
    using table_get_keys [of cursor ps] by auto
  moreover have "table_get ((c, p) # ps) cursor = table_get ps cursor"
    using Suc.prems assms(2) by (auto simp: table_get_def)
  moreover have "q \<in> fst ` set ps" if "q \<noteq> start"
    using parent_tree_parent [OF assms(1) q] that by blast
  ultimately show ?case using Suc.IH by simp
qed simp

lemma trace_back_tree:
  assumes "parent_tree m occ start ps" "cursor \<in> fst ` set ps" "length ps \<le> n"
  shows "\<exists>cells. trace_back n ps start cursor acc = Some (cells @ acc) \<and> walk m occ start (cells @ [cursor])
     \<and> length cells < length ps"
  using assms
proof (induction ps arbitrary: cursor n acc)
  case (Cons cp ps)
  obtain c p where cp: "cp = (c, p)" by fastforce
  from Cons.prems cp have tree: "parent_tree m occ start ps" and c: "c \<notin> fst ` set ps"
    and edge: "c \<in> set (neighbors m p)" "c \<notin> occ" and p: "p = start \<or> p \<in> fst ` set ps" by auto
  obtain k where n: "n = Suc k" and k: "length ps \<le> k" using Cons.prems(3) by (cases n) auto
  show ?case
  proof (cases "cursor = c")
    case False
    then have "cursor \<in> fst ` set ps" using Cons.prems(2) cp by auto
    with Cons.IH [OF tree this, of n acc] k n trace_back_cons [OF tree c this] show ?thesis
      by (fastforce simp: cp)
  next
    case True
    then have get: "table_get (cp # ps) cursor = Some p" by (simp add: cp table_get_def)
    show ?thesis
    proof (cases "p = start")
      case True
      with get edge \<open>cursor = c\<close> show ?thesis by (intro exI [of _ "[]"]) (simp add: n)
    next
      case ps_key: False
      then have pk: "p \<in> fst ` set ps" using p by blast
      from Cons.IH [OF tree pk k, of "p # acc"] obtain cells where
        cells: "trace_back k ps start p (p # acc) = Some (cells @ p # acc)" "walk m occ start (cells @ [p])"
          "length cells < length ps"
        by blast
      have "trace_back n (cp # ps) start cursor acc = Some ((cells @ [p]) @ acc)"
        using get ps_key cells(1) trace_back_cons [OF tree c pk, of k p "p # acc"] by (simp add: n cp)
      moreover have "walk m occ start ((cells @ [p]) @ [cursor])"
        using cells(2) edge True by (simp add: walk_append)
      moreover have "length (cells @ [p]) < length (cp # ps)" using cells(3) by simp
      ultimately show ?thesis by blast
    qed
  qed
qed simp

lemma parent_tree_keys:
  "parent_tree m occ start ps \<Longrightarrow> distinct (map fst ps) \<and> (\<forall>c\<in>fst ` set ps. inside m c)"
  by (induction m occ start ps rule: parent_tree.induct) (auto dest: neighbors_walkable simp: walkable_def)

lemma card_inside: "card {p. inside m p} \<le> bm_width m * bm_height m"
proof -
  have "{p. inside m p} \<subseteq> (\<lambda>(x, y). at x y) ` ({0..<int (bm_width m)} \<times> {0..<int (bm_height m)})"
  proof
    fix p assume "p \<in> {p. inside m p}"
    then show "p \<in> (\<lambda>(x, y). at x y) ` ({0..<int (bm_width m)} \<times> {0..<int (bm_height m)})"
      by (intro image_eqI [of _ _ "(pos_x p, pos_y p)"]) (auto simp: inside_def at_def)
  qed
  then have "card {p. inside m p} \<le> card ((\<lambda>(x, y). at x y) ` ({0..<int (bm_width m)} \<times> {0..<int (bm_height m)}))"
    by (rule card_mono [rotated]) simp
  also have "\<dots> \<le> card ({0..<int (bm_width m)} \<times> {0..<int (bm_height m)})" by (rule card_image_le) simp
  also have "\<dots> = bm_width m * bm_height m" by simp
  finally show ?thesis .
qed

lemma parent_tree_length:
  assumes "parent_tree m occ start ps"
  shows "length ps \<le> bm_width m * bm_height m"
proof -
  have "length ps = card (set (map fst ps))"
    using parent_tree_keys [OF assms] distinct_card [of "map fst ps"] by simp
  also have "\<dots> \<le> card {p. inside m p}"
    by (rule card_mono [OF finite_inside]) (use parent_tree_keys [OF assms] in auto)
  finally show ?thesis using card_inside [of m] by simp
qed

section \<open>Correctness of the route search\<close>

definition bfs_inv :: "battle_map \<Rightarrow> position set \<Rightarrow> position \<Rightarrow> position \<Rightarrow> bfs_state \<Rightarrow> bool" where
  "bfs_inv m occ start goal = (\<lambda>(seen, parents, queue).
     parent_tree m occ start parents \<and> seen = insert start (fst ` set parents) \<and> set queue \<subseteq> seen
     \<and> goal \<notin> seen \<and> (\<forall>p\<in>seen - set queue. \<forall>q\<in>set (neighbors m p) - occ. q \<in> seen))"

lemma bfs_scan_found:
  assumes "bfs_scan goal occ cell ns (seen, parents, queue) = (found, seen', parents', queue')"
    and "parent_tree m occ start parents" "seen = insert start (fst ` set parents)" "cell \<in> seen"
    and "set ns \<subseteq> set (neighbors m cell)" "goal \<notin> seen"
  shows "parent_tree m occ start parents' \<and> seen' = insert start (fst ` set parents')
     \<and> (found \<longrightarrow> goal \<in> fst ` set parents') \<and> (\<not> found \<longrightarrow> goal \<notin> seen')
     \<and> seen \<subseteq> seen' \<and> (\<not> found \<longrightarrow> (\<exists>new. queue' = queue @ new \<and> seen' = seen \<union> set new))
     \<and> (\<not> found \<longrightarrow> set ns - occ \<subseteq> seen')"
  using assms
proof (induction ns arbitrary: seen parents queue)
  case (Cons n ns)
  show ?case
  proof (cases "n \<in> occ \<or> n \<in> seen")
    case True
    with Cons.prems(1) have "bfs_scan goal occ cell ns (seen, parents, queue) = (found, seen', parents', queue')"
      by simp
    from Cons.IH [OF this] Cons.prems True show ?thesis by auto
  next
    case False
    have tree: "parent_tree m occ start ((n, cell) # parents)"
      using Cons.prems False by auto
    show ?thesis
    proof (cases "n = goal")
      case True
      with False Cons.prems tree show ?thesis by auto
    next
      case ng: False
      with False Cons.prems(1) have
        "bfs_scan goal occ cell ns (insert n seen, (n, cell) # parents, queue @ [n]) = (found, seen', parents', queue')"
        by simp
      note ih = Cons.IH [OF this tree]
      have "insert n seen = insert start (fst ` set ((n, cell) # parents))" "cell \<in> insert n seen"
        "set ns \<subseteq> set (neighbors m cell)" "goal \<notin> insert n seen"
        using Cons.prems ng by auto
      note ih = ih [OF this]
      have more: "\<exists>new. queue' = queue @ new \<and> seen' = seen \<union> set new" if "\<not> found"
      proof -
        from ih that obtain new where "queue' = (queue @ [n]) @ new" "seen' = insert n seen \<union> set new" by blast
        then show ?thesis by (intro exI [of _ "n # new"]) auto
      qed
      have "set (n # ns) - occ \<subseteq> seen'" if "\<not> found" using ih that by auto
      with ih more show ?thesis by blast
    qed
  qed
qed auto

lemma bfs_closed_no_walk:
  assumes "\<forall>p\<in>seen. \<forall>q\<in>set (neighbors m p) - occ. q \<in> seen" "p \<in> seen" "walk m occ p qs"
  shows "last (p # qs) \<in> seen"
  using assms(2,3)
proof (induction qs arbitrary: p)
  case (Cons q qs)
  then have "q \<in> seen" using assms(1) by auto
  then show ?case using Cons.IH [of q] Cons.prems by simp
qed simp

text \<open>The contract of a route search: a walk to the goal, or none exists; never a panic.\<close>

definition route_spec ::
  "battle_map \<Rightarrow> position \<Rightarrow> position \<Rightarrow> position set \<Rightarrow> ('e, position list option) res \<Rightarrow> bool" where
  "route_spec m start goal occ r \<longleftrightarrow>
     (case r of
        Ok (Some route) \<Rightarrow> walk m occ start route \<and> last (start # route) = goal
          \<and> length route \<le> bm_width m * bm_height m
      | Ok None \<Rightarrow> \<forall>qs. walk m occ start qs \<longrightarrow> last (start # qs) \<noteq> goal
      | _ \<Rightarrow> False)"

lemma bfs_loop_correct:
  assumes "bfs_inv m occ start goal st"
  shows "route_spec m start goal occ (bfs_loop m start goal occ st)"
  using assms
proof (induction m start goal occ st rule: bfs_loop.induct)
  case (1 m start goal occ seen parents)
  then have "goal \<notin> seen" "start \<in> seen" "\<forall>p\<in>seen. \<forall>q\<in>set (neighbors m p) - occ. q \<in> seen"
    by (auto simp: bfs_inv_def)
  then have "\<forall>qs. walk m occ start qs \<longrightarrow> last (start # qs) \<noteq> goal"
    using bfs_closed_no_walk [of seen m occ start] by metis
  then show ?case by (simp add: bfs_loop.simps route_spec_def)
next
  case (2 m start goal occ seen parents cell queue)
  obtain found seen' parents' queue' where scan:
    "bfs_scan goal occ cell (neighbors m cell) (seen, parents, queue) = (found, seen', parents', queue')"
    by (metis prod_cases4)
  from 2(2) have inv: "parent_tree m occ start parents" "seen = insert start (fst ` set parents)"
    "cell \<in> seen" "set queue \<subseteq> seen" "goal \<notin> seen"
    "\<forall>p\<in>seen - set (cell # queue). \<forall>q\<in>set (neighbors m p) - occ. q \<in> seen"
    unfolding bfs_inv_def by auto
  note res = bfs_scan_found [OF scan inv(1,2,3) subset_refl inv(5)]
  show ?case
  proof (cases found)
    case True
    with res trace_back_tree [of m occ start parents' goal "length parents'" "[goal]"]
    obtain cells where cells: "trace_back (length parents') parents' start goal [goal] = Some (cells @ [goal])"
      "walk m occ start (cells @ [goal])" "length cells < length parents'" by auto
    moreover have "length parents' \<le> bm_width m * bm_height m" using res parent_tree_length by blast
    ultimately have len: "length (cells @ [goal]) \<le> bm_width m * bm_height m" by simp
    show ?thesis
      by (subst bfs_loop.simps) (use cells len in \<open>simp add: scan True route_spec_def\<close>)
  next
    case False
    have "bfs_inv m occ start goal (seen', parents', queue')"
      unfolding bfs_inv_def prod.case
    proof (intro conjI ballI)
      from res False obtain new where new: "queue' = queue @ new" "seen' = seen \<union> set new" by blast
      then show "set queue' \<subseteq> seen'" using inv(4) by auto
      fix p q assume p: "p \<in> seen' - set queue'" and q: "q \<in> set (neighbors m p) - occ"
      show "q \<in> seen'"
      proof (cases "p = cell")
        case True
        with q res False show ?thesis by blast
      next
        case ncell: False
        with p new have "p \<in> seen - set (cell # queue)" by auto
        with inv(6) q new show ?thesis by blast
      qed
    qed (use res False in blast)+
    note ih = 2(1) [OF scan [symmetric] _ this]
    show ?thesis
      by (subst bfs_loop.simps) (use ih False in \<open>simp only: scan prod.case bool.case simp_thms\<close>)
  qed
qed

lemma find_path_correct:
  assumes "valid_map m" "walkable m start" "walkable m goal" "goal \<notin> occ"
  shows "route_spec m start goal occ (find_path m start goal occ)"
proof (cases "start = goal")
  case True
  then show ?thesis using assms by (simp add: find_path_def route_spec_def)
next
  case False
  then have "bfs_inv m occ start goal ({start}, [], [start])" by (simp add: bfs_inv_def)
  from bfs_loop_correct [OF this] show ?thesis using assms False by (simp add: find_path_def)
qed

lemma find_path_Some:
  assumes "find_path m start goal occ = Ok (Some route)"
  shows "walk m occ start route \<and> last (start # route) = goal \<and> valid_map m \<and> walkable m start
     \<and> walkable m goal \<and> goal \<notin> occ \<and> length route \<le> bm_width m * bm_height m"
proof -
  from assms have g: "valid_map m" "walkable m start" "walkable m goal" "goal \<notin> occ"
    by (auto simp: find_path_def split: if_splits)
  have "route_spec m start goal occ (find_path m start goal occ :: ('a, position list option) res)"
    by (rule find_path_correct [OF g])
  then show ?thesis unfolding assms using g by (simp add: route_spec_def)
qed

lemma find_path_total: "\<exists>r. find_path m start goal occ = Ok r"
proof (cases "valid_map m \<and> walkable m start \<and> walkable m goal \<and> goal \<notin> occ")
  case True
  then have "route_spec m start goal occ (find_path m start goal occ :: ('a, position list option) res)"
    by (intro find_path_correct) simp_all
  then show ?thesis by (auto simp: route_spec_def split: res.splits)
next
  case False
  then show ?thesis by (auto simp: find_path_def)
qed

section \<open>Line of sight and walks\<close>

lemma set_offsets: "set offsets = {(dx, dy). dx \<in> {-1, 0, 1} \<and> dy \<in> {-1, 0, 1} \<and> (dx \<noteq> 0 \<or> dy \<noteq> 0)}"
  by (auto simp: offsets_def)

lemma set_map_filter: "set (List.map_filter f xs) = {y. \<exists>x\<in>set xs. f x = Some y}"
  by (force simp: List.map_filter_def)

lemma neighbors_iff:
  "q \<in> set (neighbors m p) \<longleftrightarrow> (\<exists>dx dy. (dx, dy) \<in> set offsets
     \<and> q = at (i32_saturating_add (pos_x p) dx) (i32_saturating_add (pos_y p) dy) \<and> walkable m q
     \<and> (dx = 0 \<or> dy = 0 \<or> walkable m (at (i32_add (pos_x p) dx) (pos_y p))
          \<and> walkable m (at (pos_x p) (i32_add (pos_y p) dy))))"
  unfolding neighbors_def set_map_filter Bex_def split_paired_Ex prod.case Let_def mem_Collect_eq
  by (auto split: if_splits)

lemma inside_small: "inside m p \<Longrightarrow> valid_map m \<Longrightarrow> 0 \<le> pos_x p \<and> pos_x p < 128 \<and> 0 \<le> pos_y p \<and> pos_y p < 128"
  by (auto simp: inside_def valid_map_def)

text \<open>On a valid map the sums of \<open>neighbors\<close> do not wrap, so a neighbor is an offset away.\<close>

lemma neighborI:
  assumes "valid_map m" "walkable m p" "walkable m (at (pos_x p + dx) (pos_y p + dy))"
    and "dx \<in> {-1, 0, 1}" "dy \<in> {-1, 0, 1}" "dx \<noteq> 0 \<or> dy \<noteq> 0"
    and "dx \<noteq> 0 \<Longrightarrow> dy \<noteq> 0 \<Longrightarrow> walkable m (at (pos_x p + dx) (pos_y p)) \<and> walkable m (at (pos_x p) (pos_y p + dy))"
  shows "at (pos_x p + dx) (pos_y p + dy) \<in> set (neighbors m p)"
proof -
  have small: "0 \<le> pos_x p \<and> pos_x p < 128 \<and> 0 \<le> pos_y p \<and> pos_y p < 128"
    using assms(1,2) inside_small by (auto simp: walkable_def)
  have "\<bar>dx\<bar> \<le> 1 \<and> \<bar>dy\<bar> \<le> 1" using assms(4,5) by auto
  then have "in_i32 (pos_x p + dx)" "in_i32 (pos_y p + dy)" using small unfolding in_i32_def by linarith+
  then have "i32_saturating_add (pos_x p) dx = pos_x p + dx" "i32_saturating_add (pos_y p) dy = pos_y p + dy"
    "i32_add (pos_x p) dx = pos_x p + dx" "i32_add (pos_y p) dy = pos_y p + dy"
    by (simp_all add: i32_saturating_add_def i32_add_def sat32_id wrap32_id)
  then show ?thesis using assms unfolding neighbors_iff
    by (intro exI [of _ dx] exI [of _ dy]) (auto simp: set_offsets)
qed

lemma at_collapse [simp]: "at (pos_x p) (pos_y p) = p" "pos_x (at x y) = x" "pos_y (at x y) = y"
  by (simp_all add: at_def)

lemma clear_line_loop_walk:
  assumes "clear_line_loop m goal dx dy right down x y error" "valid_map m" "walkable m (at x y)"
  shows "\<exists>cells. walk m {} (at x y) cells \<and> last (at x y # cells) = goal"
  using assms
proof (induction m goal dx dy right down x y error rule: clear_line_loop.induct)
  case (1 m goal dx dy right down x y error)
  show ?case
  proof (cases "x \<noteq> pos_x goal \<or> y \<noteq> pos_y goal")
    case False
    then show ?thesis by (intro exI [of _ "[]"]) simp
  next
    case True
    define twice where "twice = i32_mul error 2"
    define sx where "sx = (if twice \<ge> - int dy then (if right then 1 else -1) else (0::int))"
    define sy where "sy = (if twice \<le> int dx then (if down then 1 else -1) else (0::int))"
    define e1 where "e1 = (if twice \<ge> - int dy then i32_add error (- int dy) else error)"
    define e2 where "e2 = (if twice \<le> int dx then i32_add e1 (int dx) else e1)"
    have moved: "sx \<noteq> 0 \<or> sy \<noteq> 0" by (auto simp: sx_def sy_def)
    have unit: "sx \<in> {-1, 0, 1}" "sy \<in> {-1, 0, 1}" by (auto simp: sx_def sy_def)
    have step: "(if twice \<ge> - int dy then (i32_add error (- int dy), x + (if right then 1 else -1))
        else (error, x)) = (e1, x + sx)"
      "(if twice \<le> int dx then (i32_add e1 (int dx), y + (if down then 1 else -1)) else (e1, y)) = (e2, y + sy)"
      by (simp_all add: e1_def e2_def sx_def sy_def)
    have legal: "walkable m (at (x + sx) (y + sy))"
      "sx \<noteq> 0 \<Longrightarrow> sy \<noteq> 0 \<Longrightarrow> walkable m (at (x + sx) y) \<and> walkable m (at x (y + sy))"
      and rest: "clear_line_loop m goal dx dy right down (x + sx) (y + sy) e2"
      using "1.prems"(1) True
      by (subst (asm) clear_line_loop.simps;
          simp add: Let_def step flip: twice_def split: if_splits)+
    have "at (x + sx) (y + sy) \<in> set (neighbors m (at x y))"
      using neighborI [of m "at x y" sx sy] "1.prems" legal unit moved by simp
    moreover obtain cells where "walk m {} (at (x + sx) (y + sy)) cells"
      "last (at (x + sx) (y + sy) # cells) = goal"
      using "1.IH" [OF True twice_def step(1) [symmetric] refl step(2) [symmetric] refl] legal rest "1.prems"
      by auto
    ultimately show ?thesis by (intro exI [of _ "at (x + sx) (y + sy) # cells"]) simp
  qed
qed

lemma clear_line_ends: "clear_line m p q \<Longrightarrow> walkable m p \<and> walkable m q"
  by (simp add: clear_line_def split: if_splits)

lemma clear_line_refl: "clear_line m p p = walkable m p"
  by (simp add: clear_line_def clear_line_loop.simps)

lemma clear_line_walk:
  assumes "clear_line m p q" "valid_map m"
  shows "\<exists>cells. walk m {} p cells \<and> last (p # cells) = q"
  using clear_line_loop_walk [of m q _ _ _ _ "pos_x p" "pos_y p"] assms clear_line_ends [OF assms(1)]
  by (auto simp: clear_line_def Let_def)

end
