(* ===== verification/Resolver_State.thy ===== *)
theory Resolver_State
  imports Checks Combatant Initiative Geometry
begin

text \<open>
  \<^verbatim>\<open>crates/app-domain/src/combat/resolver.rs\<close>, the part every action shares: the resolver's
  state, its errors and actions, the checks on the acting combatant, and the start of a turn.
  A generator call is resolved by the \<open>sampler\<close> argument \<open>rr\<close> that threads \<open>rs_rng\<close>.

  \<open>resolver_ok\<close> is the invariant of a resolver; \<open>resolver_evolves\<close> is what an action keeps: the
  participants, the map, the turn boundary, and pointwise \<open>combatant_evolves\<close>.
\<close>

section \<open>State, errors and actions\<close>

datatype validation_error =
    Obstructed | ExitRequired | SpellUnavailable | SpellSlotUnavailable | InvalidEncounter
  | Incapacitated | WeaponUnavailable | OutOfRange | AmmunitionExhausted | HandsOccupied
  | NotYourTurn | InvalidTarget | ActionEconomy string | ActionExhausted | TargetNotFound
  | AttackerNotFound | CombatantNotFound

datatype combat_action =
    Retreat combatant_id
  | Spell combatant_id string "combatant_id list" u8
  | NpcTurn combatant_id
  | WeaponAttack combatant_id combatant_id "string option" weapon_mode bool
  | Attack combatant_id combatant_id i32 dice_expr damage_type
  | Cast combatant_id
  | Move combatant_id position
  | EndTurn combatant_id

record 'g resolver =
  rs_combatants :: "(combatant_id, combatant) table"
  rs_order :: initiative_order
  rs_rng :: "'g seeded_rng"
  rs_map :: "battle_map option"
  rs_stop_round :: "u32 option"
  rs_rescue_downed_party :: bool

definition new_resolver ::
  "(combatant_id, combatant) table \<Rightarrow> initiative_order \<Rightarrow> 'g seeded_rng \<Rightarrow> 'g resolver" where
  "new_resolver combatants order rng = \<lparr>rs_combatants = combatants, rs_order = order, rs_rng = rng,
     rs_map = None, rs_stop_round = None, rs_rescue_downed_party = False\<rparr>"

definition set_turn_boundary :: "'g resolver \<Rightarrow> u32 option \<Rightarrow> bool \<Rightarrow> 'g resolver" where
  "set_turn_boundary r stop_round rescue = r\<lparr>rs_stop_round := stop_round, rs_rescue_downed_party := rescue\<rparr>"

definition set_map :: "'g resolver \<Rightarrow> battle_map \<Rightarrow> (validation_error, unit) res \<times> 'g resolver" where
  "set_map r m =
     (if \<not> valid_map m \<or> (\<exists>a\<in>set (table_values (rs_combatants r)). \<not> walkable m (c_position a))
      then (Err InvalidEncounter, r) else (Ok (), r\<lparr>rs_map := Some m\<rparr>))"

text \<open>\<open>combatants.get(&id)\<close>, and a write through \<open>combatants.get_mut(&id)\<close>.\<close>

definition actor_of :: "'g resolver \<Rightarrow> combatant_id \<Rightarrow> combatant option" where
  "actor_of r i = table_get (rs_combatants r) i"

definition upd_actor :: "combatant_id \<Rightarrow> (combatant \<Rightarrow> combatant) \<Rightarrow> 'g resolver \<Rightarrow> 'g resolver" where
  "upd_actor i f r = r\<lparr>rs_combatants := table_modify i f (rs_combatants r)\<rparr>"

definition clear_between :: "'g resolver \<Rightarrow> position \<Rightarrow> position \<Rightarrow> bool" where
  "clear_between r p q = (case rs_map r of None \<Rightarrow> True | Some m \<Rightarrow> clear_line m p q)"

definition occupied :: "'g resolver \<Rightarrow> combatant_id \<Rightarrow> position set" where
  "occupied r actor = set (map c_position (filter (\<lambda>other.
     c_id other \<noteq> actor \<and> \<not> c_withdrawn other \<and> c_current_hp other > 0 \<and> \<not> c_is_dead other)
     (table_values (rs_combatants r))))"

definition require_current :: "'g resolver \<Rightarrow> combatant_id \<Rightarrow> (validation_error, unit) res" where
  "require_current r i =
     (if (case actor_of r i of Some a \<Rightarrow> c_withdrawn a | None \<Rightarrow> False) then Err Incapacitated
      else bind_res (unwrap (order_current (rs_order r))) (\<lambda>e. reject_if (ie_id e \<noteq> i) NotYourTurn))"

definition can_act :: "combatant \<Rightarrow> bool" where
  "can_act a \<longleftrightarrow> \<not> (c_withdrawn a \<or> c_current_hp a \<le> 0 \<or> c_is_dead a \<or> has_condition a Unconscious)"

definition require_conscious :: "'g resolver \<Rightarrow> combatant_id \<Rightarrow> (validation_error, unit) res" where
  "require_conscious r i =
     bind_res (ok_or (actor_of r i) CombatantNotFound) (\<lambda>a. reject_if (\<not> can_act a) Incapacitated)"

section \<open>The start of a turn\<close>

text \<open>A standing hero: what a rescue boundary looks for.\<close>

definition standing_hero :: "combatant \<Rightarrow> bool" where
  "standing_hero a \<longleftrightarrow> c_character_id a \<noteq> None \<and> \<not> c_withdrawn a \<and> c_current_hp a > 0 \<and> \<not> c_is_dead a"

definition boundary_reached :: "'g resolver \<Rightarrow> bool" where
  "boundary_reached r \<longleftrightarrow>
     (case rs_stop_round r of None \<Rightarrow> False | Some limit \<Rightarrow> io_round (rs_order r) \<ge> limit)
     \<or> rs_rescue_downed_party r \<and> \<not> (\<exists>a\<in>set (table_values (rs_combatants r)). standing_hero a)"

definition death_save_events :: "combatant_id \<Rightarrow> death_save_result \<Rightarrow> result_events \<Rightarrow> result_events" where
  "death_save_events i d ev =
     (let ev1 = (if ds_roll d = 20 then ev\<lparr>
            ev_healing := ev_healing ev @ [\<lparr>ha_target = i, ha_amount = 1, ha_new_hp = 1\<rparr>],
            ev_conditions_removed := ev_conditions_removed ev @ [\<lparr>cc_target = i,
               cc_condition = ''unconscious'', cc_duration_rounds = None, cc_source = None\<rparr>]\<rparr> else ev);
          ev2 = (if ds_dead d then ev1\<lparr>ev_deaths := ev_deaths ev1 @ [i]\<rparr> else ev1)
      in ev2\<lparr>ev_death_saves := ev_death_saves ev2 @ [d]\<rparr>)"

definition turn_death_save ::
  "'g sampler \<Rightarrow> combatant_id \<Rightarrow> combatant \<Rightarrow> result_events \<Rightarrow> 'g resolver \<Rightarrow>
   result_events \<times> combatant \<times> 'g resolver" where
  "turn_death_save rr i a ev r =
     (if c_character_id a = None then (ev, a, r)
      else
        let (save, a1, rng1) = resolve_death_save rr a (rs_rng r)
        in (case save of None \<Rightarrow> ev | Some d \<Rightarrow> death_save_events i d ev, a1,
            upd_actor i (\<lambda>_. a1) (r\<lparr>rs_rng := rng1\<rparr>)))"

definition advance_turn :: "'g resolver \<Rightarrow> 'g resolver" where
  "advance_turn r = r\<lparr>rs_order := order_advance (rs_order r)\<rparr>"

fun begin_turn_loop ::
  "'g sampler \<Rightarrow> nat \<Rightarrow> result_events \<Rightarrow> 'g resolver \<Rightarrow> (validation_error, result_events) res \<times> 'g resolver" where
  "begin_turn_loop rr 0 ev r = (Ok ev, r)"
| "begin_turn_loop rr (Suc n) ev r =
     (if boundary_reached r then (Ok ev, r)
      else
        try_state (unwrap (order_current (rs_order r))) r (\<lambda>e.
        try_state (ok_or (actor_of r (ie_id e)) CombatantNotFound) r (\<lambda>a.
        if c_withdrawn a then begin_turn_loop rr n ev (advance_turn r)
        else
          let (ev1, a1, r1) = turn_death_save rr (ie_id e) a ev r
          in if c_current_hp a1 > 0 \<and> \<not> c_is_dead a1
             then (Ok ev1, upd_actor (ie_id e)
                     (\<lambda>x. x\<lparr>c_budget := refresh_for_new_turn (c_budget x) (c_speed_ft x)\<rparr>) r1)
             else begin_turn_loop rr n ev1 (advance_turn r1))))"

definition begin_current_turn ::
  "'g sampler \<Rightarrow> 'g resolver \<Rightarrow> (validation_error, result_events) res \<times> 'g resolver" where
  "begin_current_turn rr r = begin_turn_loop rr (order_len (rs_order r)) no_events r"

section \<open>The invariant\<close>

definition actor_ok :: "combatant \<Rightarrow> bool" where
  "actor_ok a \<longleftrightarrow> vitals_ok a
     \<and> (\<forall>p. c_casting a = Some p \<longrightarrow> \<bar>cp_ability_modifier p\<bar> \<le> 1000000)"

definition resolver_ok :: "'g resolver \<Rightarrow> bool" where
  "resolver_ok r \<longleftrightarrow>
     table_ok (rs_combatants r)
     \<and> (\<forall>(k, a)\<in>set (rs_combatants r). c_id a = k \<and> actor_ok a)
     \<and> order_ok (rs_order r)
     \<and> (\<forall>e\<in>set (io_entries (rs_order r)). ie_id e \<in> set (map fst (rs_combatants r)))
     \<and> (case rs_map r of None \<Rightarrow> True | Some m \<Rightarrow> valid_map m)"

definition resolver_evolves :: "'g resolver \<Rightarrow> 'g resolver \<Rightarrow> bool" where
  "resolver_evolves r s \<longleftrightarrow>
     pointwise combatant_evolves (rs_combatants r) (rs_combatants s)
     \<and> io_entries (rs_order s) = io_entries (rs_order r)
     \<and> rs_map s = rs_map r \<and> rs_stop_round s = rs_stop_round r
     \<and> rs_rescue_downed_party s = rs_rescue_downed_party r
     \<and> (order_ok (rs_order r) \<longrightarrow> order_ok (rs_order s))"


interpretation engine: evolution resolver_evolves
proof
  show "resolver_evolves r r" for r :: "'a resolver"
    by (simp add: resolver_evolves_def roster.pointwise_refl)
  show "resolver_evolves r t" if "resolver_evolves r s" "resolver_evolves s t" for r s t :: "'a resolver"
    using that by (auto simp: resolver_evolves_def intro: roster.pointwise_trans)
qed

lemma table_get_mem: "table_ok t \<Longrightarrow> (k, v) \<in> set t \<longleftrightarrow> table_get t k = Some v"
  by (simp add: table_ok_def table_get_def)

lemma resolver_okI:
  assumes "table_ok (rs_combatants r)" "\<And>k a. actor_of r k = Some a \<Longrightarrow> c_id a = k \<and> actor_ok a"
    "order_ok (rs_order r)" "\<And>e. e \<in> set (io_entries (rs_order r)) \<Longrightarrow> ie_id e \<in> set (map fst (rs_combatants r))"
    "\<And>m. rs_map r = Some m \<Longrightarrow> valid_map m"
  shows "resolver_ok r"
  using assms unfolding resolver_ok_def actor_of_def
  by (auto simp: table_get_mem split: option.splits)

lemma resolver_okD:
  assumes "resolver_ok r"
  shows "table_ok (rs_combatants r)" "actor_of r k = Some a \<Longrightarrow> c_id a = k" "actor_of r k = Some a \<Longrightarrow> actor_ok a"
    "order_ok (rs_order r)" "e \<in> set (io_entries (rs_order r)) \<Longrightarrow> ie_id e \<in> set (map fst (rs_combatants r))"
    "rs_map r = Some m \<Longrightarrow> valid_map m"
proof -
  note ok = assms [unfolded resolver_ok_def]
  have mem: "c_id a = k \<and> actor_ok a" if "actor_of r k = Some a"
    using ok that table_get_mem [of "rs_combatants r" k a] by (auto simp: actor_of_def)
  show "table_ok (rs_combatants r)" "order_ok (rs_order r)" using ok by blast+
  show "c_id a = k" "actor_ok a" if "actor_of r k = Some a" using mem [OF that] by blast+
  show "ie_id e \<in> set (map fst (rs_combatants r))" if "e \<in> set (io_entries (rs_order r))" using ok that by blast
  show "valid_map m" if "rs_map r = Some m" using ok that by simp
qed

lemma actor_ok_evolves: "combatant_evolves a b \<Longrightarrow> actor_ok a \<Longrightarrow> actor_ok b"
  unfolding actor_ok_def using evolves_casting [of a b] by (fastforce simp: combatant_evolves_def)

lemma resolver_evolves_ok:
  assumes ev: "resolver_evolves r s" and ok: "resolver_ok r"
  shows "resolver_ok s"
proof (rule resolver_okI)
  have pw: "pointwise combatant_evolves (rs_combatants r) (rs_combatants s)"
    using ev by (simp add: resolver_evolves_def)
  note keys = pointwise_keys [OF pw]
  show "table_ok (rs_combatants s)" using resolver_okD(1) [OF ok] keys by (simp add: table_ok_def)
  show "c_id b = k \<and> actor_ok b" if b: "actor_of s k = Some b" for k b
  proof -
    obtain a where "actor_of r k = Some a" "combatant_evolves a b"
      using pointwise_back [OF pw] b unfolding actor_of_def by blast
    then show ?thesis using resolver_okD(2,3) [OF ok] actor_ok_evolves evolves_fields(1) by metis
  qed
  show "order_ok (rs_order s)" using ev resolver_okD(4) [OF ok] by (simp add: resolver_evolves_def)
  show "ie_id e \<in> set (map fst (rs_combatants s))" if "e \<in> set (io_entries (rs_order s))" for e
    using that ev resolver_okD(5) [OF ok, of e] keys by (simp add: resolver_evolves_def)
  show "valid_map m" if "rs_map s = Some m" for m
    using that ev resolver_okD(6) [OF ok] by (simp add: resolver_evolves_def)
qed

text \<open>The primitive changes.\<close>

lemma upd_actor_evolves:
  "(\<And>a. actor_of r i = Some a \<Longrightarrow> combatant_evolves a (f a)) \<Longrightarrow> resolver_evolves r (upd_actor i f r)"
  by (auto simp: resolver_evolves_def upd_actor_def actor_of_def intro: roster.pointwise_modify)

lemma rng_evolves: "resolver_evolves r (r\<lparr>rs_rng := g\<rparr>)"
  by (simp add: resolver_evolves_def roster.pointwise_refl)

lemma advance_evolves: "resolver_evolves r (advance_turn r)"
  by (simp add: resolver_evolves_def advance_turn_def roster.pointwise_refl)

lemma actor_upd [simp]:
  "actor_of (upd_actor i f r) j = (if j = i then map_option f (actor_of r j) else actor_of r j)"
  by (simp add: actor_of_def upd_actor_def)

lemma actor_rng [simp]: "actor_of (r\<lparr>rs_rng := g\<rparr>) i = actor_of r i"
  by (simp add: actor_of_def)

lemma actor_advance [simp]: "actor_of (advance_turn r) i = actor_of r i"
  by (simp add: actor_of_def advance_turn_def)

lemma upd_actor_fields [simp]:
  "rs_order (upd_actor i f r) = rs_order r" "rs_rng (upd_actor i f r) = rs_rng r"
  "rs_map (upd_actor i f r) = rs_map r" "rs_stop_round (upd_actor i f r) = rs_stop_round r"
  "rs_rescue_downed_party (upd_actor i f r) = rs_rescue_downed_party r"
  by (simp_all add: upd_actor_def)

lemma evolved_actor:
  "resolver_evolves r s \<Longrightarrow> actor_of r i = Some a \<Longrightarrow> \<exists>b. actor_of s i = Some b \<and> combatant_evolves a b"
  unfolding resolver_evolves_def actor_of_def pointwise_def by blast

lemma evolved_actor_back:
  "resolver_evolves r s \<Longrightarrow> actor_of s i = Some b \<Longrightarrow> \<exists>a. actor_of r i = Some a \<and> combatant_evolves a b"
  using pointwise_back [of combatant_evolves "rs_combatants r" "rs_combatants s" i b]
  by (simp add: resolver_evolves_def actor_of_def)

lemma evolved_none: "resolver_evolves r s \<Longrightarrow> actor_of s i = None \<longleftrightarrow> actor_of r i = None"
  by (metis evolved_actor evolved_actor_back not_None_eq)

lemma actors_in_roster: "resolver_ok r \<Longrightarrow> a \<in> set (table_values (rs_combatants r)) \<longleftrightarrow> (\<exists>i. actor_of r i = Some a)"
  using table_values_iff resolver_okD(1) by (fastforce simp: actor_of_def)

lemma current_actor:
  assumes "resolver_ok r"
  obtains e a where "order_current (rs_order r) = Some e" "actor_of r (ie_id e) = Some a"
proof -
  obtain e where e: "order_current (rs_order r) = Some e"
    using order_ok_current [OF resolver_okD(4) [OF assms]] by blast
  have "ie_id e \<in> set (map fst (rs_combatants r))"
    using resolver_okD(5) [OF assms order_current_mem [OF e]] .
  then show ?thesis using that [OF e] table_get_keys unfolding actor_of_def by fast
qed

lemma require_current_Ok:
  "require_current r i = Ok u \<longleftrightarrow>
     \<not> (\<exists>a. actor_of r i = Some a \<and> c_withdrawn a) \<and> (\<exists>e. order_current (rs_order r) = Some e \<and> ie_id e = i)"
  by (auto simp: require_current_def bind_res_iffs split: option.splits)

lemma require_conscious_Ok:
  "require_conscious r i = Ok u \<longleftrightarrow> (\<exists>a. actor_of r i = Some a \<and> can_act a)"
  by (auto simp: require_conscious_def bind_res_iffs)

lemma require_no_panic:
  "require_conscious r i \<noteq> Panic" "resolver_ok r \<Longrightarrow> require_current r i \<noteq> Panic"
  using current_actor [of r]
  by (auto simp: require_current_def require_conscious_def bind_res_iffs split: option.splits)

section \<open>What starting a turn does\<close>

lemma turn_death_save_evolves:
  assumes "turn_death_save rr i a ev r = (ev1, a1, r1)" "actor_of r i = Some a"
  shows "resolver_evolves r r1" "actor_of r1 i = Some a1" "combatant_evolves a a1" "rs_order r1 = rs_order r"
    "\<And>j. j \<noteq> i \<Longrightarrow> actor_of r1 j = actor_of r j"
proof -
  obtain save b g where s: "resolve_death_save rr a (rs_rng r) = (save, b, g)" by (metis prod_cases3)
  have b: "combatant_evolves a b" using death_save_evolves [of a rr "rs_rng r"] s by simp
  have up: "resolver_evolves r (upd_actor i (\<lambda>_. b) (r\<lparr>rs_rng := g\<rparr>))"
    by (rule engine.trans [OF rng_evolves upd_actor_evolves]) (use assms(2) b in simp)
  show "resolver_evolves r r1" "actor_of r1 i = Some a1" "combatant_evolves a a1" "rs_order r1 = rs_order r"
    "\<And>j. j \<noteq> i \<Longrightarrow> actor_of r1 j = actor_of r j"
    using assms s up b
    by (auto simp: turn_death_save_def engine.refl roster.refl split: if_splits)
qed

lemma begin_turn_loop_evolves: "resolver_evolves r (snd (begin_turn_loop rr n ev r))"
proof (induction n arbitrary: ev r)
  case (Suc n)
  have skip: "resolver_evolves r (snd (begin_turn_loop rr n ev' (advance_turn s)))"
    if "resolver_evolves r s" for ev' s
    using engine.trans [OF engine.trans [OF that advance_evolves] Suc.IH] .
  show ?case
  proof (cases "boundary_reached r")
    case False
    have "resolver_evolves r (snd (try_state (unwrap (order_current (rs_order r))) r (\<lambda>e.
        try_state (ok_or (actor_of r (ie_id e)) CombatantNotFound) r (\<lambda>a.
        if c_withdrawn a then begin_turn_loop rr n ev (advance_turn r)
        else
          let (ev1, a1, r1) = turn_death_save rr (ie_id e) a ev r
          in if c_current_hp a1 > 0 \<and> \<not> c_is_dead a1
             then (Ok ev1, upd_actor (ie_id e)
                     (\<lambda>x. x\<lparr>c_budget := refresh_for_new_turn (c_budget x) (c_speed_ft x)\<rparr>) r1)
             else begin_turn_loop rr n ev1 (advance_turn r1)))))"
    proof (intro engine.after_try)
      fix e a assume "ok_or (actor_of r (ie_id e)) CombatantNotFound = (Ok a :: (validation_error, combatant) res)"
      then have a: "actor_of r (ie_id e) = Some a" by simp
      obtain ev1 a1 r1 where td: "turn_death_save rr (ie_id e) a ev r = (ev1, a1, r1)" by (metis prod_cases3)
      have r1: "resolver_evolves r r1" using turn_death_save_evolves [OF td a] by simp
      have up: "resolver_evolves r (upd_actor (ie_id e)
          (\<lambda>x. x\<lparr>c_budget := refresh_for_new_turn (c_budget x) (c_speed_ft x)\<rparr>) r1)"
        by (rule engine.trans [OF r1 upd_actor_evolves]) (rule budget_evolves)
      show "resolver_evolves r (snd (if c_withdrawn a then begin_turn_loop rr n ev (advance_turn r)
        else
          let (ev1, a1, r1) = turn_death_save rr (ie_id e) a ev r
          in if c_current_hp a1 > 0 \<and> \<not> c_is_dead a1
             then (Ok ev1, upd_actor (ie_id e)
                     (\<lambda>x. x\<lparr>c_budget := refresh_for_new_turn (c_budget x) (c_speed_ft x)\<rparr>) r1)
             else begin_turn_loop rr n ev1 (advance_turn r1)))"
        using skip [OF engine.refl] skip [OF r1] up by (simp add: td)
    qed
    with False show ?thesis by simp
  qed (simp add: engine.refl)
qed (simp add: engine.refl)

lemma begin_current_turn_evolves: "resolver_evolves r (snd (begin_current_turn rr r))"
  unfolding begin_current_turn_def by (rule begin_turn_loop_evolves)

text \<open>A participant who cannot take a turn, and one who starts it with a fresh budget.\<close>

definition sidelined :: "'g resolver \<Rightarrow> combatant_id \<Rightarrow> bool" where
  "sidelined r i \<longleftrightarrow> (\<forall>a. actor_of r i = Some a \<longrightarrow> c_withdrawn a \<or> c_current_hp a \<le> 0 \<or> c_is_dead a)"

definition turn_ready :: "'g resolver \<Rightarrow> bool" where
  "turn_ready r \<longleftrightarrow> (\<exists>e a. order_current (rs_order r) = Some e \<and> actor_of r (ie_id e) = Some a
     \<and> \<not> c_withdrawn a \<and> c_current_hp a > 0 \<and> \<not> c_is_dead a \<and> c_budget a = fresh_budget (c_speed_ft a))"

lemma begin_turn_loop_outcome:
  assumes "resolver_ok r" "\<forall>i\<in>V. sidelined r i"
    and "begin_turn_loop rr n ev r = (res, r')"
  shows "(\<exists>ev'. res = Ok ev') \<and> (boundary_reached r' \<or> turn_ready r'
     \<or> (\<forall>i\<in>V. sidelined r' i)
       \<and> (\<forall>k<n. sidelined r' (ie_id (io_entries (rs_order r) !
              ((io_current_index (rs_order r) + k) mod order_len (rs_order r))))))"
  using assms
proof (induction n arbitrary: ev r V)
  case (Suc n)
  let ?o = "rs_order r"
  show ?case
  proof (cases "boundary_reached r")
    case True
    with Suc.prems show ?thesis by auto
  next
    case no_bound: False
    obtain e a where e: "order_current ?o = Some e" and a: "actor_of r (ie_id e) = Some a"
      using current_actor [OF Suc.prems(1)] .
    have ok_o: "order_ok ?o" using resolver_okD(4) [OF Suc.prems(1)] .
    have ent: "e = io_entries ?o ! (io_current_index ?o mod order_len ?o)"
      using e ok_o by (auto simp: order_current_def order_len_def split: if_splits)
    have step: ?thesis if s: "begin_turn_loop rr n ev1 (advance_turn s) = (res, r')" "resolver_evolves r s"
      "rs_order s = ?o" "\<forall>i\<in>insert (ie_id e) V. sidelined s i" for ev1 s
    proof -
      let ?s = "advance_turn s"
      have oks: "resolver_ok ?s"
        by (rule resolver_evolves_ok [OF engine.trans [OF s(2) advance_evolves] Suc.prems(1)])
      have side: "\<forall>i\<in>insert (ie_id e) V. sidelined ?s i" using s(4) by (simp add: sidelined_def)
      have idx: "(io_current_index (rs_order ?s) + k) mod order_len (rs_order ?s)
          = (io_current_index ?o + Suc k) mod order_len ?o" for k
        using cyclic.pos_adv [OF ok_o] cyclic.size_adv [of ?o] s(3)
        by (simp add: advance_turn_def mod_simps)
      have ents: "io_entries (rs_order ?s) = io_entries ?o" using s(3) by (simp add: advance_turn_def)
      from Suc.IH [OF oks side s(1)] show ?thesis
        unfolding idx ents using ent by (auto simp: less_Suc_eq_0_disj)
    qed
    show ?thesis
    proof (cases "c_withdrawn a")
      case True
      have "begin_turn_loop rr n ev (advance_turn r) = (res, r')"
        using Suc.prems(3) no_bound e a True by simp
      then show ?thesis
        using Suc.prems(2) a True by (intro step [of ev r]) (auto simp: engine.refl sidelined_def)
    next
      case False
      obtain ev1 a1 r1 where td: "turn_death_save rr (ie_id e) a ev r = (ev1, a1, r1)" by (metis prod_cases3)
      note t = turn_death_save_evolves [OF td a]
      show ?thesis
      proof (cases "c_current_hp a1 > 0 \<and> \<not> c_is_dead a1")
        case True
        with Suc.prems(3) no_bound e a False td have
          r': "res = Ok ev1" "r' = upd_actor (ie_id e)
             (\<lambda>x. x\<lparr>c_budget := refresh_for_new_turn (c_budget x) (c_speed_ft x)\<rparr>) r1" by simp_all
        have "turn_ready r'"
          using True t(2,4) e False evolves_fields(8) [OF t(3)]
          by (simp add: turn_ready_def r' refresh_for_new_turn_def fresh_budget_def)
        with r' show ?thesis by simp
      next
        case down: False
        have "begin_turn_loop rr n ev1 (advance_turn r1) = (res, r')"
          using Suc.prems(3) no_bound e a False td down by auto
        then show ?thesis
        proof (rule step [OF _ t(1) t(4)])
          show "\<forall>i\<in>insert (ie_id e) V. sidelined r1 i"
          proof
            fix i assume "i \<in> insert (ie_id e) V"
            then show "sidelined r1 i"
              using t(2,5) down Suc.prems(2) by (cases "i = ie_id e") (auto simp: sidelined_def)
          qed
        qed
      qed
    qed
  qed
qed auto

lemma begin_current_turn_cases:
  assumes ok: "resolver_ok r" and run: "begin_current_turn rr r = (res, r')"
  shows "\<exists>ev. res = Ok ev"
    and "boundary_reached r' \<or> turn_ready r' \<or> (\<forall>e\<in>set (io_entries (rs_order r')). sidelined r' (ie_id e))"
proof -
  let ?o = "rs_order r"
  have run': "begin_turn_loop rr (order_len ?o) no_events r = (res, r')"
    using run by (simp add: begin_current_turn_def)
  have ok_o: "order_ok ?o" using resolver_okD(4) [OF ok] .
  have ents: "io_entries (rs_order r') = io_entries ?o"
    using begin_current_turn_evolves [of r rr] run by (simp add: resolver_evolves_def)
  have all: "\<forall>e\<in>set (io_entries (rs_order r')). sidelined r' (ie_id e)"
    if side: "\<forall>k<order_len ?o. sidelined r' (ie_id (io_entries ?o ! ((io_current_index ?o + k) mod order_len ?o)))"
  proof
    fix e assume "e \<in> set (io_entries (rs_order r'))"
    then obtain i where i: "i < order_len ?o" "e = io_entries ?o ! i"
      unfolding ents order_len_def by (auto simp: in_set_conv_nth)
    obtain k where "k < order_len ?o" "(io_current_index ?o + k) mod order_len ?o = i"
      using cyclic.full_cycle(3) [OF ok_o i(1)] cyclic.pos_steps [OF ok_o] by auto
    with side i show "sidelined r' (ie_id e)" by auto
  qed
  from begin_turn_loop_outcome [OF ok _ run', of "{}"] all
  show "\<exists>ev. res = Ok ev"
    "boundary_reached r' \<or> turn_ready r' \<or> (\<forall>e\<in>set (io_entries (rs_order r')). sidelined r' (ie_id e))"
    by auto
qed

end
