(* ===== verification/Attacks.thy ===== *)
theory Attacks
  imports Resolver_State
begin

text \<open>
  The attack actions of \<^verbatim>\<open>resolver.rs\<close>: \<open>resolve_attack\<close> (validation, one action, the attack
  roll, the damage) and \<open>resolve_weapon_attack\<close>, whose checks on the weapon, the hands, the range and
  the ammunition are the pure function \<open>weapon_check\<close>.
\<close>

section \<open>Spending from the budget\<close>

definition set_budget :: "combatant_id \<Rightarrow> action_budget \<Rightarrow> 'g resolver \<Rightarrow> 'g resolver" where
  "set_budget i b r = upd_actor i (\<lambda>x. x\<lparr>c_budget := b\<rparr>) r"

definition economy_error :: "action_economy_error \<Rightarrow> validation_error" where
  "economy_error e = ActionEconomy (action_economy_display e)"

definition spend_action ::
  "validation_error \<Rightarrow> combatant_id \<Rightarrow> action_kind \<Rightarrow> 'g resolver \<Rightarrow> (validation_error, unit) res \<times> 'g resolver" where
  "spend_action missing i kind r =
     try_state (ok_or (actor_of r i) missing) r (\<lambda>a.
       let (paid, b) = consume_action (c_budget a) kind
       in (map_err economy_error paid, set_budget i b r))"

section \<open>The attack roll and its damage\<close>

definition log_roll :: "string \<Rightarrow> i32 list \<Rightarrow> i32 \<Rightarrow> i32 \<Rightarrow> i32 \<Rightarrow> result_events \<Rightarrow> result_events" where
  "log_roll purpose rolls m tot natural ev = ev\<lparr>ev_rolls := ev_rolls ev @
     [\<lparr>dr_purpose = purpose, dr_detail = \<lparr>rd_rolls = rolls, rd_modifier = m, rd_total = tot\<rparr>,
       dr_natural = natural\<rparr>]\<rparr>"

text \<open>The tail of both hit branches, from \<open>get_mut(&target_id)\<close> on.\<close>

definition strike_target ::
  "combatant_id \<Rightarrow> i32 \<Rightarrow> damage_type \<Rightarrow> bool \<Rightarrow> result_events \<Rightarrow> 'g resolver \<Rightarrow>
   (validation_error, result_events) res \<times> 'g resolver" where
  "strike_target target raw dt critical ev r =
     try_state (unwrap (actor_of r target)) r (\<lambda>t.
       let (effective, t1) = apply_damage_with_critical t raw dt [] critical;
           ev1 = ev\<lparr>ev_damage := ev_damage ev @ [\<lparr>da_target = target, da_raw_amount = raw,
              da_effective_amount = effective, da_damage_type = dt, da_new_hp = c_current_hp t1,
              da_was_critical = critical\<rparr>]\<rparr>;
           t2 = (if is_at_zero_hp t1 \<and> c_character_id t1 = None then t1\<lparr>c_is_dead := True\<rparr> else t1);
           ev2 = (if c_is_dead t2 then ev1\<lparr>ev_deaths := ev_deaths ev1 @ [target]\<rparr> else ev1)
       in (Ok ev2, upd_actor target (\<lambda>_. t2) r))"

text \<open>A hit on an unconscious creature within 5 feet is critical.\<close>

definition upgrade_outcome :: "bool \<Rightarrow> attack_outcome \<Rightarrow> attack_outcome" where
  "upgrade_outcome helpless oc =
     (case oc of Hit natural tot \<Rightarrow> if helpless then CriticalHit natural tot else oc | _ \<Rightarrow> oc)"

definition attack_phase2 ::
  "'g sampler \<Rightarrow> combatant_id \<Rightarrow> combatant_id \<Rightarrow> i32 \<Rightarrow> dice_expr \<Rightarrow> damage_type \<Rightarrow> attack_modifier \<Rightarrow>
   'g resolver \<Rightarrow> (validation_error, result_events) res \<times> 'g resolver" where
  "attack_phase2 rr attacker target m expr dt adv r =
     try_state (unwrap (actor_of r target)) r (\<lambda>t.
     try_state (unwrap (actor_of r attacker)) r (\<lambda>a.
       let ac = c_ac t;
           (rolled, rng1) = roll_attack_detailed rr m ac adv (rs_rng r);
           helpless = (has_condition t Unconscious \<and> distance_ft (c_position a) (c_position t) \<le> 5);
           r1 = r\<lparr>rs_rng := rng1\<rparr>
       in case upgrade_outcome helpless (ar_outcome rolled) of
            CriticalHit natural tot \<Rightarrow>
              let (normal, rng2) = roll_expr_detailed rr expr rng1;
                  (extra, rng3) = roll_expr_detailed rr (expr\<lparr>de_modifier := 0\<rparr>) rng2;
                  raw = max (i32_add (rd_total normal) (i32_sum (rd_rolls extra))) 0;
                  ev = log_roll (''crit attack roll vs AC '' @ show_int ac) (ar_rolls rolled) m tot natural no_events
              in strike_target target raw dt True ev (r1\<lparr>rs_rng := rng3\<rparr>)
          | CriticalMiss natural \<Rightarrow>
              (Ok (log_roll (''critical miss vs AC '' @ show_int ac) (ar_rolls rolled) m
                     (i32_add natural m) natural no_events), r1)
          | Hit natural tot \<Rightarrow>
              let (dmg, rng2) = roll_expr_detailed rr expr rng1;
                  ev = log_roll (''attack roll vs AC '' @ show_int ac) (ar_rolls rolled) m tot natural no_events
              in strike_target target (max (rd_total dmg) 0) dt False ev (r1\<lparr>rs_rng := rng2\<rparr>)
          | Miss natural tot \<Rightarrow>
              (Ok (log_roll (''miss vs AC '' @ show_int ac) (ar_rolls rolled) m tot natural no_events), r1)))"

definition invalid_victim :: "combatant \<Rightarrow> bool" where
  "invalid_victim v \<longleftrightarrow> c_withdrawn v \<or> c_is_dead v \<or> c_current_hp v \<le> 0 \<and> c_character_id v = None"

definition resolve_attack ::
  "'g sampler \<Rightarrow> combatant_id \<Rightarrow> combatant_id \<Rightarrow> i32 \<Rightarrow> dice_expr \<Rightarrow> damage_type \<Rightarrow> attack_modifier \<Rightarrow>
   'g resolver \<Rightarrow> (validation_error, result_events) res \<times> 'g resolver" where
  "resolve_attack rr attacker target m expr dt adv r =
     try_state (unwrap (order_current (rs_order r))) r (\<lambda>e.
     try_state (reject_if (attacker \<noteq> ie_id e) NotYourTurn) r (\<lambda>_.
     try_state (require_conscious r attacker) r (\<lambda>_.
     try_state (reject_if (attacker = target) InvalidTarget) r (\<lambda>_.
     try_state (ok_or (actor_of r target) TargetNotFound) r (\<lambda>v.
     try_state (reject_if (invalid_victim v) InvalidTarget) r (\<lambda>_.
     and_then (spend_action AttackerNotFound attacker Action r) (\<lambda>_ r1.
     attack_phase2 rr attacker target m expr dt adv r1)))))))"

section \<open>Weapon attacks\<close>

definition effective_mode :: "weapon_mode \<Rightarrow> weapon_attack_profile \<Rightarrow> weapon_mode" where
  "effective_mode mode p =
     (if mode = DefaultMode then (if wp_ranged p then Ranged else Melee) else mode)"

definition is_ranged_mode :: "weapon_mode \<Rightarrow> bool" where
  "is_ranged_mode mode \<longleftrightarrow> mode = Ranged \<or> mode = Thrown"

text \<open>An enemy close enough to hinder a ranged attack.\<close>

definition threatens :: "combatant \<Rightarrow> combatant_id \<Rightarrow> combatant \<Rightarrow> bool" where
  "threatens actor attacker enemy \<longleftrightarrow>
     c_id enemy \<noteq> attacker
     \<and> (c_character_id enemy \<noteq> None) \<noteq> (c_character_id actor \<noteq> None)
     \<and> \<not> c_withdrawn enemy \<and> c_current_hp enemy > 0 \<and> \<not> c_is_dead enemy
     \<and> \<not> has_condition enemy Unconscious \<and> \<not> has_condition enemy Blinded
     \<and> distance_ft (c_position actor) (c_position enemy) \<le> 5"

definition attack_mode_of :: "bool \<Rightarrow> bool \<Rightarrow> attack_modifier" where
  "attack_mode_of advantage disadvantage =
     (if advantage \<and> \<not> disadvantage then Advantage
      else if disadvantage \<and> \<not> advantage then Disadvantage else Normal)"

definition weapon_modifier ::
  "'g resolver \<Rightarrow> combatant_id \<Rightarrow> combatant \<Rightarrow> combatant \<Rightarrow> weapon_attack_profile \<Rightarrow> bool \<Rightarrow> attack_modifier" where
  "weapon_modifier r attacker actor victim p ranged =
     (let distance = distance_ft (c_position actor) (c_position victim);
          prone = has_condition victim Prone;
          advantage = (has_condition victim Unconscious \<or> prone \<and> distance \<le> 5);
          disadvantage = (c_untrained_armor actor \<or> wp_heavy_disadvantage p
             \<or> ranged \<and> distance > wp_normal_range_ft p
             \<or> (\<exists>c\<in>c_conditions actor. attacker_condition_modifier c = Disadvantage)
             \<or> prone \<and> \<not> distance \<le> 5
             \<or> ranged \<and> (\<exists>enemy\<in>set (table_values (rs_combatants r)). threatens actor attacker enemy))
      in attack_mode_of advantage disadvantage)"

definition mode_unavailable :: "weapon_mode \<Rightarrow> weapon_attack_profile \<Rightarrow> bool" where
  "mode_unavailable mode p \<longleftrightarrow> mode = Thrown \<and> \<not> wp_thrown p \<or> mode = Ranged \<and> \<not> wp_ranged p
     \<or> mode = Melee \<and> wp_ranged p"

definition owned_count :: "combat_loadout \<Rightarrow> string \<Rightarrow> u32" where
  "owned_count lo i = (case table_get (lo_quantities lo) i of Some q \<Rightarrow> q | None \<Rightarrow> 0)"

text \<open>The checks on the target: the part of \<open>resolve_weapon_attack\<close> before the loadout.\<close>

definition weapon_target_check ::
  "'g resolver \<Rightarrow> combatant_id \<Rightarrow> combatant_id \<Rightarrow> (validation_error, combatant \<times> combatant) res" where
  "weapon_target_check r attacker target =
     bind_res (require_current r attacker) (\<lambda>_.
     bind_res (require_conscious r attacker) (\<lambda>_.
     bind_res (reject_if (attacker = target) InvalidTarget) (\<lambda>_.
     bind_res (ok_or (actor_of r attacker) AttackerNotFound) (\<lambda>actor.
     bind_res (ok_or (actor_of r target) TargetNotFound) (\<lambda>victim.
     bind_res (reject_if (\<not> clear_between r (c_position actor) (c_position victim)) Obstructed) (\<lambda>_.
     bind_res (reject_if (invalid_victim victim
                 \<or> c_character_id actor \<noteq> None \<and> c_character_id victim \<noteq> None) InvalidTarget) (\<lambda>_.
     Ok (actor, victim))))))))"

text \<open>The checks on the weapon, to the profile, the mode and the damage dice used.\<close>

definition weapon_choice_check ::
  "combatant \<Rightarrow> combatant \<Rightarrow> string option \<Rightarrow> weapon_mode \<Rightarrow> bool \<Rightarrow>
   (validation_error, weapon_attack_profile \<times> weapon_mode) res" where
  "weapon_choice_check actor victim weapon_id mode0 two_handed =
     bind_res (ok_or (c_loadout actor) WeaponUnavailable) (\<lambda>lo.
     let i = (case weapon_id of Some w \<Rightarrow> w | None \<Rightarrow> lo_default_weapon lo) in
     bind_res (ok_or (find (\<lambda>p. wp_weapon_id p = i) (lo_attacks lo)) WeaponUnavailable) (\<lambda>p.
     bind_res (reject_if (i \<noteq> ''unarmed'' \<and> owned_count lo i = 0) WeaponUnavailable) (\<lambda>_.
     let mode = effective_mode mode0 p; ranged = is_ranged_mode mode in
     bind_res (reject_if (ranged \<and> two_handed) WeaponUnavailable) (\<lambda>_.
     bind_res (reject_if (mode_unavailable mode p) WeaponUnavailable) (\<lambda>_.
     bind_res (reject_if (lo_shield lo \<and> (wp_two_handed p \<or> two_handed)) HandsOccupied) (\<lambda>_.
     let distance = distance_ft (c_position actor) (c_position victim);
         maximum = (if ranged then wp_long_range_ft p else wp_reach_ft p) in
     bind_res (reject_if (maximum \<le> 0 \<or> distance > maximum) OutOfRange) (\<lambda>_.
     bind_res (reject_if (wp_ammunition p \<and> lo_arrows lo = 0) AmmunitionExhausted) (\<lambda>_.
     Ok (p, mode)))))))))"

text \<open>What a resolved weapon attack takes from the loadout.\<close>

definition spend_weapon :: "weapon_attack_profile \<Rightarrow> weapon_mode \<Rightarrow> combat_loadout \<Rightarrow> combat_loadout" where
  "spend_weapon p mode lo =
     (let lo1 = (if wp_ammunition p then lo\<lparr>lo_arrows := unsigned_sub 32 (lo_arrows lo) 1\<rparr> else lo);
          lo2 = (if mode = Thrown
                 then lo1\<lparr>lo_quantities := table_modify (wp_weapon_id p) (\<lambda>q. unsigned_sub 32 q 1) (lo_quantities lo1)\<rparr>
                 else lo1)
      in lo2\<lparr>lo_default_weapon := wp_weapon_id p\<rparr>)"

definition resolve_weapon_attack ::
  "'g sampler \<Rightarrow> combatant_id \<Rightarrow> combatant_id \<Rightarrow> string option \<Rightarrow> weapon_mode \<Rightarrow> bool \<Rightarrow>
   'g resolver \<Rightarrow> (validation_error, result_events) res \<times> 'g resolver" where
  "resolve_weapon_attack rr attacker target weapon_id mode0 two_handed r =
     try_state (weapon_target_check r attacker target) r (\<lambda>(actor, victim).
     try_state (weapon_choice_check actor victim weapon_id mode0 two_handed) r (\<lambda>(p, mode).
     let m = weapon_modifier r attacker actor victim p (is_ranged_mode mode) in
     try_state (if two_handed then ok_or (wp_versatile_damage p) WeaponUnavailable else Ok (wp_damage p)) r (\<lambda>damage.
     and_then (resolve_attack rr attacker target (wp_attack_bonus p) damage (wp_damage_type p) m r) (\<lambda>ev r1.
     try_state (ok_or (actor_of r1 attacker) AttackerNotFound) r1 (\<lambda>a.
     try_state (ok_or (c_loadout a) WeaponUnavailable) r1 (\<lambda>lo.
     (Ok ev, upd_actor attacker (\<lambda>x. x\<lparr>c_loadout := Some (spend_weapon p mode lo)\<rparr>) r1)))))))"

section \<open>Spending\<close>

lemma set_budget_evolves: "resolver_evolves r (set_budget i b r)"
  unfolding set_budget_def by (rule upd_actor_evolves) (rule budget_evolves)

lemma set_budget_fields [simp]:
  "rs_order (set_budget i b r) = rs_order r" "rs_rng (set_budget i b r) = rs_rng r"
  "rs_map (set_budget i b r) = rs_map r"
  "actor_of (set_budget i b r) j =
     (if j = i then map_option (\<lambda>x. x\<lparr>c_budget := b\<rparr>) (actor_of r j) else actor_of r j)"
  by (simp_all add: set_budget_def)

lemma upd_actor_same:
  assumes "table_ok (rs_combatants r)" "\<And>a. actor_of r i = Some a \<Longrightarrow> f a = a"
  shows "upd_actor i f r = r"
proof -
  have "table_modify i f (rs_combatants r) = rs_combatants r"
    unfolding table_modify_def
    by (rule map_idI) (use assms table_get_mem [OF assms(1)] in \<open>auto simp: actor_of_def\<close>)
  then show ?thesis by (simp add: upd_actor_def)
qed

lemma consume_action_cases:
  obtains (paid) "consume_action b Action = (Ok (), b\<lparr>ab_action := False\<rparr>)" "ab_action b"
  | (used) "consume_action b Action = (Err AeActionExhausted, b)" "\<not> ab_action b"
  by (cases "ab_action b") auto

lemma spend_action_Ok:
  assumes "spend_action e i Action r = (Ok u, s)"
  obtains a where "actor_of r i = Some a" "ab_action (c_budget a)"
    "s = set_budget i ((c_budget a)\<lparr>ab_action := False\<rparr>) r"
  using assms by (auto simp: spend_action_def Let_def map_err_def try_state_def split: option.splits res.splits if_splits)

lemma spend_action_Err:
  assumes "table_ok (rs_combatants r)" "spend_action e i k r = (Err x, s)"
  shows "s = r"
proof (cases "actor_of r i")
  case None
  then show ?thesis using assms(2) by (simp add: spend_action_def)
next
  case (Some a)
  have "snd (consume_action (c_budget a) k) = c_budget a" if "fst (consume_action (c_budget a) k) = Err y" for y
    using that by (cases k) (auto simp: consume_movement_ft_def split: if_splits)
  then have "s = set_budget i (c_budget a) r"
    using assms(2) Some by (auto simp: spend_action_def split: prod.splits)
  also have "\<dots> = r"
    unfolding set_budget_def by (rule upd_actor_same [OF assms(1)]) (use Some in simp)
  finally show ?thesis .
qed

lemma spend_action_no_panic: "fst (spend_action e i k r) \<noteq> Panic"
  by (cases k; auto simp: spend_action_def consume_movement_ft_def Let_def try_state_def map_err_def
      split: option.splits res.splits prod.splits if_splits)

lemma spend_action_evolves: "resolver_evolves r (snd (spend_action e i k r))"
  unfolding spend_action_def
  by (rule engine.after_try) (simp add: set_budget_evolves split: prod.splits)

section \<open>Striking a target\<close>

text \<open>A participant whose death at zero hit points is settled.\<close>

definition strikeable :: "combatant \<Rightarrow> bool" where
  "strikeable a \<longleftrightarrow> c_character_id a \<noteq> None \<or> c_current_hp a > 0 \<or> c_is_dead a"

lemma damage_zero_unstable:
  assumes "vitals_ok t" "c_current_hp t > 0" "in_i32 raw"
    and "apply_damage_with_critical t raw dt [] critical = (eff, t1)" "c_current_hp t1 = 0"
  shows "\<not> sv_stable (c_death_saves t1)"
proof -
  have live: "\<not> c_is_dead t" using assms(1,2) vitals_saves(4) by fastforce
  have r: "apply_raw_damage_with_critical t (max raw 0) critical = (eff, t1)"
    using assms(4) by (simp add: apply_damage_with_critical_def compute_effective_damage_def
        get_resistance_def table_get_def)
  show ?thesis
  proof (cases "0 < raw")
    case True
    have "c_death_saves t1 = new_death_saves"
      using damage_result(5) [OF assms(1) live _ _ r] True assms(2,3,5) by simp
    then show ?thesis by (simp add: new_death_saves_def)
  next
    case False
    then have "t1 = t" using r by (simp add: apply_raw_damage_with_critical_def Let_def)
    with assms(2,5) show ?thesis by simp
  qed
qed

text \<open>The state of a struck creature, and what a strike logs.\<close>

definition struck :: "combatant_id \<Rightarrow> combatant \<Rightarrow> combatant \<Rightarrow> result_events \<Rightarrow> result_events \<Rightarrow> bool" where
  "struck target t t' ev ev' \<longleftrightarrow>
     combatant_evolves t t' \<and> strikeable t'
     \<and> c_budget t' = c_budget t \<and> c_position t' = c_position t \<and> c_loadout t' = c_loadout t
     \<and> c_casting t' = c_casting t
     \<and> ev_rolls ev' = ev_rolls ev
     \<and> (\<exists>d. ev_damage ev' = ev_damage ev @ [d] \<and> da_target d = target
          \<and> da_new_hp d = c_current_hp t'
          \<and> (vitals_ok t \<longrightarrow> da_effective_amount d = c_current_hp t - c_current_hp t')
          \<and> 0 \<le> da_raw_amount d)"

lemma raw_damage_amount:
  assumes "vitals_ok t" "in_i32 raw" "apply_damage_with_critical t raw dt [] critical = (eff, t1)"
  shows "eff = c_current_hp t - c_current_hp t1"
proof -
  have r: "apply_raw_damage_with_critical t (max raw 0) critical = (eff, t1)"
    using assms(3) by (simp add: apply_damage_with_critical_def compute_effective_damage_def
        get_resistance_def table_get_def)
  have i: "in_i32 (max raw 0)" using assms(2) by (auto simp: in_i32_def)
  show ?thesis
  proof (cases "0 < raw \<and> \<not> c_is_dead t")
    case True
    then show ?thesis using damage_result(3) [OF assms(1) _ _ i r] by simp
  next
    case False
    then have "t1 = t \<and> eff = 0" using r by (auto simp: apply_raw_damage_with_critical_def Let_def split: if_splits)
    then show ?thesis by simp
  qed
qed

lemma damage_fields:
  assumes "apply_damage_with_critical t raw dt [] critical = (eff, t1)"
  shows "c_budget t1 = c_budget t" "c_position t1 = c_position t" "c_loadout t1 = c_loadout t"
    "c_casting t1 = c_casting t" "same_identity t t1"
proof -
  have r: "apply_raw_damage_with_critical t (max raw 0) critical = (eff, t1)"
    using assms by (simp add: apply_damage_with_critical_def compute_effective_damage_def
        get_resistance_def table_get_def)
  show "c_budget t1 = c_budget t" "c_position t1 = c_position t" "c_loadout t1 = c_loadout t"
    "c_casting t1 = c_casting t" "same_identity t t1" using damage_frame [OF r] by simp_all
qed

lemma finish_evolves:
  assumes ev: "combatant_evolves t t1" and "\<And>x. vitals_ok t \<Longrightarrow> c_current_hp t1 = 0 \<Longrightarrow> c_character_id t1 = None
      \<Longrightarrow> c_is_dead t1 \<or> \<not> sv_stable (c_death_saves t1)"
    and "c_current_hp t1 = 0" "c_character_id t1 = None"
  shows "combatant_evolves t (t1\<lparr>c_is_dead := True\<rparr>)"
proof (cases "vitals_ok t")
  case True
  then have ok: "vitals_ok t1" using ev by (simp add: combatant_evolves_def)
  have "combatant_evolves t1 (t1\<lparr>c_is_dead := True\<rparr>)"
  proof (rule kill_evolves)
    show "\<not> sv_stable (c_death_saves t1)"
      using assms(2) [OF True] assms(3,4) vitals_saves(5) [OF ok] by blast
  qed (use assms(3) in simp)
  with ev show ?thesis by (rule roster.trans)
next
  case False
  then show ?thesis using ev by (simp add: evolves_defs)
qed

lemma strike_target_spec:
  assumes t: "actor_of r target = Some t" and st: "strikeable t" and raw: "in_i32 raw" "0 \<le> raw"
    and run: "strike_target target raw dt critical ev r = (res, s)"
  obtains t' ev' where "res = Ok ev'" "s = upd_actor target (\<lambda>_. t') r" "struck target t t' ev ev'"
    "ev_deaths ev' = ev_deaths ev @ (if c_is_dead t' then [target] else [])"
    "\<exists>d. ev_damage ev' = ev_damage ev @ [d] \<and> da_was_critical d = critical \<and> da_raw_amount d = raw \<and> da_damage_type d = dt"
    "\<exists>eff t1. apply_damage_with_critical t raw dt [] critical = (eff, t1)
       \<and> t' = (if is_at_zero_hp t1 \<and> c_character_id t1 = None then t1\<lparr>c_is_dead := True\<rparr> else t1)"
proof -
  obtain eff t1 where d: "apply_damage_with_critical t raw dt [] critical = (eff, t1)" by fastforce
  define t' where "t' = (if is_at_zero_hp t1 \<and> c_character_id t1 = None then t1\<lparr>c_is_dead := True\<rparr> else t1)"
  have ev1: "combatant_evolves t t1" using apply_damage_evolves [OF raw(1), of t dt critical] d by simp
  have id: "c_character_id t1 = c_character_id t" using evolves_fields(2) [OF ev1] .
  have ev2: "combatant_evolves t t'"
  proof (cases "c_current_hp t1 = 0 \<and> c_character_id t1 = None")
    case True
    have "combatant_evolves t (t1\<lparr>c_is_dead := True\<rparr>)"
    proof (rule finish_evolves [OF ev1])
      assume ok: "vitals_ok t"
      show "c_is_dead t1 \<or> \<not> sv_stable (c_death_saves t1)"
      proof (cases "c_is_dead t")
        case True
        with ok ev1 show ?thesis by (simp add: combatant_evolves_def)
      next
        case False
        then have "c_current_hp t > 0" using st True id by (auto simp: strikeable_def)
        then show ?thesis using damage_zero_unstable [OF ok _ raw(1) d] True by blast
      qed
    qed (use True in auto)
    with True show ?thesis by (simp add: t'_def is_at_zero_hp_def)
  qed (use ev1 in \<open>auto simp: t'_def is_at_zero_hp_def\<close>)
  have fields: "c_budget t' = c_budget t" "c_position t' = c_position t" "c_loadout t' = c_loadout t"
    "c_casting t' = c_casting t" "c_current_hp t' = c_current_hp t1"
    using damage_fields [OF d] by (simp_all add: t'_def)
  have st': "strikeable t'"
  proof -
    have "c_character_id t' = c_character_id t" using evolves_fields(2) [OF ev2] .
    moreover have "c_is_dead t' \<or> 0 < c_current_hp t1" if "c_character_id t = None"
    proof (cases "c_current_hp t1 = 0")
      case True
      with that id show ?thesis by (simp add: t'_def is_at_zero_hp_def)
    next
      case False
      have "0 \<le> c_current_hp t1 \<or> t1 = t"
        using d by (auto simp: apply_damage_with_critical_def compute_effective_damage_def get_resistance_def
            table_get_def apply_raw_damage_with_critical_def Let_def wound_frames split: if_splits)
      with False st that show ?thesis
        using id by (auto simp: strikeable_def t'_def is_at_zero_hp_def)
    qed
    ultimately show ?thesis using fields(5) by (auto simp: strikeable_def)
  qed
  have amt: "eff = c_current_hp t - c_current_hp t'" if "vitals_ok t"
    using raw_damage_amount [OF that raw(1) d] fields(5) by simp
  define ev' where "ev' = ev\<lparr>ev_damage := ev_damage ev @ [\<lparr>da_target = target, da_raw_amount = raw,
      da_effective_amount = eff, da_damage_type = dt, da_new_hp = c_current_hp t1, da_was_critical = critical\<rparr>],
      ev_deaths := ev_deaths ev @ (if c_is_dead t' then [target] else [])\<rparr>"
  have res: "res = Ok ev'" and s: "s = upd_actor target (\<lambda>_. t') r"
    using run t d by (auto simp: strike_target_def Let_def ev'_def t'_def split: if_splits)
  show ?thesis
    by (rule that [OF res s])
      (use ev2 st' fields amt raw(2) d in \<open>auto simp: struck_def ev'_def t'_def\<close>)
qed

section \<open>The second phase\<close>

lemma log_roll_fields [simp]:
  "ev_damage (log_roll p rolls m n t ev) = ev_damage ev" "ev_deaths (log_roll p rolls m n t ev) = ev_deaths ev"
  by (simp_all add: log_roll_def)

lemma no_events_fields [simp]:
  "ev_damage no_events = []" "ev_deaths no_events = []" "ev_rolls no_events = []" "ev_healing no_events = []"
  "ev_spell_slots_consumed no_events = []" "ev_movement no_events = []" "ev_death_saves no_events = []"
  by (simp_all add: no_events_def)

text \<open>
  What an attack does to its target \<open>t\<close>: with natural die \<open>k\<close>, a hit exactly when the die is 20 or
  the total reaches the armor class without being a natural 1; a critical hit on a 20 or, on a hit,
  against a helpless target.
\<close>

definition attack_verdict ::
  "combatant_id \<Rightarrow> combatant \<Rightarrow> combatant \<Rightarrow> combatant \<Rightarrow> i32 \<Rightarrow> attack_modifier \<Rightarrow> result_events \<Rightarrow> bool" where
  "attack_verdict target a t t' m adv ev \<longleftrightarrow>
     (\<exists>roll k. ev_rolls ev = [roll] \<and> dr_natural roll = k \<and> k = kept_die adv (rd_rolls (dr_detail roll))
        \<and> 1 \<le> k \<and> k \<le> 20
        \<and> rd_modifier (dr_detail roll) = m \<and> rd_total (dr_detail roll) = i32_add k m
        \<and> (let hits = (k = 20 \<or> k \<noteq> 1 \<and> c_ac t \<le> i32_add k m);
               helpless = (has_condition t Unconscious \<and> distance_ft (c_position a) (c_position t) \<le> 5)
           in if hits
              then (\<exists>d. ev_damage ev = [d] \<and> da_target d = target \<and> da_was_critical d = (k = 20 \<or> helpless)
                      \<and> 0 \<le> da_raw_amount d \<and> da_new_hp d = c_current_hp t'
                      \<and> (vitals_ok t \<longrightarrow> da_effective_amount d = c_current_hp t - c_current_hp t'))
                   \<and> ev_deaths ev = (if c_is_dead t' then [target] else [])
              else ev_damage ev = [] \<and> ev_deaths ev = [] \<and> t' = t))"

lemma attack_phase2_spec:
  assumes rr: "sampler_ok rr" and t: "actor_of r target = Some t" and a: "actor_of r attacker = Some a"
    and st: "strikeable t"
    and run: "attack_phase2 rr attacker target m expr dt adv r = (res, s)"
  obtains ev t' g where "res = Ok ev" "actor_of s target = Some t'" "combatant_evolves t t'" "strikeable t'"
    "c_budget t' = c_budget t" "c_position t' = c_position t" "c_loadout t' = c_loadout t" "c_casting t' = c_casting t"
    "attack_verdict target a t t' m adv ev" "resolver_evolves r s" "rs_order s = rs_order r"
    "\<And>j. j \<noteq> target \<Longrightarrow> actor_of s j = actor_of r j"
proof -
  obtain rolled rng1 where rolled: "roll_attack_detailed rr m (c_ac t) adv (rs_rng r) = (rolled, rng1)" by fastforce
  obtain k where k: "k = kept_die adv (ar_rolls rolled)" "1 \<le> k" "k \<le> 20"
    "ar_outcome rolled = (if k = 20 then CriticalHit 20 (i32_add 20 m)
       else if k = 1 then CriticalMiss 1
       else if i32_add k m \<ge> c_ac t then Hit k (i32_add k m) else Miss k (i32_add k m))"
    by (rule roll_attack_detailed_kept [OF rr rolled]) blast
  define helpless where "helpless \<longleftrightarrow> has_condition t Unconscious \<and> distance_ft (c_position a) (c_position t) \<le> 5"
  define hits where "hits \<longleftrightarrow> k = 20 \<or> k \<noteq> 1 \<and> c_ac t \<le> i32_add k m"
  show ?thesis
  proof (cases hits)
    case False
    obtain purpose tot where ev: "res = Ok (log_roll purpose (ar_rolls rolled) m (i32_add k m) k no_events)"
      and s: "s = r\<lparr>rs_rng := rng1\<rparr>"
    proof (cases "k = 1")
      case True
      then have "upgrade_outcome helpless (ar_outcome rolled) = CriticalMiss 1"
        using k(4) by (simp add: upgrade_outcome_def)
      with run t a rolled True show ?thesis
        by (intro that [of "''critical miss vs AC '' @ show_int (c_ac t)"]) (simp_all add: attack_phase2_def helpless_def)
    next
      case k1: False
      with False have "upgrade_outcome helpless (ar_outcome rolled) = Miss k (i32_add k m)"
        using k(4) by (auto simp: upgrade_outcome_def hits_def)
      with run t a rolled show ?thesis
        by (intro that [of "''miss vs AC '' @ show_int (c_ac t)"]) (simp_all add: attack_phase2_def helpless_def)
    qed
    show ?thesis
    proof (rule that [OF ev])
      show "actor_of s target = Some t" using t s by simp
      show "attack_verdict target a t t m adv (log_roll purpose (ar_rolls rolled) m (i32_add k m) k no_events)"
        using False k by (simp add: attack_verdict_def log_roll_def hits_def Let_def)
    qed (use st s rng_evolves in \<open>simp_all add: roster.refl\<close>)
  next
    case True
    obtain purpose raw g where raw: "in_i32 raw" "0 \<le> raw" and strike: "strike_target target raw dt (k = 20 \<or> helpless)
        (log_roll purpose (ar_rolls rolled) m (i32_add k m) k no_events) (r\<lparr>rs_rng := g\<rparr>) = (res, s)"
    proof (cases "k = 20 \<or> helpless")
      case crit: True
      obtain normal rng2 where n: "roll_expr_detailed rr expr rng1 = (normal, rng2)" by fastforce
      obtain extra rng3 where x: "roll_expr_detailed rr (expr\<lparr>de_modifier := 0\<rparr>) rng2 = (extra, rng3)" by fastforce
      have "upgrade_outcome helpless (ar_outcome rolled) = CriticalHit k (i32_add k m)"
        using k True crit by (auto simp: upgrade_outcome_def hits_def)
      with run t a rolled n x crit show ?thesis
        by (intro that [of "max (i32_add (rd_total normal) (i32_sum (rd_rolls extra))) 0"
              "''crit attack roll vs AC '' @ show_int (c_ac t)" rng3])
          (auto simp: attack_phase2_def helpless_def i32_add_def in_i32_def wrap32_range max_def)
    next
      case crit: False
      obtain dmg rng2 where n: "roll_expr_detailed rr expr rng1 = (dmg, rng2)" by fastforce
      have "upgrade_outcome helpless (ar_outcome rolled) = Hit k (i32_add k m)"
        using k True crit by (auto simp: upgrade_outcome_def hits_def)
      with run t a rolled n crit roll_expr_detailed_in_i32 [OF n] show ?thesis
        by (intro that [of "max (rd_total dmg) 0" "''attack roll vs AC '' @ show_int (c_ac t)" rng2])
          (auto simp: attack_phase2_def helpless_def in_i32_def max_def)
    qed
    let ?r = "r\<lparr>rs_rng := g\<rparr>" and ?ev = "log_roll purpose (ar_rolls rolled) m (i32_add k m) k no_events"
    have t': "actor_of ?r target = Some t" using t by simp
    from strike_target_spec [OF t' st raw strike] obtain t2 ev' where
      r: "res = Ok ev'" "s = upd_actor target (\<lambda>_. t2) ?r" "struck target t t2 ?ev ev'"
      "ev_deaths ev' = ev_deaths ?ev @ (if c_is_dead t2 then [target] else [])"
      "\<exists>d. ev_damage ev' = ev_damage ?ev @ [d] \<and> da_was_critical d = (k = 20 \<or> helpless) \<and> da_raw_amount d = raw
         \<and> da_damage_type d = dt" by metis
    have evo: "combatant_evolves t t2" using r(3) by (simp add: struck_def)
    show ?thesis
    proof (rule that [OF r(1)])
      show "actor_of s target = Some t2" using t r(2) by simp
      show "attack_verdict target a t t2 m adv ev'"
        using True k r(3,4,5) unfolding attack_verdict_def struck_def hits_def helpless_def Let_def
        by (auto simp: log_roll_def)
      show "resolver_evolves r s"
        unfolding r(2) by (rule engine.trans [OF rng_evolves upd_actor_evolves]) (use t evo in simp)
    qed (use r(2,3) in \<open>simp_all add: struck_def\<close>)
  qed
qed

section \<open>Attacks\<close>

definition attack_effect ::
  "combatant_id \<Rightarrow> combatant_id \<Rightarrow> i32 \<Rightarrow> attack_modifier \<Rightarrow> 'g resolver \<Rightarrow> 'g resolver \<Rightarrow> result_events \<Rightarrow> bool" where
  "attack_effect attacker target m adv r s ev \<longleftrightarrow>
     attacker \<noteq> target \<and> rs_order s = rs_order r
     \<and> (\<exists>e. order_current (rs_order r) = Some e \<and> ie_id e = attacker)
     \<and> (\<exists>a t t'. actor_of r attacker = Some a \<and> can_act a \<and> ab_action (c_budget a)
          \<and> actor_of s attacker = Some (a\<lparr>c_budget := (c_budget a)\<lparr>ab_action := False\<rparr>\<rparr>)
          \<and> actor_of r target = Some t \<and> \<not> invalid_victim t \<and> actor_of s target = Some t'
          \<and> combatant_evolves t t' \<and> c_budget t' = c_budget t \<and> c_position t' = c_position t
          \<and> c_loadout t' = c_loadout t \<and> c_casting t' = c_casting t
          \<and> attack_verdict target a t t' m adv ev)
     \<and> (\<forall>j. j \<noteq> attacker \<longrightarrow> j \<noteq> target \<longrightarrow> actor_of s j = actor_of r j)"

lemma valid_victim_strikeable: "\<not> invalid_victim v \<Longrightarrow> strikeable v"
  by (auto simp: invalid_victim_def strikeable_def)

lemma resolve_attack_cases:
  assumes rr: "sampler_ok rr" and ok: "resolver_ok r"
    and run: "resolve_attack rr attacker target m expr dt adv r = (res, s)"
  shows "res \<noteq> Panic" "res = Err x \<Longrightarrow> s = r" "res = Ok ev \<Longrightarrow> attack_effect attacker target m adv r s ev"
    "resolver_evolves r s"
proof -
  obtain e where e: "order_current (rs_order r) = Some e" using current_actor [OF ok] by metis
  consider (bad) y where "res = Err y" "s = r"
    | (good) a t where "attacker = ie_id e" "actor_of r attacker = Some a" "can_act a" "attacker \<noteq> target"
        "actor_of r target = Some t" "\<not> invalid_victim t" "ab_action (c_budget a)"
        "attack_phase2 rr attacker target m expr dt adv
           (set_budget attacker ((c_budget a)\<lparr>ab_action := False\<rparr>) r) = (res, s)"
  proof -
    show ?thesis
    proof (cases "attacker = ie_id e \<and> (\<exists>a. actor_of r attacker = Some a \<and> can_act a) \<and> attacker \<noteq> target
        \<and> (\<exists>t. actor_of r target = Some t \<and> \<not> invalid_victim t)")
      case False
      have nop: "require_conscious r attacker \<noteq> Panic" by (rule require_no_panic)
      have "\<exists>x. res = Err x \<and> s = r"
        using run False nop e require_conscious_Ok [of r attacker "()"]
        by (cases "require_conscious r attacker"; cases "actor_of r target")
          (auto simp: resolve_attack_def reject_if_def split: if_splits)
      then show ?thesis using that(1) by blast
    next
      case True
      then obtain a t where at: "attacker = ie_id e" "actor_of r attacker = Some a" "can_act a"
        "attacker \<noteq> target" "actor_of r target = Some t" "\<not> invalid_victim t" by blast
      have rc: "require_conscious r attacker = Ok ()" using at require_conscious_Ok by blast
      show ?thesis
      proof (rule consume_action_cases [of "c_budget a"])
        assume p: "consume_action (c_budget a) Action = (Ok (), (c_budget a)\<lparr>ab_action := False\<rparr>)" "ab_action (c_budget a)"
        show ?thesis by (rule that(2) [of a t])
            (use at p rc run e in \<open>simp_all add: resolve_attack_def spend_action_def reject_if_def\<close>)
      next
        assume p: "consume_action (c_budget a) Action = (Err AeActionExhausted, c_budget a)"
        have same: "set_budget attacker (c_budget a) r = r"
          unfolding set_budget_def by (rule upd_actor_same [OF resolver_okD(1) [OF ok]]) (use at in simp)
        show ?thesis by (rule that(1) [of "economy_error AeActionExhausted"])
            (use at p rc run e same in \<open>simp_all add: resolve_attack_def spend_action_def reject_if_def\<close>)
      qed
    qed
  qed
  then have main: "res \<noteq> Panic \<and> (\<forall>x. res = Err x \<longrightarrow> s = r) \<and> resolver_evolves r s
    \<and> (\<forall>ev. res = Ok ev \<longrightarrow> attack_effect attacker target m adv r s ev)"
  proof cases
    case bad
    then show ?thesis by (simp add: engine.refl)
  next
    case good
    let ?a = "a\<lparr>c_budget := (c_budget a)\<lparr>ab_action := False\<rparr>\<rparr>"
    let ?r = "set_budget attacker ((c_budget a)\<lparr>ab_action := False\<rparr>) r"
    have at: "actor_of ?r target = Some t" "actor_of ?r attacker = Some ?a" using good by simp_all
    from attack_phase2_spec [OF rr at valid_victim_strikeable [OF good(6)] good(8)]
    obtain ev0 t' where p: "res = Ok ev0" "actor_of s target = Some t'" "combatant_evolves t t'" "strikeable t'"
      "c_budget t' = c_budget t" "c_position t' = c_position t" "c_loadout t' = c_loadout t" "c_casting t' = c_casting t"
      "attack_verdict target ?a t t' m adv ev0" "resolver_evolves ?r s" "rs_order s = rs_order ?r"
      "\<And>j. j \<noteq> target \<Longrightarrow> actor_of s j = actor_of ?r j" by metis
    have "attack_verdict target a t t' m adv ev0" using p(9) by (simp add: attack_verdict_def)
    then have "attack_effect attacker target m adv r s ev0"
      using good(1-7) p(2-8,11,12) e unfolding attack_effect_def by auto
    then show ?thesis using p(1) engine.trans [OF set_budget_evolves p(10)] by simp
  qed
  then show "res \<noteq> Panic" "res = Err x \<Longrightarrow> s = r"
    "res = Ok ev \<Longrightarrow> attack_effect attacker target m adv r s ev" "resolver_evolves r s" by simp_all
qed

section \<open>Weapon attacks\<close>

lemma weapon_target_check_Ok:
  "weapon_target_check r attacker target = Ok (a, v) \<longleftrightarrow>
     require_current r attacker = Ok () \<and> actor_of r attacker = Some a \<and> can_act a \<and> attacker \<noteq> target
     \<and> actor_of r target = Some v \<and> clear_between r (c_position a) (c_position v) \<and> \<not> invalid_victim v
     \<and> \<not> (c_character_id a \<noteq> None \<and> c_character_id v \<noteq> None)"
  by (auto simp: weapon_target_check_def bind_res_Ok require_conscious_Ok)

lemma weapon_target_check_no_panic: "resolver_ok r \<Longrightarrow> weapon_target_check r attacker target \<noteq> Panic"
  by (auto simp: weapon_target_check_def bind_res_Panic require_no_panic)

text \<open>What the checks on the weapon establish of the profile \<open>p\<close> and mode used.\<close>

definition weapon_legal :: "combatant \<Rightarrow> combatant \<Rightarrow> combat_loadout \<Rightarrow> weapon_attack_profile \<Rightarrow> weapon_mode \<Rightarrow> bool \<Rightarrow> bool" where
  "weapon_legal a v lo p mode two_handed \<longleftrightarrow>
     p \<in> set (lo_attacks lo) \<and> (wp_weapon_id p \<noteq> ''unarmed'' \<longrightarrow> 0 < owned_count lo (wp_weapon_id p))
     \<and> mode \<noteq> DefaultMode \<and> \<not> mode_unavailable mode p
     \<and> \<not> (is_ranged_mode mode \<and> two_handed)
     \<and> (lo_shield lo \<longrightarrow> \<not> two_handed \<and> \<not> wp_two_handed p)
     \<and> distance_ft (c_position a) (c_position v) \<le> (if is_ranged_mode mode then wp_long_range_ft p else wp_reach_ft p)
     \<and> (wp_ammunition p \<longrightarrow> 0 < lo_arrows lo)"

lemma weapon_choice_check_Ok:
  assumes "weapon_choice_check a v weapon_id mode0 two_handed = Ok (p, mode)"
  obtains lo where "c_loadout a = Some lo" "weapon_legal a v lo p mode two_handed"
    "mode = effective_mode mode0 p"
    "wp_weapon_id p = (case weapon_id of Some w \<Rightarrow> w | None \<Rightarrow> lo_default_weapon lo)"
proof -
  from assms obtain lo where lo: "c_loadout a = Some lo" by (auto simp: weapon_choice_check_def bind_res_Ok)
  let ?i = "case weapon_id of Some w \<Rightarrow> w | None \<Rightarrow> lo_default_weapon lo"
  from assms lo have p: "find (\<lambda>p. wp_weapon_id p = ?i) (lo_attacks lo) = Some p" and m: "mode = effective_mode mode0 p"
    and c: "\<not> (?i \<noteq> ''unarmed'' \<and> owned_count lo ?i = 0)" "\<not> (is_ranged_mode mode \<and> two_handed)"
      "\<not> mode_unavailable mode p" "\<not> (lo_shield lo \<and> (wp_two_handed p \<or> two_handed))"
      "\<not> ((if is_ranged_mode mode then wp_long_range_ft p else wp_reach_ft p) \<le> 0
          \<or> distance_ft (c_position a) (c_position v) > (if is_ranged_mode mode then wp_long_range_ft p else wp_reach_ft p))"
      "\<not> (wp_ammunition p \<and> lo_arrows lo = 0)"
    unfolding weapon_choice_check_def by (auto simp: bind_res_Ok Let_def)
  have f: "p \<in> set (lo_attacks lo)" "wp_weapon_id p = ?i" using p by (auto simp: find_Some_iff)
  have d: "mode \<noteq> DefaultMode" using m by (simp add: effective_mode_def split: if_splits)
  show ?thesis
    by (rule that [OF lo _ m f(2)]) (use f c d in \<open>auto simp: weapon_legal_def\<close>)
qed

lemma weapon_choice_check_no_panic: "weapon_choice_check a v weapon_id mode0 two_handed \<noteq> Panic"
  by (auto simp: weapon_choice_check_def bind_res_Panic Let_def)

definition weapon_effect ::
  "combatant_id \<Rightarrow> combatant_id \<Rightarrow> string option \<Rightarrow> weapon_mode \<Rightarrow> bool \<Rightarrow> 'g resolver \<Rightarrow> 'g resolver \<Rightarrow> result_events \<Rightarrow> bool" where
  "weapon_effect attacker target weapon_id mode0 two_handed r s ev \<longleftrightarrow>
     (\<exists>a v lo p mode r1.
        weapon_target_check r attacker target = Ok (a, v)
        \<and> c_loadout a = Some lo \<and> weapon_legal a v lo p mode two_handed
        \<and> wp_weapon_id p = (case weapon_id of Some w \<Rightarrow> w | None \<Rightarrow> lo_default_weapon lo)
        \<and> mode = effective_mode mode0 p
        \<and> attack_effect attacker target (wp_attack_bonus p) (weapon_modifier r attacker a v p (is_ranged_mode mode)) r r1 ev
        \<and> s = upd_actor attacker (\<lambda>x. x\<lparr>c_loadout := Some (spend_weapon p mode lo)\<rparr>) r1)"

lemma spend_weapon_fields [simp]:
  "lo_attacks (spend_weapon p mode lo) = lo_attacks lo" "lo_shield (spend_weapon p mode lo) = lo_shield lo"
  "lo_default_weapon (spend_weapon p mode lo) = wp_weapon_id p"
  "lo_arrows (spend_weapon p mode lo) = (if wp_ammunition p then unsigned_sub 32 (lo_arrows lo) 1 else lo_arrows lo)"
  by (simp_all add: spend_weapon_def Let_def)

lemma attack_effect_attacker:
  "attack_effect attacker target m adv r s ev \<Longrightarrow> actor_of r attacker = Some a \<Longrightarrow>
     actor_of s attacker = Some (a\<lparr>c_budget := (c_budget a)\<lparr>ab_action := False\<rparr>\<rparr>)"
  by (auto simp: attack_effect_def)

lemma resolve_weapon_attack_cases:
  assumes rr: "sampler_ok rr" and ok: "resolver_ok r"
    and run: "resolve_weapon_attack rr attacker target weapon_id mode0 two_handed r = (res, s)"
  shows "res \<noteq> Panic" "res = Err x \<Longrightarrow> s = r"
    "res = Ok ev \<Longrightarrow> weapon_effect attacker target weapon_id mode0 two_handed r s ev" "resolver_evolves r s"
proof -
  have main: "res \<noteq> Panic \<and> (\<forall>x. res = Err x \<longrightarrow> s = r) \<and> resolver_evolves r s
    \<and> (\<forall>ev. res = Ok ev \<longrightarrow> weapon_effect attacker target weapon_id mode0 two_handed r s ev)"
  proof (cases "weapon_target_check r attacker target")
    case (Ok av)
    obtain a v where av: "av = (a, v)" by fastforce
    note tc = Ok [unfolded av]
    show ?thesis
    proof (cases "weapon_choice_check a v weapon_id mode0 two_handed")
      case (Ok pm)
      obtain p mode where pm: "pm = (p, mode)" by fastforce
      note wc = Ok [unfolded pm]
      obtain lo where lo: "c_loadout a = Some lo" "weapon_legal a v lo p mode two_handed"
        "mode = effective_mode mode0 p" "wp_weapon_id p = (case weapon_id of Some w \<Rightarrow> w | None \<Rightarrow> lo_default_weapon lo)"
        by (rule weapon_choice_check_Ok [OF wc])
      let ?m = "weapon_modifier r attacker a v p (is_ranged_mode mode)"
      show ?thesis
      proof (cases "two_handed \<and> wp_versatile_damage p = None")
        case True
        then have "res = Err WeaponUnavailable \<and> s = r"
          using run tc wc by (simp add: resolve_weapon_attack_def Let_def)
        then show ?thesis by (simp add: engine.refl)
      next
        case False
        then obtain damage where dmg: "(if two_handed then ok_or (wp_versatile_damage p) WeaponUnavailable
            else Ok (wp_damage p)) = Ok damage" by (cases two_handed) auto
        obtain res1 r1 where ra: "resolve_attack rr attacker target (wp_attack_bonus p) damage (wp_damage_type p) ?m r
            = (res1, r1)" by fastforce
        note cs = resolve_attack_cases [OF rr ok ra]
        show ?thesis
        proof (cases res1)
          case (Ok ev)
          have a: "actor_of r attacker = Some a" using tc weapon_target_check_Ok by blast
          have eff: "attack_effect attacker target (wp_attack_bonus p) ?m r r1 ev" using cs(3) Ok by blast
          note a1 = attack_effect_attacker [OF eff a]
          have r: "res = Ok ev" "s = upd_actor attacker (\<lambda>x. x\<lparr>c_loadout := Some (spend_weapon p mode lo)\<rparr>) r1"
            using run tc wc dmg ra Ok a1 lo(1) by (simp_all add: resolve_weapon_attack_def Let_def)
          have "resolver_evolves r1 s"
            unfolding r(2) by (rule upd_actor_evolves) (use a1 lo(1) in \<open>auto intro!: loadout_evolves [of _ lo]\<close>)
          then have "resolver_evolves r s" using cs(4) engine.trans by blast
          moreover have "weapon_effect attacker target weapon_id mode0 two_handed r s ev"
            unfolding weapon_effect_def using tc lo eff r(2) by blast
          ultimately show ?thesis using r(1) by simp
        next
          case (Err y)
          then have "res = Err y \<and> s = r1" using run tc wc dmg ra by (simp add: resolve_weapon_attack_def Let_def)
          then show ?thesis using cs(2,4) Err by simp
        next
          case Panic
          with cs(1) show ?thesis by blast
        qed
      qed
    next
      case (Err y)
      then have "res = Err y \<and> s = r" using run tc by (simp add: resolve_weapon_attack_def)
      then show ?thesis by (simp add: engine.refl)
    next
      case Panic
      with weapon_choice_check_no_panic show ?thesis by blast
    qed
  next
    case (Err y)
    then have "res = Err y \<and> s = r" using run by (simp add: resolve_weapon_attack_def)
    then show ?thesis by (simp add: engine.refl)
  next
    case Panic
    with weapon_target_check_no_panic [OF ok] show ?thesis by blast
  qed
  then show "res \<noteq> Panic" "res = Err x \<Longrightarrow> s = r"
    "res = Ok ev \<Longrightarrow> weapon_effect attacker target weapon_id mode0 two_handed r s ev" "resolver_evolves r s"
    by simp_all
qed

end
