(* ===== verification/Spell_Resolution.thy ===== *)
theory Spell_Resolution
  imports Attacks
begin

text \<open>
  \<^verbatim>\<open>crates/app-domain/src/combat/spell_resolution.rs\<close>: \<open>resolve_spell\<close>. Its validation is the pure
  \<open>spell_check\<close>; then the caster pays, the effect runs, and the slot is spent. Each effect is a
  function of its own, and \<open>resolver_hit\<close> is what every effect keeps: only hit points, conditions,
  death saves and death of the participants change.
\<close>

section \<open>Validation\<close>

definition spell_count :: "string \<Rightarrow> spell_rule \<Rightarrow> casting_profile \<Rightarrow> u8 \<Rightarrow> usize" where
  "spell_count spell_id rule casting slot_level =
     (if spell_id = ''eldritch-blast'' then cantrip_scale (cp_level casting)
      else if sr_effect rule = Missiles then slot_level + 2 else 1)"

definition slot_rejected :: "combatant \<Rightarrow> casting_profile \<Rightarrow> spell_rule \<Rightarrow> u8 \<Rightarrow> bool" where
  "slot_rejected actor casting rule slot_level =
     (if sr_level rule = 0 then slot_level \<noteq> 0
      else slot_level < sr_level rule \<or> slot_level > 9 \<or> ab_spell_slot_used (c_budget actor)
        \<or> (case table_get (cp_slots casting) slot_level of None \<Rightarrow> True | Some s \<Rightarrow> ss_remaining s = 0))"

definition sight_bound :: "string \<Rightarrow> bool" where
  "sight_bound spell_id \<longleftrightarrow> spell_id \<in> set [''healing-word'', ''magic-missile'', ''sacred-flame'']"

fun spell_targets_check ::
  "'g resolver \<Rightarrow> combatant \<Rightarrow> string \<Rightarrow> spell_rule \<Rightarrow> combatant_id list \<Rightarrow> (validation_error, unit) res" where
  "spell_targets_check r actor spell_id rule [] = Ok ()"
| "spell_targets_check r actor spell_id rule (target # rest) =
     bind_res (ok_or (actor_of r target) TargetNotFound) (\<lambda>victim.
     bind_res (reject_if (\<not> clear_between r (c_position actor) (c_position victim)) Obstructed) (\<lambda>_.
     bind_res (reject_if (c_withdrawn victim \<or> c_is_dead victim
        \<or> \<not> is_heal (sr_effect rule)
          \<and> (c_current_hp victim \<le> 0 \<and> c_character_id victim = None
             \<or> c_character_id victim \<noteq> None \<and> c_character_id actor \<noteq> None)) InvalidTarget) (\<lambda>_.
     bind_res (reject_if (distance_ft (c_position actor) (c_position victim) > sr_range_ft rule) OutOfRange) (\<lambda>_.
     bind_res (reject_if (has_condition actor Blinded \<and> sight_bound spell_id) InvalidTarget) (\<lambda>_.
     spell_targets_check r actor spell_id rule rest)))))"

definition spell_check ::
  "'g resolver \<Rightarrow> combatant_id \<Rightarrow> string \<Rightarrow> combatant_id list \<Rightarrow> u8 \<Rightarrow>
   (validation_error, combatant \<times> casting_profile \<times> spell_rule \<times> usize) res" where
  "spell_check r caster spell_id targets slot_level =
     bind_res (require_current r caster) (\<lambda>_.
     bind_res (require_conscious r caster) (\<lambda>_.
     bind_res (unwrap (actor_of r caster)) (\<lambda>actor.
     bind_res (reject_if (c_untrained_armor actor) SpellUnavailable) (\<lambda>_.
     bind_res (ok_or (c_casting actor) SpellUnavailable) (\<lambda>casting.
     bind_res (reject_if (spell_id \<notin> set (cp_prepared casting)) SpellUnavailable) (\<lambda>_.
     bind_res (ok_or (spell_rule_of spell_id) SpellUnavailable) (\<lambda>rule.
     bind_res (reject_if (slot_rejected actor casting rule slot_level) SpellSlotUnavailable) (\<lambda>_.
     let count = spell_count spell_id rule casting slot_level in
     bind_res (reject_if (targets = [] \<or> length targets \<noteq> 1 \<and> length targets \<noteq> count) InvalidTarget) (\<lambda>_.
     bind_res (spell_targets_check r actor spell_id rule targets) (\<lambda>_.
     Ok (actor, casting, rule, count)))))))))))"

section \<open>Effects\<close>

definition add_roll :: "string \<Rightarrow> i32 \<Rightarrow> roll_detail \<Rightarrow> result_events \<Rightarrow> result_events" where
  "add_roll purpose natural detail ev =
     ev\<lparr>ev_rolls := ev_rolls ev @ [\<lparr>dr_purpose = purpose, dr_detail = detail, dr_natural = natural\<rparr>]\<rparr>"

definition spell_damage ::
  "combatant_id \<Rightarrow> i32 \<Rightarrow> damage_type \<Rightarrow> bool \<Rightarrow> result_events \<Rightarrow> 'g resolver \<Rightarrow>
   (validation_error, result_events) res \<times> 'g resolver" where
  "spell_damage target amount dt critical ev r =
     try_state (unwrap (actor_of r target)) r (\<lambda>victim.
     if c_is_dead victim then (Ok ev, r)
     else
       let (effective, v1) = apply_damage_with_critical victim (max amount 0) dt [] critical;
           ev1 = ev\<lparr>ev_damage := ev_damage ev @ [\<lparr>da_target = target, da_raw_amount = max amount 0,
              da_effective_amount = effective, da_damage_type = dt, da_new_hp = c_current_hp v1,
              da_was_critical = critical\<rparr>]\<rparr>;
           v2 = (if c_current_hp v1 = 0
                 then let w = add_condition Unconscious v1
                      in if c_character_id w = None then w\<lparr>c_is_dead := True\<rparr> else w
                 else v1);
           ev2 = (if c_is_dead v2 \<and> target \<notin> set (ev_deaths ev1)
                  then ev1\<lparr>ev_deaths := ev_deaths ev1 @ [target]\<rparr> else ev1)
       in (Ok ev2, upd_actor target (\<lambda>_. v2) r))"

definition spell_heal ::
  "'g sampler \<Rightarrow> string \<Rightarrow> combatant_id list \<Rightarrow> u8 \<Rightarrow> die \<Rightarrow> casting_profile \<Rightarrow> result_events \<Rightarrow> 'g resolver \<Rightarrow>
   (validation_error, result_events) res \<times> 'g resolver" where
  "spell_heal rr spell_id targets slot_level d casting ev r =
     (let (detail, rng1) = roll_expr_detailed rr \<lparr>de_count = u8_mul 2 slot_level, de_die = d,
            de_modifier = cp_ability_modifier casting\<rparr> (rs_rng r);
          amount = max (rd_total detail) 0;
          r1 = r\<lparr>rs_rng := rng1\<rparr>
      in try_state (index_at targets 0) r1 (\<lambda>target.
         try_state (unwrap (actor_of r1 target)) r1 (\<lambda>victim.
         let healed = apply_healing victim amount;
             ev1 = ev\<lparr>ev_healing := ev_healing ev @ [\<lparr>ha_target = target,
                ha_amount = i32_sub (c_current_hp healed) (c_current_hp victim), ha_new_hp = c_current_hp healed\<rparr>]\<rparr>
         in (Ok (add_roll spell_id 0 detail ev1), upd_actor target (\<lambda>_. healed) r1))))"

text \<open>\<open>targets[if targets.len() == 1 { 0 } else { index }]\<close>.\<close>

definition aimed_at :: "combatant_id list \<Rightarrow> nat \<Rightarrow> (validation_error, combatant_id) res" where
  "aimed_at targets index = index_at targets (if length targets = 1 then 0 else index)"

definition spell_missiles ::
  "'g sampler \<Rightarrow> string \<Rightarrow> combatant_id list \<Rightarrow> usize \<Rightarrow> result_events \<Rightarrow> 'g resolver \<Rightarrow>
   (validation_error, result_events) res \<times> 'g resolver" where
  "spell_missiles rr spell_id targets count ev r =
     (let (detail, rng1) = roll_expr_detailed rr \<lparr>de_count = 1, de_die = D4, de_modifier = 1\<rparr> (rs_rng r)
      in and_then
           (for_state (\<lambda>index ev1 r1. try_state (aimed_at targets index) r1 (\<lambda>target.
               spell_damage target (rd_total detail) Force False ev1 r1)) [0..<count] ev (r\<lparr>rs_rng := rng1\<rparr>))
           (\<lambda>ev2 r2. (Ok (add_roll spell_id 0 detail ev2), r2)))"

definition spell_save ::
  "'g sampler \<Rightarrow> string \<Rightarrow> combatant_id list \<Rightarrow> die \<Rightarrow> damage_type \<Rightarrow> casting_profile \<Rightarrow> result_events \<Rightarrow> 'g resolver \<Rightarrow>
   (validation_error, result_events) res \<times> 'g resolver" where
  "spell_save rr spell_id targets d dt casting ev r =
     try_state (index_at targets 0) r (\<lambda>target.
     try_state (unwrap (actor_of r target)) r (\<lambda>victim.
       let automatic = has_condition victim Unconscious;
           (detail, rng1) = (if automatic then (\<lparr>rd_rolls = [], rd_modifier = 0, rd_total = 0\<rparr>, rs_rng r)
              else roll_d20_detailed rr (c_dex_mod victim) False (c_untrained_armor victim) (rs_rng r));
           success = (\<not> automatic \<and> rd_total detail \<ge> cp_save_dc casting);
           ev1 = add_roll (if automatic then spell_id @ '' automatic save failure''
                           else spell_id @ '' save vs DC '' @ show_int (cp_save_dc casting))
                   (i32_sub (rd_total detail) (rd_modifier detail)) detail ev
       in if success then (Ok ev1, r\<lparr>rs_rng := rng1\<rparr>)
          else
            let (dmg, rng2) = roll_expr_detailed rr \<lparr>de_count = cantrip_scale (cp_level casting), de_die = d,
                  de_modifier = 0\<rparr> rng1
            in and_then (spell_damage target (rd_total dmg) dt False ev1 (r\<lparr>rs_rng := rng2\<rparr>))
                 (\<lambda>ev2 r2. (Ok (add_roll spell_id 0 dmg ev2), r2))))"

definition spell_attack_modifier :: "'g resolver \<Rightarrow> combatant \<Rightarrow> combatant \<Rightarrow> attack_modifier" where
  "spell_attack_modifier r actor victim =
     (let distance = distance_ft (c_position actor) (c_position victim);
          advantage = (has_condition victim Unconscious \<or> has_condition victim Blinded
             \<or> has_condition victim Prone \<and> distance \<le> 5);
          disadvantage = ((\<exists>c\<in>c_conditions actor. attacker_condition_modifier c = Disadvantage)
             \<or> has_condition victim Prone \<and> distance > 5
             \<or> (\<exists>enemy\<in>set (table_values (rs_combatants r)).
                   (c_character_id enemy \<noteq> None) \<noteq> (c_character_id actor \<noteq> None)
                   \<and> c_current_hp enemy > 0 \<and> \<not> c_is_dead enemy
                   \<and> \<not> has_condition enemy Blinded \<and> \<not> has_condition enemy Unconscious
                   \<and> distance_ft (c_position actor) (c_position enemy) \<le> 5))
      in attack_mode_of advantage disadvantage)"

fun attack_numbers :: "i32 \<Rightarrow> attack_outcome \<Rightarrow> bool \<times> bool \<times> i32 \<times> i32" where
  "attack_numbers b (CriticalHit n t) = (True, True, n, t)"
| "attack_numbers b (Hit n t) = (True, False, n, t)"
| "attack_numbers b (CriticalMiss n) = (False, False, n, i32_add n b)"
| "attack_numbers b (Miss n t) = (False, False, n, t)"

text \<open>One beam of an attack spell: the body of its loop.\<close>

definition spell_beam ::
  "'g sampler \<Rightarrow> string \<Rightarrow> combatant_id \<Rightarrow> combatant_id list \<Rightarrow> die \<Rightarrow> damage_type \<Rightarrow> casting_profile \<Rightarrow> nat \<Rightarrow>
   result_events \<Rightarrow> 'g resolver \<Rightarrow> (validation_error, result_events) res \<times> 'g resolver" where
  "spell_beam rr spell_id caster targets d dt casting index ev r =
     try_state (aimed_at targets index) r (\<lambda>target.
     try_state (unwrap (actor_of r caster)) r (\<lambda>actor.
     try_state (unwrap (actor_of r target)) r (\<lambda>victim.
       let bonus = cp_attack_bonus casting;
           helpless = (has_condition victim Unconscious
              \<and> distance_ft (c_position actor) (c_position victim) \<le> 5);
           (rolled, rng1) = roll_attack_detailed rr bonus (c_ac victim)
              (spell_attack_modifier r actor victim) (rs_rng r);
           (hit, crit0, natural, tot) = attack_numbers bonus (ar_outcome rolled);
           critical = (crit0 \<or> hit \<and> helpless);
           ev1 = add_roll (spell_id @ '' attack'') natural
              \<lparr>rd_rolls = ar_rolls rolled, rd_modifier = bonus, rd_total = tot\<rparr> ev
       in if \<not> hit then (Ok ev1, r\<lparr>rs_rng := rng1\<rparr>)
          else
            let dice = (if spell_id = ''eldritch-blast'' then 1 else cantrip_scale (cp_level casting));
                (dmg, rng2) = roll_expr_detailed rr \<lparr>de_count = u8_mul dice (if critical then 2 else 1),
                   de_die = d, de_modifier = 0\<rparr> rng1
            in and_then (spell_damage target (rd_total dmg) dt critical ev1 (r\<lparr>rs_rng := rng2\<rparr>))
                 (\<lambda>ev2 r2. (Ok (add_roll spell_id 0 dmg ev2), r2)))))"

definition spell_effects ::
  "'g sampler \<Rightarrow> string \<Rightarrow> combatant_id \<Rightarrow> combatant_id list \<Rightarrow> u8 \<Rightarrow> usize \<Rightarrow> spell_effect \<Rightarrow> casting_profile \<Rightarrow>
   'g resolver \<Rightarrow> (validation_error, result_events) res \<times> 'g resolver" where
  "spell_effects rr spell_id caster targets slot_level count effect casting r =
     (case effect of
        Heal d \<Rightarrow> spell_heal rr spell_id targets slot_level d casting no_events r
      | Missiles \<Rightarrow> spell_missiles rr spell_id targets count no_events r
      | DexteritySave d dt \<Rightarrow> spell_save rr spell_id targets d dt casting no_events r
      | SpellAttack d dt \<Rightarrow>
          for_state (spell_beam rr spell_id caster targets d dt casting) [0..<count] no_events r)"

section \<open>Paying and spending\<close>

definition spend_slot ::
  "combatant_id \<Rightarrow> spell_rule \<Rightarrow> u8 \<Rightarrow> result_events \<Rightarrow> 'g resolver \<Rightarrow> (validation_error, result_events) res \<times> 'g resolver" where
  "spend_slot caster rule slot_level ev r =
     (if sr_level rule = 0 then (Ok ev, r)
      else
        try_state (unwrap (actor_of r caster)) r (\<lambda>actor.
        try_state (unwrap (c_casting actor)) r (\<lambda>casting.
        try_state (unwrap (table_get (cp_slots casting) slot_level)) r (\<lambda>_.
          let slots = table_modify slot_level (\<lambda>s. s\<lparr>ss_remaining := unsigned_sub 8 (ss_remaining s) 1\<rparr>) (cp_slots casting);
              ev1 = (case c_character_id actor of None \<Rightarrow> ev
                     | Some c \<Rightarrow> ev\<lparr>ev_spell_slots_consumed := ev_spell_slots_consumed ev
                         @ [\<lparr>sc_character = c, sc_level = SlotLevel slot_level\<rparr>]\<rparr>)
          in (Ok ev1, upd_actor caster (\<lambda>x. x\<lparr>c_casting := Some (casting\<lparr>cp_slots := slots\<rparr>)\<rparr>) r)))))"

definition cast_budget :: "action_budget \<Rightarrow> spell_rule \<Rightarrow> (action_economy_error, unit) res \<times> action_budget" where
  "cast_budget b rule =
     (let (paid, b1) = consume_action b (if sr_bonus_action rule then BonusAction else Action)
      in (paid, if sr_level rule > 0 then b1\<lparr>ab_spell_slot_used := True\<rparr> else b1))"

definition resolve_spell ::
  "'g sampler \<Rightarrow> combatant_id \<Rightarrow> string \<Rightarrow> combatant_id list \<Rightarrow> u8 \<Rightarrow> 'g resolver \<Rightarrow>
   (validation_error, result_events) res \<times> 'g resolver" where
  "resolve_spell rr caster spell_id targets slot_level r =
     try_state (spell_check r caster spell_id targets slot_level) r (\<lambda>(actor, casting, rule, count).
     let (paid, b) = cast_budget (c_budget actor) rule in
     try_state (map_err economy_error paid) r (\<lambda>_.
     and_then (spell_effects rr spell_id caster targets slot_level count (sr_effect rule) casting (set_budget caster b r))
       (spend_slot caster rule slot_level)))"

section \<open>What an effect keeps\<close>

definition combatant_hit :: "combatant \<Rightarrow> combatant \<Rightarrow> bool" where
  "combatant_hit a b \<longleftrightarrow> combatant_evolves a b \<and> (vitals_ok a \<and> strikeable a \<longrightarrow> strikeable b)
     \<and> c_budget b = c_budget a \<and> c_position b = c_position a \<and> c_loadout b = c_loadout a \<and> c_casting b = c_casting a"

interpretation wounds: evolution combatant_hit
proof
  show "combatant_hit a a" for a by (simp add: combatant_hit_def roster.refl)
  show "combatant_hit a c" if "combatant_hit a b" "combatant_hit b c" for a b c
  proof -
    have "combatant_evolves a b" "combatant_evolves b c" using that by (simp_all add: combatant_hit_def)
    then have "combatant_evolves a c" "vitals_ok a \<Longrightarrow> vitals_ok b"
      using roster.trans by (auto simp: combatant_evolves_def)
    with that show ?thesis by (simp add: combatant_hit_def)
  qed
qed

definition resolver_hit :: "'g resolver \<Rightarrow> 'g resolver \<Rightarrow> bool" where
  "resolver_hit r s \<longleftrightarrow> resolver_evolves r s \<and> rs_order s = rs_order r
     \<and> pointwise combatant_hit (rs_combatants r) (rs_combatants s)"

interpretation effects: evolution resolver_hit
  by unfold_locales
    (auto simp: resolver_hit_def engine.refl wounds.pointwise_refl intro: engine.trans wounds.pointwise_trans)

lemma resolver_hit_actor:
  "resolver_hit r s \<Longrightarrow> actor_of r i = Some a \<Longrightarrow> \<exists>b. actor_of s i = Some b \<and> combatant_hit a b"
  unfolding resolver_hit_def pointwise_def actor_of_def by blast

lemma upd_actor_hit:
  assumes "\<And>a. actor_of r i = Some a \<Longrightarrow> combatant_hit a (f a)"
  shows "resolver_hit r (upd_actor i f r)"
proof -
  have "resolver_evolves r (upd_actor i f r)"
    by (rule upd_actor_evolves) (use assms in \<open>auto simp: combatant_hit_def\<close>)
  moreover have "pointwise combatant_hit (rs_combatants r) (rs_combatants (upd_actor i f r))"
    unfolding upd_actor_def by (simp, rule wounds.pointwise_modify) (use assms in \<open>auto simp: actor_of_def\<close>)
  ultimately show ?thesis by (simp add: resolver_hit_def)
qed

lemma rng_hit: "resolver_hit r (r\<lparr>rs_rng := g\<rparr>)"
  by (simp add: resolver_hit_def rng_evolves wounds.pointwise_refl)

text \<open>The participants a spell may aim at, and a log that names no one else.\<close>

definition aimable :: "combatant_id set \<Rightarrow> 'g resolver \<Rightarrow> bool" where
  "aimable T r \<longleftrightarrow> (\<forall>i\<in>T. \<exists>a. actor_of r i = Some a \<and> vitals_ok a \<and> strikeable a)"

lemma aimable_hit: "aimable T r \<Longrightarrow> resolver_hit r s \<Longrightarrow> aimable T s"
  unfolding aimable_def using resolver_hit_actor [of r s] by (fastforce simp: combatant_hit_def combatant_evolves_def)

definition spell_log :: "combatant_id set \<Rightarrow> result_events \<Rightarrow> bool" where
  "spell_log T ev \<longleftrightarrow> da_target ` set (ev_damage ev) \<subseteq> T \<and> ha_target ` set (ev_healing ev) \<subseteq> T
     \<and> set (ev_deaths ev) \<subseteq> T \<and> ev_spell_slots_consumed ev = [] \<and> ev_movement ev = [] \<and> ev_death_saves ev = []
     \<and> (\<forall>d\<in>set (ev_damage ev). 0 \<le> da_raw_amount d)"

lemma spell_log_add_roll [simp]: "spell_log T (add_roll p n d ev) = spell_log T ev"
  by (simp add: spell_log_def add_roll_def)

lemma spell_log_empty [simp]: "spell_log T no_events"
  by (simp add: spell_log_def)

lemma damage_strikeable:
  assumes d: "apply_damage_with_critical t raw dt [] critical = (eff, t1)" and raw: "in_i32 raw"
    and st: "strikeable t" and live: "\<not> c_is_dead t"
    and t2: "t2 = (if c_current_hp t1 = 0
                 then let w = add_condition Unconscious t1
                      in if c_character_id w = None then w\<lparr>c_is_dead := True\<rparr> else w
                 else t1)"
  shows "combatant_hit t t2"
proof -
  have ev1: "combatant_evolves t t1" using apply_damage_evolves [OF raw, of t dt critical] d by simp
  have id: "c_character_id t1 = c_character_id t" using evolves_fields(2) [OF ev1] .
  let ?w = "add_condition Unconscious t1"
  have evw: "combatant_evolves t ?w" by (rule roster.trans [OF ev1 condition_evolves])
  have ev2: "combatant_evolves t t2"
  proof (cases "c_current_hp t1 = 0 \<and> c_character_id t = None")
    case True
    have "combatant_evolves t (?w\<lparr>c_is_dead := True\<rparr>)"
    proof (rule finish_evolves [OF evw])
      assume ok: "vitals_ok t"
      have "c_current_hp t > 0" using st live True by (auto simp: strikeable_def)
      then have "\<not> sv_stable (c_death_saves t1)" using damage_zero_unstable [OF ok _ raw d] True by blast
      then show "c_is_dead ?w \<or> \<not> sv_stable (c_death_saves ?w)" by (simp add: add_condition_def)
    qed (use True id in \<open>simp_all add: add_condition_def\<close>)
    with True id show ?thesis by (simp add: t2 Let_def add_condition_def)
  qed (use ev1 evw id in \<open>auto simp: t2 Let_def add_condition_def\<close>)
  have nonneg: "0 \<le> c_current_hp t1 \<or> t1 = t"
    using d by (auto simp: apply_damage_with_critical_def compute_effective_damage_def get_resistance_def
        table_get_def apply_raw_damage_with_critical_def Let_def wound_frames split: if_splits)
  have "strikeable t2"
    using nonneg st id live by (auto simp: strikeable_def t2 Let_def add_condition_def)
  then show ?thesis
    using ev2 damage_fields [OF d] by (simp add: combatant_hit_def t2 Let_def add_condition_def)
qed

lemma spell_damage_settles:
  assumes aim: "aimable T r" and target: "target \<in> T" and amount: "in_i32 amount" and log: "spell_log T ev"
  shows "settles resolver_hit (spell_log T) r (spell_damage target amount dt critical ev r)"
proof -
  obtain t where t: "actor_of r target = Some t" "strikeable t" using aim target by (auto simp: aimable_def)
  show ?thesis
  proof (cases "c_is_dead t")
    case True
    then show ?thesis using t log by (simp add: spell_damage_def settles_def effects.refl)
  next
    case False
    have am: "in_i32 (max amount 0)" using amount by (auto simp: in_i32_def)
    obtain eff t1 where d: "apply_damage_with_critical t (max amount 0) dt [] critical = (eff, t1)" by fastforce
    define t2 where "t2 = (if c_current_hp t1 = 0
                 then let w = add_condition Unconscious t1
                      in if c_character_id w = None then w\<lparr>c_is_dead := True\<rparr> else w
                 else t1)"
    note hit = damage_strikeable [OF d am t(2) False t2_def]
    have up: "resolver_hit r (upd_actor target (\<lambda>_. t2) r)"
      by (rule upd_actor_hit) (use t hit in simp)
    show ?thesis
      using t False d up log target t2_def
      by (auto simp: spell_damage_def settles_def Let_def spell_log_def)
  qed
qed

lemma spell_missiles_settles:
  assumes aim: "aimable (set targets) r" and len: "targets \<noteq> []" "length targets = 1 \<or> length targets = count"
    and log: "spell_log (set targets) ev"
  shows "settles resolver_hit (spell_log (set targets)) r (spell_missiles rr spell_id targets count ev r)"
proof -
  obtain detail g where roll: "roll_expr_detailed rr \<lparr>de_count = 1, de_die = D4, de_modifier = 1\<rparr> (rs_rng r)
    = (detail, g)" by fastforce
  let ?r = "r\<lparr>rs_rng := g\<rparr>"
  have loop: "settles resolver_hit (spell_log (set targets)) ?r
     (for_state (\<lambda>index ev1 r1. try_state (aimed_at targets index) r1 (\<lambda>target.
               spell_damage target (rd_total detail) Force False ev1 r1)) [0..<count] ev ?r)"
  proof (rule effects.settles_for [where Q = "spell_log (set targets)", OF _ log])
    fix index acc t
    assume i: "index \<in> set [0..<count]" and t: "resolver_hit ?r t" and acc: "spell_log (set targets) acc"
    define j where "j = (if length targets = 1 then 0 else index)"
    have j: "j < length targets" using i len by (auto simp: j_def)
    have "aimable (set targets) t"
      using aimable_hit [OF aim effects.trans [OF rng_hit t]] .
    then have "settles resolver_hit (spell_log (set targets)) t (spell_damage (targets ! j) (rd_total detail) Force False acc t)"
      by (rule spell_damage_settles) (use j acc roll_expr_detailed_in_i32 [OF roll] in auto)
    then show "settles resolver_hit (spell_log (set targets)) t (try_state (aimed_at targets index) t
        (\<lambda>target. spell_damage target (rd_total detail) Force False acc t))"
      using j by (simp add: aimed_at_def index_at_def j_def)
  qed
  show ?thesis
    unfolding spell_missiles_def roll Let_def prod.case
    by (rule effects.settles_then [OF effects.settles_weaken [OF loop rng_hit]])
      (simp add: settles_def effects.refl)
qed

lemma spell_save_settles:
  assumes aim: "aimable (set targets) r" and ne: "targets \<noteq> []" and log: "spell_log (set targets) ev"
  shows "settles resolver_hit (spell_log (set targets)) r (spell_save rr spell_id targets d dt casting ev r)"
proof -
  let ?t = "targets ! 0"
  have mem: "?t \<in> set targets" using ne by simp
  obtain v where v: "actor_of r ?t = Some v" using aim mem by (auto simp: aimable_def)
  define automatic where "automatic = has_condition v Unconscious"
  obtain detail g where roll: "(if automatic then (\<lparr>rd_rolls = [], rd_modifier = 0, rd_total = 0\<rparr>, rs_rng r)
      else roll_d20_detailed rr (c_dex_mod v) False (c_untrained_armor v) (rs_rng r)) = (detail, g)" by fastforce
  obtain dmg g2 where dmg: "roll_expr_detailed rr \<lparr>de_count = cantrip_scale (cp_level casting), de_die = d,
                  de_modifier = 0\<rparr> g = (dmg, g2)" by fastforce
  have hit: "resolver_hit r (r\<lparr>rs_rng := h\<rparr>)" for h by (rule rng_hit)
  have sd: "settles resolver_hit (spell_log (set targets)) (r\<lparr>rs_rng := g2\<rparr>)
      (spell_damage ?t (rd_total dmg) dt False (add_roll p n detail ev) (r\<lparr>rs_rng := g2\<rparr>))" for p n
    by (rule spell_damage_settles [OF aimable_hit [OF aim hit] mem roll_expr_detailed_in_i32 [OF dmg]]) (simp add: log)
  have eq: "spell_save rr spell_id targets d dt casting ev r =
     (let ev1 = add_roll (if automatic then spell_id @ '' automatic save failure''
                           else spell_id @ '' save vs DC '' @ show_int (cp_save_dc casting))
                   (i32_sub (rd_total detail) (rd_modifier detail)) detail ev
      in if \<not> automatic \<and> rd_total detail \<ge> cp_save_dc casting then (Ok ev1, r\<lparr>rs_rng := g\<rparr>)
         else and_then (spell_damage ?t (rd_total dmg) dt False ev1 (r\<lparr>rs_rng := g2\<rparr>))
                 (\<lambda>ev2 r2. (Ok (add_roll spell_id 0 dmg ev2), r2)))"
    using ne v roll dmg unfolding spell_save_def index_at_def automatic_def by (simp add: Let_def)
  show ?thesis
    unfolding eq Let_def
    using hit log
    by (auto intro!: effects.settles_return effects.settles_then [OF effects.settles_weaken [OF sd hit]]
        simp: effects.refl)
qed

lemma spell_beam_settles:
  assumes aim: "aimable (set targets) r" and caster: "actor_of r caster = Some a"
    and index: "index < length targets \<or> length targets = 1" and log: "spell_log (set targets) ev"
  shows "settles resolver_hit (spell_log (set targets)) r
     (spell_beam rr spell_id caster targets d dt casting index ev r)"
proof -
  define j where "j = (if length targets = 1 then 0 else index)"
  have j: "j < length targets" using index by (auto simp: j_def)
  let ?t = "targets ! j"
  have mem: "?t \<in> set targets" using j by simp
  have aimed: "aimed_at targets index = Ok ?t" using j by (simp add: aimed_at_def index_at_def j_def)
  obtain v where v: "actor_of r ?t = Some v" using aim mem by (auto simp: aimable_def)
  let ?bonus = "cp_attack_bonus casting"
  obtain rolled g where roll: "roll_attack_detailed rr ?bonus (c_ac v) (spell_attack_modifier r a v) (rs_rng r) = (rolled, g)"
    by fastforce
  obtain hit crit0 nat0 tot where num: "attack_numbers ?bonus (ar_outcome rolled) = (hit, crit0, nat0, tot)"
    by (metis prod_cases4)
  define critical where "critical \<longleftrightarrow> crit0 \<or> hit \<and> has_condition v Unconscious
      \<and> distance_ft (c_position a) (c_position v) \<le> 5"
  let ?ev = "add_roll (spell_id @ '' attack'') nat0 \<lparr>rd_rolls = ar_rolls rolled, rd_modifier = ?bonus, rd_total = tot\<rparr> ev"
  obtain dmg g2 where dmg: "roll_expr_detailed rr \<lparr>de_count =
       u8_mul (if spell_id = ''eldritch-blast'' then 1 else cantrip_scale (cp_level casting)) (if critical then 2 else 1),
       de_die = d, de_modifier = 0\<rparr> g = (dmg, g2)" by fastforce
  have eq: "spell_beam rr spell_id caster targets d dt casting index ev r =
     (if \<not> hit then (Ok ?ev, r\<lparr>rs_rng := g\<rparr>)
      else and_then (spell_damage ?t (rd_total dmg) dt critical ?ev (r\<lparr>rs_rng := g2\<rparr>))
             (\<lambda>ev2 r2. (Ok (add_roll spell_id 0 dmg ev2), r2)))"
    using dmg unfolding spell_beam_def aimed critical_def
    by (cases hit) (simp_all add: v caster roll num Let_def)
  have hit: "resolver_hit r (r\<lparr>rs_rng := h\<rparr>)" for h by (rule rng_hit)
  have sd: "settles resolver_hit (spell_log (set targets)) (r\<lparr>rs_rng := g2\<rparr>)
      (spell_damage ?t (rd_total dmg) dt critical ?ev (r\<lparr>rs_rng := g2\<rparr>))"
    by (rule spell_damage_settles [OF aimable_hit [OF aim hit] mem roll_expr_detailed_in_i32 [OF dmg]]) (simp add: log)
  show ?thesis
    unfolding eq
    using hit log
    by (auto intro!: effects.settles_return effects.settles_then [OF effects.settles_weaken [OF sd hit]]
        simp: effects.refl)
qed

lemma healing_hit:
  assumes "0 \<le> amount" "amount \<le> 1000000000"
  shows "combatant_hit c (apply_healing c amount)"
proof -
  have frame: "c_budget (apply_healing c amount) = c_budget c" "c_position (apply_healing c amount) = c_position c"
    "c_loadout (apply_healing c amount) = c_loadout c" "c_casting (apply_healing c amount) = c_casting c"
    "c_character_id (apply_healing c amount) = c_character_id c"
    by (simp_all add: apply_healing_def Let_def remove_condition_def)
  have "strikeable (apply_healing c amount)" if ok: "vitals_ok c" and st: "strikeable c"
  proof (cases "c_is_dead c")
    case True
    then show ?thesis using st by (simp add: apply_healing_def)
  next
    case False
    then have "0 < c_current_hp c \<or> c_character_id c \<noteq> None" using st by (auto simp: strikeable_def)
    then show ?thesis
      using healing_result(1) [OF ok False assms] vitals_hp(3) [OF ok] assms frame(5)
      by (auto simp: strikeable_def)
  qed
  then show ?thesis using healing_evolves [OF assms] frame(1-4) by (simp add: combatant_hit_def)
qed

lemma spell_heal_settles:
  assumes rr: "sampler_ok rr" and t: "targets \<noteq> []" "actor_of r (targets ! 0) = Some v"
    and cp: "\<bar>cp_ability_modifier casting\<bar> \<le> 1000000" and sl: "slot_level \<le> 9" and log: "spell_log (set targets) ev"
  shows "settles resolver_hit (spell_log (set targets)) r (spell_heal rr spell_id targets slot_level d casting ev r)"
proof -
  let ?e = "\<lparr>de_count = u8_mul 2 slot_level, de_die = d, de_modifier = cp_ability_modifier casting\<rparr>"
  obtain detail g where roll: "roll_expr_detailed rr ?e (rs_rng r) = (detail, g)" by fastforce
  have cnt: "de_count ?e \<le> 255" by (simp add: u8_mul_def)
  have "rd_total detail \<le> 1000000000"
  proof -
    have "rd_total detail \<le> int (de_count ?e) * sides (de_die ?e) + de_modifier ?e"
      by (rule roll_expr_detailed_bounds(5) [OF rr roll cnt]) (use cp in simp)
    also have "\<dots> \<le> 255 * 100 + 1000000"
      using mult_mono [of "int (de_count ?e)" 255 "sides (de_die ?e)" 100] cnt sides_range [of d] cp by simp
    finally show ?thesis by simp
  qed
  then have am: "0 \<le> max (rd_total detail) 0" "max (rd_total detail) 0 \<le> 1000000000" by simp_all
  note hit = healing_hit [OF am, of v]
  have up: "resolver_hit r (upd_actor (targets ! 0) (\<lambda>_. apply_healing v (max (rd_total detail) 0)) (r\<lparr>rs_rng := g\<rparr>))"
    by (rule effects.trans [OF rng_hit upd_actor_hit]) (use t hit in simp)
  show ?thesis
    using t roll up log
    by (auto simp: spell_heal_def index_at_def settles_def spell_log_def add_roll_def Let_def)
qed

lemma spell_effects_heal:
  assumes "spell_effects rr spell_id caster targets slot_level count effect casting r = (Ok ev, s)" "is_heal effect"
  shows "ev_damage ev = []"
proof -
  from assms(2) obtain d where "effect = Heal d" by (cases effect) (auto simp: is_heal_def)
  with assms(1) show ?thesis
    by (auto simp: spell_effects_def spell_heal_def add_roll_def Let_def try_state_def
        split: res.splits prod.splits)
qed

lemma spell_effects_settles:
  assumes rr: "sampler_ok rr" and caster: "actor_of r caster = Some a"
    and present: "\<forall>i\<in>set targets. \<exists>v. actor_of r i = Some v"
    and aim: "\<not> is_heal effect \<Longrightarrow> aimable (set targets) r"
    and len: "targets \<noteq> []" "length targets = 1 \<or> length targets = count"
    and cp: "\<bar>cp_ability_modifier casting\<bar> \<le> 1000000" and sl: "slot_level \<le> 9"
  shows "settles resolver_hit (spell_log (set targets)) r
     (spell_effects rr spell_id caster targets slot_level count effect casting r)"
proof (cases effect)
  case (Heal d)
  obtain v where "actor_of r (targets ! 0) = Some v" using present len(1) by (metis nth_mem length_greater_0_conv)
  from spell_heal_settles [OF rr len(1) this cp sl] Heal show ?thesis by (simp add: spell_effects_def)
next
  case Missiles
  then show ?thesis
    using spell_missiles_settles [OF _ len, of r] aim by (simp add: spell_effects_def is_heal_def)
next
  case (DexteritySave d dt)
  then show ?thesis
    using spell_save_settles [OF _ len(1), of r] aim by (simp add: spell_effects_def is_heal_def)
next
  case (SpellAttack d dt)
  have aim': "aimable (set targets) r" using aim SpellAttack by (simp add: is_heal_def)
  have "settles resolver_hit (spell_log (set targets)) r
     (for_state (spell_beam rr spell_id caster targets d dt casting) [0..<count] no_events r)"
  proof (rule effects.settles_for [where Q = "spell_log (set targets)"])
    fix index acc t
    assume i: "index \<in> set [0..<count]" and t: "resolver_hit r t" and acc: "spell_log (set targets) acc"
    obtain b where "actor_of t caster = Some b" using resolver_hit_actor [OF t caster] by blast
    then show "settles resolver_hit (spell_log (set targets)) t (spell_beam rr spell_id caster targets d dt casting index acc t)"
      by (rule spell_beam_settles [OF aimable_hit [OF aim' t]]) (use i len acc in auto)
  qed simp
  with SpellAttack show ?thesis by (simp add: spell_effects_def)
qed

section \<open>Casting a spell\<close>

lemma spell_targets_check_Ok:
  "spell_targets_check r actor i rule ts = Ok u \<Longrightarrow> t \<in> set ts \<Longrightarrow>
     \<exists>v. actor_of r t = Some v \<and> clear_between r (c_position actor) (c_position v)
       \<and> \<not> c_withdrawn v \<and> \<not> c_is_dead v \<and> distance_ft (c_position actor) (c_position v) \<le> sr_range_ft rule
       \<and> \<not> (has_condition actor Blinded \<and> sight_bound i)
       \<and> (\<not> is_heal (sr_effect rule) \<longrightarrow> \<not> invalid_victim v
            \<and> \<not> (c_character_id v \<noteq> None \<and> c_character_id actor \<noteq> None))"
  by (induction ts) (auto simp: bind_res_Ok invalid_victim_def)

lemma spell_targets_check_no_panic: "spell_targets_check r actor i rule ts \<noteq> Panic"
  by (induction ts) (auto simp: bind_res_Panic)

text \<open>What the validation of a spell establishes.\<close>

definition spell_legal ::
  "'g resolver \<Rightarrow> combatant_id \<Rightarrow> string \<Rightarrow> combatant_id list \<Rightarrow> u8 \<Rightarrow> combatant \<Rightarrow> casting_profile \<Rightarrow> spell_rule \<Rightarrow> usize \<Rightarrow> bool" where
  "spell_legal r caster spell_id targets slot_level a casting rule count \<longleftrightarrow>
     require_current r caster = Ok () \<and> actor_of r caster = Some a \<and> can_act a \<and> \<not> c_untrained_armor a
     \<and> c_casting a = Some casting \<and> spell_id \<in> set (cp_prepared casting)
     \<and> spell_rule_of spell_id = Some rule \<and> \<not> slot_rejected a casting rule slot_level
     \<and> count = spell_count spell_id rule casting slot_level
     \<and> targets \<noteq> [] \<and> (length targets = 1 \<or> length targets = count)
     \<and> spell_targets_check r a spell_id rule targets = Ok ()"

lemma spell_check_Ok:
  "spell_check r caster spell_id targets slot_level = Ok (a, casting, rule, count) \<longleftrightarrow>
     spell_legal r caster spell_id targets slot_level a casting rule count"
  by (auto simp: spell_check_def spell_legal_def bind_res_Ok require_conscious_Ok Let_def)

lemma spell_check_no_panic: "resolver_ok r \<Longrightarrow> spell_check r caster spell_id targets slot_level \<noteq> Panic"
  by (auto simp: spell_check_def bind_res_Panic require_no_panic spell_targets_check_no_panic Let_def require_conscious_Ok)

lemma cast_budget_cases:
  obtains (paid) b' where "cast_budget b rule = (Ok (), b')"
    "if sr_bonus_action rule then ab_bonus_action b \<and> \<not> ab_bonus_action b' \<and> ab_action b' = ab_action b
     else ab_action b \<and> \<not> ab_action b' \<and> ab_bonus_action b' = ab_bonus_action b"
    "ab_spell_slot_used b' \<longleftrightarrow> ab_spell_slot_used b \<or> 0 < sr_level rule"
    "ab_movement_ft b' = ab_movement_ft b" "ab_reaction b' = ab_reaction b"
  | (used) e b' where "cast_budget b rule = (Err e, b')"
proof (cases "if sr_bonus_action rule then ab_bonus_action b else ab_action b")
  case True
  show ?thesis
    by (rule paid [of "snd (cast_budget b rule)"])
      (use True in \<open>auto simp: cast_budget_def split: if_splits\<close>)
next
  case False
  show ?thesis
    by (rule used [of "if sr_bonus_action rule then AeBonusActionExhausted else AeActionExhausted" "snd (cast_budget b rule)"])
      (use False in \<open>auto simp: cast_budget_def split: if_splits\<close>)
qed

definition slot_left :: "casting_profile \<Rightarrow> u8 \<Rightarrow> u8" where
  "slot_left p l = (case table_get (cp_slots p) l of None \<Rightarrow> 0 | Some s \<Rightarrow> ss_remaining s)"

text \<open>What a cast spell did: the caster's budget and slots, and a log of its targets only.\<close>

definition spell_effect_on ::
  "combatant_id \<Rightarrow> combatant_id list \<Rightarrow> u8 \<Rightarrow> combatant \<Rightarrow> casting_profile \<Rightarrow> spell_rule \<Rightarrow>
   'g resolver \<Rightarrow> 'g resolver \<Rightarrow> result_events \<Rightarrow> bool" where
  "spell_effect_on caster targets slot_level a casting rule r s ev \<longleftrightarrow>
     rs_order s = rs_order r
     \<and> (\<exists>b p. actor_of s caster = Some b \<and> c_casting b = Some p
          \<and> (if sr_bonus_action rule
             then ab_bonus_action (c_budget a) \<and> \<not> ab_bonus_action (c_budget b) \<and> ab_action (c_budget b) = ab_action (c_budget a)
             else ab_action (c_budget a) \<and> \<not> ab_action (c_budget b) \<and> ab_bonus_action (c_budget b) = ab_bonus_action (c_budget a))
          \<and> (ab_spell_slot_used (c_budget b) \<longleftrightarrow> ab_spell_slot_used (c_budget a) \<or> 0 < sr_level rule)
          \<and> (\<forall>l. slot_left p l = (if 0 < sr_level rule \<and> l = slot_level then slot_left casting l - 1 else slot_left casting l))
          \<and> (0 < sr_level rule \<longrightarrow> 0 < slot_left casting slot_level))
     \<and> (\<forall>i v. actor_of r i = Some v \<longrightarrow> (\<exists>w. actor_of s i = Some w \<and> c_position w = c_position v \<and> c_loadout w = c_loadout v
          \<and> (i \<noteq> caster \<longrightarrow> c_budget w = c_budget v \<and> c_casting w = c_casting v)))
     \<and> da_target ` set (ev_damage ev) \<subseteq> set targets \<and> ha_target ` set (ev_healing ev) \<subseteq> set targets
     \<and> set (ev_deaths ev) \<subseteq> set targets \<and> (is_heal (sr_effect rule) \<longrightarrow> ev_damage ev = [])
     \<and> ev_spell_slots_consumed ev = (case c_character_id a of
          Some c \<Rightarrow> if 0 < sr_level rule then [\<lparr>sc_character = c, sc_level = SlotLevel slot_level\<rparr>] else []
        | None \<Rightarrow> [])"

lemma spend_slot_result:
  assumes b: "actor_of r caster = Some b" "c_casting b = Some p"
    and slot: "0 < sr_level rule \<Longrightarrow> table_get (cp_slots p) slot_level \<noteq> None"
  obtains p' ev' where "spend_slot caster rule slot_level ev r =
       (Ok ev', if sr_level rule = 0 then r else upd_actor caster (\<lambda>x. x\<lparr>c_casting := Some p'\<rparr>) r)"
    "p' = (if sr_level rule = 0 then p
       else p\<lparr>cp_slots := table_modify slot_level (\<lambda>s. s\<lparr>ss_remaining := unsigned_sub 8 (ss_remaining s) 1\<rparr>) (cp_slots p)\<rparr>)"
    "ev_damage ev' = ev_damage ev" "ev_healing ev' = ev_healing ev" "ev_deaths ev' = ev_deaths ev"
    "ev_spell_slots_consumed ev' = ev_spell_slots_consumed ev @ (case c_character_id b of
          Some c \<Rightarrow> if 0 < sr_level rule then [\<lparr>sc_character = c, sc_level = SlotLevel slot_level\<rparr>] else []
        | None \<Rightarrow> [])"
proof (cases "sr_level rule = 0")
  case True
  then show ?thesis by (intro that [of ev p]) (auto simp: spend_slot_def split: option.split)
next
  case False
  let ?p = "p\<lparr>cp_slots := table_modify slot_level (\<lambda>s. s\<lparr>ss_remaining := unsigned_sub 8 (ss_remaining s) 1\<rparr>) (cp_slots p)\<rparr>"
  let ?ev = "case c_character_id b of None \<Rightarrow> ev
     | Some c \<Rightarrow> ev\<lparr>ev_spell_slots_consumed := ev_spell_slots_consumed ev
         @ [\<lparr>sc_character = c, sc_level = SlotLevel slot_level\<rparr>]\<rparr>"
  obtain x where "table_get (cp_slots p) slot_level = Some x" using slot False by auto
  with False b show ?thesis
    by (intro that [of ?ev ?p]) (auto simp: spend_slot_def Let_def split: option.split)
qed

text \<open>The spell's run after its validation and payment.\<close>

lemma spell_run:
  assumes rr: "sampler_ok rr" and ok: "resolver_ok r"
    and legal: "spell_legal r caster spell_id targets slot_level a casting rule count"
    and paid: "cast_budget (c_budget a) rule = (Ok (), b')"
    and b': "if sr_bonus_action rule
             then ab_bonus_action (c_budget a) \<and> \<not> ab_bonus_action b' \<and> ab_action b' = ab_action (c_budget a)
             else ab_action (c_budget a) \<and> \<not> ab_action b' \<and> ab_bonus_action b' = ab_bonus_action (c_budget a)"
      "ab_spell_slot_used b' \<longleftrightarrow> ab_spell_slot_used (c_budget a) \<or> 0 < sr_level rule"
  obtains ev s where "resolve_spell rr caster spell_id targets slot_level r = (Ok ev, s)"
    "resolver_evolves r s" "spell_effect_on caster targets slot_level a casting rule r s ev"
proof -
  let ?r = "set_budget caster b' r"
  have l: "actor_of r caster = Some a" "c_casting a = Some casting" "targets \<noteq> []"
    "length targets = 1 \<or> length targets = count" "\<not> slot_rejected a casting rule slot_level"
    "spell_targets_check r a spell_id rule targets = Ok ()" "spell_rule_of spell_id = Some rule"
    using legal unfolding spell_legal_def by blast+
  have slot: "0 < sr_level rule \<Longrightarrow> 0 < slot_left casting slot_level" "slot_level \<le> 9"
    using l(5) by (auto simp: slot_rejected_def slot_left_def split: if_splits option.splits)
  have cp: "\<bar>cp_ability_modifier casting\<bar> \<le> 1000000"
    using resolver_okD(3) [OF ok l(1)] l(2) by (simp add: actor_ok_def)
  have present: "\<forall>i\<in>set targets. \<exists>v. actor_of ?r i = Some v"
    using spell_targets_check_Ok [OF l(6)] by fastforce
  have aim: "aimable (set targets) ?r" if nonheal: "\<not> is_heal (sr_effect rule)"
    unfolding aimable_def
  proof
    fix i assume "i \<in> set targets"
    then obtain v where v: "actor_of r i = Some v" "strikeable v"
      using spell_targets_check_Ok [OF l(6), of i] nonheal valid_victim_strikeable by auto
    moreover have "vitals_ok v" using resolver_okD(3) [OF ok v(1)] by (simp add: actor_ok_def)
    ultimately show "\<exists>a. actor_of ?r i = Some a \<and> vitals_ok a \<and> strikeable a"
      by (auto simp: strikeable_def)
  qed
  have caster': "actor_of ?r caster = Some (a\<lparr>c_budget := b'\<rparr>)" using l(1) by simp
  from spell_effects_settles [OF rr caster' present aim l(3,4) cp slot(2), where spell_id = spell_id and effect = "sr_effect rule"]
  obtain ev t where t: "spell_effects rr spell_id caster targets slot_level count (sr_effect rule) casting ?r = (Ok ev, t)"
      "resolver_hit ?r t" "spell_log (set targets) ev"
    by (auto simp: settles_def)
  obtain b where b: "actor_of t caster = Some b" "combatant_hit (a\<lparr>c_budget := b'\<rparr>) b"
    using resolver_hit_actor [OF t(2) caster'] by blast
  have bf: "c_casting b = Some casting" "c_budget b = b'" "c_character_id b = c_character_id a"
    using b(2) l(2) evolves_fields(2) [of "a\<lparr>c_budget := b'\<rparr>" b] by (simp_all add: combatant_hit_def)
  have some: "table_get (cp_slots casting) slot_level \<noteq> None" if "0 < sr_level rule"
    using slot(1) that by (auto simp: slot_left_def split: option.splits)
  obtain p' ev' where sp: "spend_slot caster rule slot_level ev t =
       (Ok ev', if sr_level rule = 0 then t else upd_actor caster (\<lambda>x. x\<lparr>c_casting := Some p'\<rparr>) t)"
    "p' = (if sr_level rule = 0 then casting
       else casting\<lparr>cp_slots := table_modify slot_level (\<lambda>s. s\<lparr>ss_remaining := unsigned_sub 8 (ss_remaining s) 1\<rparr>) (cp_slots casting)\<rparr>)"
    "ev_damage ev' = ev_damage ev" "ev_healing ev' = ev_healing ev" "ev_deaths ev' = ev_deaths ev"
    "ev_spell_slots_consumed ev' = ev_spell_slots_consumed ev @ (case c_character_id b of
          Some c \<Rightarrow> if 0 < sr_level rule then [\<lparr>sc_character = c, sc_level = SlotLevel slot_level\<rparr>] else []
        | None \<Rightarrow> [])"
    by (rule spend_slot_result [OF b(1) bf(1) some, where ev = ev]) blast+
  define s where "s = (if sr_level rule = 0 then t else upd_actor caster (\<lambda>x. x\<lparr>c_casting := Some p'\<rparr>) t)"
  have run: "resolve_spell rr caster spell_id targets slot_level r = (Ok ev', s)"
    using spell_check_Ok [of r caster spell_id targets slot_level a casting rule count] legal paid t(1) sp(1)
    by (simp add: resolve_spell_def s_def)
  have ts: "resolver_evolves t s"
  proof (cases "sr_level rule = 0")
    case True
    then show ?thesis by (simp add: s_def engine.refl)
  next
    case False
    have "resolver_evolves t (upd_actor caster (\<lambda>x. x\<lparr>c_casting := Some p'\<rparr>) t)"
      by (rule upd_actor_evolves) (use b(1) bf(1) sp(2) False casting_evolves in auto)
    then show ?thesis using False by (simp add: s_def)
  qed
  have rs: "resolver_evolves r s"
    using engine.trans [OF engine.trans [OF set_budget_evolves _] ts] t(2) by (auto simp: resolver_hit_def)
  have sb: "\<exists>b2. actor_of s caster = Some b2 \<and> c_casting b2 = Some p' \<and> c_budget b2 = b'"
    using b(1) bf sp(2) by (auto simp: s_def)
  have left: "slot_left p' l = (if 0 < sr_level rule \<and> l = slot_level then slot_left casting l - 1 else slot_left casting l)" for l
    using slot(1) by (auto simp: sp(2) slot_left_def split: option.splits)
  have others: "\<exists>w. actor_of s i = Some w \<and> c_position w = c_position v \<and> c_loadout w = c_loadout v
      \<and> (i \<noteq> caster \<longrightarrow> c_budget w = c_budget v \<and> c_casting w = c_casting v)" if v: "actor_of r i = Some v" for i v
  proof -
    define v0 where "v0 = (if i = caster then v\<lparr>c_budget := b'\<rparr> else v)"
    have v0: "actor_of ?r i = Some v0" using v by (auto simp: v0_def)
    obtain w where "actor_of t i = Some w" "combatant_hit v0 w" using resolver_hit_actor [OF t(2) v0] by blast
    then show ?thesis using v0_def by (auto simp: s_def combatant_hit_def)
  qed
  have order: "rs_order s = rs_order r" using t(2) by (simp add: s_def resolver_hit_def)
  have "spell_effect_on caster targets slot_level a casting rule r s ev'"
    unfolding spell_effect_on_def
    using order sb b' left slot(1) others t(3) sp(3-6) bf(3) spell_effects_heal [OF t(1)]
    by (auto simp: spell_log_def)
  with run rs show ?thesis by (rule that)
qed

lemma resolve_spell_cases:
  assumes rr: "sampler_ok rr" and ok: "resolver_ok r"
    and run: "resolve_spell rr caster spell_id targets slot_level r = (res, s)"
  shows "res \<noteq> Panic" "res = Err x \<Longrightarrow> s = r" "resolver_evolves r s"
    "res = Ok ev \<Longrightarrow> \<exists>a casting rule count. spell_legal r caster spell_id targets slot_level a casting rule count
       \<and> spell_effect_on caster targets slot_level a casting rule r s ev"
proof -
  have main: "res \<noteq> Panic \<and> (\<forall>x. res = Err x \<longrightarrow> s = r) \<and> resolver_evolves r s
    \<and> (\<forall>ev. res = Ok ev \<longrightarrow> (\<exists>a casting rule count. spell_legal r caster spell_id targets slot_level a casting rule count
       \<and> spell_effect_on caster targets slot_level a casting rule r s ev))"
  proof (cases "spell_check r caster spell_id targets slot_level")
    case (Ok q)
    obtain a casting rule count where q: "q = (a, casting, rule, count)" by (metis prod_cases4)
    then have legal: "spell_legal r caster spell_id targets slot_level a casting rule count"
      using Ok spell_check_Ok by blast
    show ?thesis
    proof (rule cast_budget_cases [of "c_budget a" rule])
      fix b' assume b': "cast_budget (c_budget a) rule = (Ok (), b')"
        "if sr_bonus_action rule
         then ab_bonus_action (c_budget a) \<and> \<not> ab_bonus_action b' \<and> ab_action b' = ab_action (c_budget a)
         else ab_action (c_budget a) \<and> \<not> ab_action b' \<and> ab_bonus_action b' = ab_bonus_action (c_budget a)"
        "ab_spell_slot_used b' = (ab_spell_slot_used (c_budget a) \<or> 0 < sr_level rule)"
      show ?thesis
        by (rule spell_run [OF rr ok legal b']) (use run legal in auto)
    next
      fix e b' assume "cast_budget (c_budget a) rule = (Err e, b')"
      then have "res = Err (economy_error e) \<and> s = r" using run Ok q by (simp add: resolve_spell_def)
      then show ?thesis by (simp add: engine.refl)
    qed
  next
    case (Err y)
    then have "res = Err y \<and> s = r" using run by (simp add: resolve_spell_def)
    then show ?thesis by (simp add: engine.refl)
  next
    case Panic
    with spell_check_no_panic [OF ok] show ?thesis by blast
  qed
  then show "res \<noteq> Panic" "res = Err x \<Longrightarrow> s = r" "resolver_evolves r s"
    "res = Ok ev \<Longrightarrow> \<exists>a casting rule count. spell_legal r caster spell_id targets slot_level a casting rule count
       \<and> spell_effect_on caster targets slot_level a casting rule r s ev" by blast+
qed

end
