(* ===== verification/Resolver.thy ===== *)
theory Resolver
  imports Spell_Resolution
begin

text \<open>
  The remaining actions of \<^verbatim>\<open>resolver.rs\<close> (retreat, cast, move, end of turn, the automatic turn of
  a creature) and the dispatcher \<open>resolve\<close>. The approach loop of a creature's turn is a function
  whose termination is proved from the movement each accepted step costs.
\<close>

section \<open>Single actions\<close>

definition resolve_retreat ::
  "combatant_id \<Rightarrow> 'g resolver \<Rightarrow> (validation_error, result_events) res \<times> 'g resolver" where
  "resolve_retreat i r =
     try_state (require_current r i) r (\<lambda>_.
     try_state (require_conscious r i) r (\<lambda>_.
     try_state (ok_or (actor_of r i) CombatantNotFound) r (\<lambda>a.
     try_state (reject_if (c_character_id a = None
        \<or> \<not> (case rs_map r of None \<Rightarrow> False | Some m \<Rightarrow> c_position a \<in> set (bm_exits m))) ExitRequired) r (\<lambda>_.
     and_then (spend_action CombatantNotFound i Action r) (\<lambda>_ r1. (Ok no_events, r1))))))"

definition resolve_cast ::
  "combatant_id \<Rightarrow> 'g resolver \<Rightarrow> (validation_error, result_events) res \<times> 'g resolver" where
  "resolve_cast i r =
     try_state (require_current r i) r (\<lambda>_.
     try_state (require_conscious r i) r (\<lambda>_.
     try_state (unwrap (actor_of r i)) r (\<lambda>a.
     try_state (reject_if (c_character_id a \<noteq> None) SpellUnavailable) r (\<lambda>_.
     and_then (spend_action CombatantNotFound i Action r) (\<lambda>_ r1. (Ok no_events, r1))))))"

text \<open>The cost of a move: five feet for each cell of the route, or the distance without a map.\<close>

definition move_cost :: "'g resolver \<Rightarrow> combatant_id \<Rightarrow> position \<Rightarrow> position \<Rightarrow> (validation_error, i32) res" where
  "move_cost r i start goal =
     (case rs_map r of
        None \<Rightarrow> Ok (distance_ft start goal)
      | Some m \<Rightarrow> bind_res (find_path m start goal (occupied r i)) (\<lambda>route.
          bind_res (ok_or route Obstructed) (\<lambda>cells. Ok (i32_mul (int (length cells)) 5))))"

definition resolve_move ::
  "combatant_id \<Rightarrow> position \<Rightarrow> 'g resolver \<Rightarrow> (validation_error, result_events) res \<times> 'g resolver" where
  "resolve_move i dest r =
     try_state (require_current r i) r (\<lambda>_.
     try_state (require_conscious r i) r (\<lambda>_.
     try_state (ok_or (actor_of r i) CombatantNotFound) r (\<lambda>a.
     try_state (reject_if (dest \<in> occupied r i) Obstructed) r (\<lambda>_.
     try_state (move_cost r i (c_position a) dest) r (\<lambda>feet.
       let (paid, b) = consume_movement_ft (c_budget a) feet; r1 = set_budget i b r
       in try_state (map_err economy_error paid) r1 (\<lambda>_.
          (Ok (no_events\<lparr>ev_movement := [\<lparr>me_combatant = i, me_from = c_position a, me_to = dest,
                 me_feet_used = feet\<rparr>]\<rparr>),
           upd_actor i (\<lambda>x. x\<lparr>c_position := dest\<rparr>) r1)))))))"

definition resolve_end_turn ::
  "'g sampler \<Rightarrow> combatant_id \<Rightarrow> 'g resolver \<Rightarrow> (validation_error, result_events) res \<times> 'g resolver" where
  "resolve_end_turn rr i r =
     try_state (require_current r i) r (\<lambda>_. begin_current_turn rr (advance_turn r))"

section \<open>The automatic turn\<close>

definition npc_target :: "'g resolver \<Rightarrow> position \<Rightarrow> combatant_id option" where
  "npc_target r origin =
     map_option c_id (min_by_key (\<lambda>t. (distance_ft origin (c_position t), c_id t))
       (filter standing_hero (table_values (rs_combatants r))))"

text \<open>The next cell of the approach, on a map and without one.\<close>

fun res_values :: "('e, 'a) res list \<Rightarrow> ('e, 'a list) res" where
  "res_values [] = Ok []"
| "res_values (x # xs) = bind_res x (\<lambda>v. bind_res (res_values xs) (\<lambda>vs. Ok (v # vs)))"

definition next_on_map ::
  "battle_map \<Rightarrow> position set \<Rightarrow> position \<Rightarrow> position \<Rightarrow> (validation_error, position option) res" where
  "next_on_map m occ current goal =
     bind_res (res_values (map (\<lambda>g. bind_res (find_path m current g occ) (\<lambda>route. Ok (g, route)))
        (filter (\<lambda>g. clear_line m g goal) (neighbors m goal)))) (\<lambda>routes.
     let found = List.map_filter (\<lambda>(g, route). map_option (\<lambda>cells. (g, cells)) route) routes;
         best = min_by_key (\<lambda>(g, cells). (length cells, pos_x g, pos_y g)) (filter (\<lambda>(g, cells). cells \<noteq> []) found)
     in Ok (case best of None \<Rightarrow> None | Some (g, cells) \<Rightarrow> Some (hd cells)))"

definition next_in_open :: "'g resolver \<Rightarrow> combatant_id \<Rightarrow> position \<Rightarrow> position \<Rightarrow> position option" where
  "next_in_open r i current goal =
     min_by_key (\<lambda>next. (distance_ft next goal, pos_x next, pos_y next))
       (filter (\<lambda>next. distance_ft next goal < distance_ft current goal
            \<and> \<not> (\<exists>other\<in>set (table_values (rs_combatants r)). c_id other \<noteq> i \<and> \<not> c_withdrawn other
                   \<and> c_current_hp other > 0 \<and> c_position other = next))
         (map (\<lambda>(x, y). at (i32_saturating_add (pos_x current) x) (i32_saturating_add (pos_y current) y)) offsets))"

definition next_step :: "'g resolver \<Rightarrow> combatant_id \<Rightarrow> position \<Rightarrow> position \<Rightarrow> (validation_error, position option) res" where
  "next_step r i current goal =
     (case rs_map r of
        Some m \<Rightarrow> next_on_map m (occupied r i) current goal
      | None \<Rightarrow> Ok (next_in_open r i current goal))"

section \<open>Every accepted step costs movement\<close>

lemma distance_ft_pos: "p \<noteq> q \<Longrightarrow> 5 \<le> distance_ft p q"
proof -
  assume ne: "p \<noteq> q"
  then have "1 \<le> \<bar>pos_x p - pos_x q\<bar> \<or> 1 \<le> \<bar>pos_y p - pos_y q\<bar>" by (cases p; cases q) auto
  then have "1 \<le> chebyshev p q" unfolding chebyshev_def abs_diff_def by linarith
  then show ?thesis unfolding distance_ft_def i32_saturating_mul_def sat32_def by linarith
qed

lemma neighbors_ne:
  assumes "valid_map m" "walkable m p" "q \<in> set (neighbors m p)"
  shows "q \<noteq> p"
proof
  assume q: "q = p"
  have small: "0 \<le> pos_x p" "pos_x p < 128" "0 \<le> pos_y p" "pos_y p < 128"
    using inside_small [of m p] assms(1,2) by (auto simp: walkable_def)
  from assms(3) [unfolded neighbors_iff q] obtain dx dy where
    d: "(dx, dy) \<in> set offsets" "p = at (i32_saturating_add (pos_x p) dx) (i32_saturating_add (pos_y p) dy)" by blast
  from d(1) have dd: "dx \<in> {-1, 0, 1}" "dy \<in> {-1, 0, 1}" "dx \<noteq> 0 \<or> dy \<noteq> 0" by (simp_all add: set_offsets)
  have "i32_saturating_add (pos_x p) dx = pos_x p + dx" "i32_saturating_add (pos_y p) dy = pos_y p + dy"
    using small dd by (auto simp: i32_saturating_add_def sat32_def)
  then have "pos_x p = pos_x p + dx" "pos_y p = pos_y p + dy"
    using arg_cong [OF d(2), of pos_x] arg_cong [OF d(2), of pos_y] by simp_all
  with dd(3) show False by simp
qed

lemma res_values_Ok: "res_values xs = Ok vs \<longleftrightarrow> map Ok vs = xs"
  by (induction xs arbitrary: vs) (auto simp: bind_res_Ok Cons_eq_map_conv)

lemma next_on_map_step:
  assumes "next_on_map m occ current goal = Ok (Some next)"
  shows "valid_map m \<and> walkable m current \<and> next \<in> set (neighbors m current) \<and> next \<notin> occ"
proof -
  let ?gs = "filter (\<lambda>g. clear_line m g goal) (neighbors m goal)"
  obtain routes where r: "res_values (map (\<lambda>g. bind_res (find_path m current g occ) (\<lambda>route. Ok (g, route))) ?gs)
      = (Ok routes :: (validation_error, _) res)"
    using assms by (auto simp: next_on_map_def bind_res_Ok)
  define found where "found = List.map_filter (\<lambda>(g, route). map_option (\<lambda>cells. (g, cells)) route) routes"
  from assms r obtain g cells where b: "min_by_key (\<lambda>(g, cells). (length cells, pos_x g, pos_y g))
      (filter (\<lambda>(g, cells). cells \<noteq> []) found) = Some (g, cells)" "next = hd cells"
    by (auto simp: next_on_map_def found_def split: option.splits)
  from min_by_key_mem [OF b(1)] have mem: "(g, cells) \<in> set found" "cells \<noteq> []" by auto
  from mem(1) have "(g, Some cells) \<in> set routes" by (auto simp: found_def set_map_filter)
  then have "(Ok (g, Some cells) :: (validation_error, _) res) \<in> set (map Ok routes)" by simp
  then have "(find_path m current g occ :: (validation_error, _) res) = Ok (Some cells)"
    using r [unfolded res_values_Ok] by (auto simp: bind_res_Ok dest!: sym [of "Ok (g, Some cells)"])
  from find_path_Some [OF this] mem(2) b(2) show ?thesis by (cases cells) auto
qed

lemma next_step_ne: "next_step r i current goal = Ok (Some next) \<Longrightarrow> next \<noteq> current"
proof (cases "rs_map r")
  case None
  assume "next_step r i current goal = Ok (Some next)"
  with None have "min_by_key (\<lambda>next. (distance_ft next goal, pos_x next, pos_y next))
       (filter (\<lambda>next. distance_ft next goal < distance_ft current goal
            \<and> \<not> (\<exists>other\<in>set (table_values (rs_combatants r)). c_id other \<noteq> i \<and> \<not> c_withdrawn other
                   \<and> c_current_hp other > 0 \<and> c_position other = next))
         (map (\<lambda>(x, y). at (i32_saturating_add (pos_x current) x) (i32_saturating_add (pos_y current) y)) offsets))
       = Some next" by (simp add: next_step_def next_in_open_def)
  from min_by_key_mem [OF this] show ?thesis by auto
next
  case (Some m)
  assume "next_step r i current goal = Ok (Some next)"
  with Some have "next_on_map m (occupied r i) current goal = Ok (Some next)" by (simp add: next_step_def)
  from next_on_map_step [OF this] show ?thesis using neighbors_ne by blast
qed

lemma move_cost_pos:
  assumes "move_cost r i start goal = Ok feet" "start \<noteq> goal"
  shows "5 \<le> feet"
proof (cases "rs_map r")
  case None
  then show ?thesis using assms(1) distance_ft_pos [OF assms(2)] by (simp add: move_cost_def)
next
  case (Some m)
  then obtain cells where c: "(find_path m start goal (occupied r i) :: (validation_error, _) res) = Ok (Some cells)"
    "feet = i32_mul (int (length cells)) 5" using assms(1) by (auto simp: move_cost_def bind_res_Ok)
  note p = find_path_Some [OF c(1)]
  have "length cells \<le> 128 * 128"
    using p mult_le_mono [of "bm_width m" 128 "bm_height m" 128] by (auto simp: valid_map_def)
  moreover have "1 \<le> length cells" using p assms(2) by (cases cells) auto
  ultimately show ?thesis by (simp add: c(2) i32_mul_def wrap32_id in_i32_def)
qed

lemma resolve_move_Ok:
  assumes "resolve_move i dest r = (Ok ev, s)"
  obtains a feet where "require_current r i = Ok ()" "actor_of r i = Some a" "can_act a" "dest \<notin> occupied r i"
    "move_cost r i (c_position a) dest = Ok feet" "feet \<le> ab_movement_ft (c_budget a)"
    "ev = no_events\<lparr>ev_movement := [\<lparr>me_combatant = i, me_from = c_position a, me_to = dest, me_feet_used = feet\<rparr>]\<rparr>"
    "s = upd_actor i (\<lambda>x. x\<lparr>c_position := dest\<rparr>)
       (set_budget i ((c_budget a)\<lparr>ab_movement_ft := i32_sub (ab_movement_ft (c_budget a)) feet\<rparr>) r)"
  using assms
  by (auto simp: resolve_move_def consume_movement_ft_def Let_def try_state_def require_conscious_Ok
      split: res.splits if_splits option.splits)

lemma i32_sub_less: "0 < f \<Longrightarrow> f \<le> x \<Longrightarrow> i32_sub x f < x"
proof -
  assume f: "0 < f" "f \<le> x"
  show "i32_sub x f < x"
  proof (cases "x \<le> i32_max")
    case True
    with f show ?thesis by (simp add: i32_sub_def wrap32_id in_i32_def)
  next
    case False
    with wrap32_range(2) [of "x - f"] show ?thesis by (simp add: i32_sub_def)
  qed
qed

definition movement_left :: "'g resolver \<Rightarrow> combatant_id \<Rightarrow> nat" where
  "movement_left r i = (case actor_of r i of None \<Rightarrow> 0 | Some a \<Rightarrow> nat (ab_movement_ft (c_budget a)))"

lemma approach_decreases:
  assumes a: "actor_of r i = Some a" and mv: "\<not> ab_movement_ft (c_budget a) < 5"
    and step: "next_step r i (c_position a) goal = Ok (Some next)"
    and move: "resolve_move i next r = (Ok ev, s)"
  shows "movement_left s i < movement_left r i"
proof (rule resolve_move_Ok [OF move])
  fix b feet
  assume b: "actor_of r i = Some b" and c: "move_cost r i (c_position b) next = Ok feet"
    and f: "feet \<le> ab_movement_ft (c_budget b)"
    and s: "s = upd_actor i (\<lambda>x. x\<lparr>c_position := next\<rparr>)
       (set_budget i ((c_budget b)\<lparr>ab_movement_ft := i32_sub (ab_movement_ft (c_budget b)) feet\<rparr>) r)"
  have "5 \<le> feet" by (rule move_cost_pos [OF c]) (use next_step_ne [OF step] a b in auto)
  then have "i32_sub (ab_movement_ft (c_budget a)) feet < ab_movement_ft (c_budget a)"
    using i32_sub_less f a b by auto
  with a b s mv show ?thesis by (simp add: movement_left_def)
qed

lemma try_state_cong [fundef_cong]:
  "p = q \<Longrightarrow> s = t \<Longrightarrow> (\<And>x. q = Ok x \<Longrightarrow> k x = l x) \<Longrightarrow> try_state p s k = try_state q t l"
  by (cases q) simp_all

lemma and_then_cong [fundef_cong]:
  "m = n \<Longrightarrow> (\<And>x t. n = (Ok x, t) \<Longrightarrow> k x t = l x t) \<Longrightarrow> and_then m k = and_then n l"
  by (cases n; cases "fst n") simp_all

function approach ::
  "combatant_id \<Rightarrow> combatant_id \<Rightarrow> result_events \<Rightarrow> 'g resolver \<Rightarrow> (validation_error, result_events) res \<times> 'g resolver" where
  "approach i target ev r =
     try_state (unwrap (actor_of r i)) r (\<lambda>a.
     try_state (unwrap (actor_of r target)) r (\<lambda>t.
     if distance_ft (c_position a) (c_position t) \<le> 5 \<and> clear_between r (c_position a) (c_position t)
        \<or> ab_movement_ft (c_budget a) < 5
     then (Ok ev, r)
     else
       try_state (next_step r i (c_position a) (c_position t)) r (\<lambda>next.
       case next of
         None \<Rightarrow> (Ok ev, r)
       | Some cell \<Rightarrow> and_then (resolve_move i cell r) (\<lambda>mv s. approach i target (append_events ev mv) s))))"
  by pat_completeness auto
termination
  by (relation "measure (\<lambda>(i, target, ev, r). movement_left r i)") (auto intro: approach_decreases)

declare approach.simps [simp del]

definition resolve_npc_turn ::
  "'g sampler \<Rightarrow> combatant_id \<Rightarrow> 'g resolver \<Rightarrow> (validation_error, result_events) res \<times> 'g resolver" where
  "resolve_npc_turn rr i r =
     try_state (require_current r i) r (\<lambda>_.
     try_state (ok_or (actor_of r i) CombatantNotFound) r (\<lambda>a.
     try_state (reject_if (c_character_id a \<noteq> None \<or> c_loadout a = None) WeaponUnavailable) r (\<lambda>_.
     and_then
       (case (if c_current_hp a > 0 \<and> \<not> c_is_dead a \<and> \<not> has_condition a Unconscious
              then npc_target r (c_position a) else None) of
          None \<Rightarrow> (Ok no_events, r)
        | Some target \<Rightarrow>
            and_then (approach i target no_events r) (\<lambda>ev r1.
            try_state (unwrap (actor_of r1 i)) r1 (\<lambda>a1.
            try_state (unwrap (actor_of r1 target)) r1 (\<lambda>t1.
            if distance_ft (c_position a1) (c_position t1) \<le> 5 \<and> ab_action (c_budget a1)
               \<and> clear_between r1 (c_position a1) (c_position t1)
            then and_then (resolve_weapon_attack rr i target None DefaultMode False r1)
                   (\<lambda>hit r2. (Ok (append_events ev hit), r2))
            else (Ok ev, r1)))))
       (\<lambda>ev r3. and_then (resolve_end_turn rr i r3) (\<lambda>fin r4. (Ok (append_events ev fin), r4))))))"

section \<open>The dispatcher\<close>

fun resolve ::
  "'g sampler \<Rightarrow> combat_action \<Rightarrow> 'g resolver \<Rightarrow> (validation_error, result_events) res \<times> 'g resolver" where
  "resolve rr act r =
     (if order_is_empty (rs_order r) then (Err InvalidEncounter, r)
      else case act of
        Retreat i \<Rightarrow> resolve_retreat i r
      | Spell caster spell_id targets slot_level \<Rightarrow> resolve_spell rr caster spell_id targets slot_level r
      | NpcTurn i \<Rightarrow> resolve_npc_turn rr i r
      | WeaponAttack attacker target weapon_id mode two_handed \<Rightarrow>
          resolve_weapon_attack rr attacker target weapon_id mode two_handed r
      | Attack attacker target m expr dt \<Rightarrow>
          (if (case actor_of r attacker of None \<Rightarrow> False
               | Some a \<Rightarrow> c_loadout a \<noteq> None \<or> c_character_id a \<noteq> None)
           then resolve_weapon_attack rr attacker target None DefaultMode False r
           else resolve_attack rr attacker target m expr dt Normal r)
      | Cast i \<Rightarrow> resolve_cast i r
      | Move i dest \<Rightarrow> resolve_move i dest r
      | EndTurn i \<Rightarrow> resolve_end_turn rr i r)"

declare resolve.simps [simp del]

section \<open>Moves, retreats and casts\<close>

lemma budget_action_cases:
  assumes ok: "resolver_ok r" and run: "and_then (spend_action e i Action r) (\<lambda>_ r1. (Ok no_events, r1)) = (res, s)"
  shows "res \<noteq> Panic" "res = Err x \<Longrightarrow> s = r" "resolver_evolves r s"
    "res = Ok ev \<Longrightarrow> \<exists>a. actor_of r i = Some a \<and> ab_action (c_budget a) \<and> ev = no_events
       \<and> s = set_budget i ((c_budget a)\<lparr>ab_action := False\<rparr>) r"
proof -
  obtain p s1 where sp: "spend_action e i Action r = (p, s1)" by fastforce
  have evo: "resolver_evolves r s1" using spend_action_evolves [of r e i Action] sp by simp
  have np: "p \<noteq> Panic" using spend_action_no_panic [of e i Action r] sp by simp
  have main: "res \<noteq> Panic \<and> (\<forall>x. res = Err x \<longrightarrow> s = r) \<and> resolver_evolves r s \<and> (\<forall>ev. res = Ok ev \<longrightarrow>
     (\<exists>a. actor_of r i = Some a \<and> ab_action (c_budget a) \<and> ev = no_events
       \<and> s = set_budget i ((c_budget a)\<lparr>ab_action := False\<rparr>) r))"
  proof (cases p)
    case (Ok u)
    with run sp have rs: "res = Ok no_events" "s = s1" by simp_all
    obtain a where "actor_of r i = Some a" "ab_action (c_budget a)" "s1 = set_budget i ((c_budget a)\<lparr>ab_action := False\<rparr>) r"
      by (rule spend_action_Ok [OF sp [unfolded Ok]])
    with rs evo show ?thesis by auto
  next
    case (Err y)
    with spend_action_Err [OF resolver_okD(1) [OF ok]] sp have "s1 = r" by blast
    with run sp Err show ?thesis by (auto simp: engine.refl)
  next
    case Panic
    with np show ?thesis by blast
  qed
  then show "res \<noteq> Panic" "res = Err x \<Longrightarrow> s = r" "resolver_evolves r s"
    "res = Ok ev \<Longrightarrow> \<exists>a. actor_of r i = Some a \<and> ab_action (c_budget a) \<and> ev = no_events
       \<and> s = set_budget i ((c_budget a)\<lparr>ab_action := False\<rparr>) r" by blast+
qed

text \<open>The contract of a handler: no panic, nothing changed on an error, and an evolved resolver.\<close>

definition handled :: "'g resolver \<Rightarrow> (validation_error, result_events) res \<times> 'g resolver \<Rightarrow> bool" where
  "handled r m \<longleftrightarrow> fst m \<noteq> Panic \<and> (\<forall>x. fst m = Err x \<longrightarrow> snd m = r) \<and> resolver_evolves r (snd m)"

lemma handled_try:
  "p \<noteq> Panic \<Longrightarrow> (\<And>x. p = Ok x \<Longrightarrow> handled r (k x)) \<Longrightarrow> handled r (try_state p r k)"
  by (cases p) (simp_all add: handled_def engine.refl)

lemma handled_spend:
  assumes "resolver_ok r"
  shows "handled r (and_then (spend_action e i Action r) (\<lambda>_ r1. (Ok no_events, r1)))"
proof -
  obtain res s where m: "and_then (spend_action e i Action r) (\<lambda>_ r1. (Ok no_events, r1)) = (res, s)" by fastforce
  show ?thesis unfolding handled_def m using budget_action_cases(1-3) [OF assms m] by simp
qed

lemma handled_retreat: "resolver_ok r \<Longrightarrow> handled r (resolve_retreat i r)"
  unfolding resolve_retreat_def
  by (intro handled_try handled_spend) (simp_all add: require_no_panic)

lemma handled_cast:
  assumes "resolver_ok r"
  shows "handled r (resolve_cast i r)"
proof (cases "actor_of r i")
  case None
  then have "require_conscious r i = Err CombatantNotFound" by (simp add: require_conscious_def)
  then show ?thesis
    unfolding resolve_cast_def
    by (intro handled_try) (simp_all add: require_no_panic assms)
next
  case (Some a)
  then show ?thesis
    unfolding resolve_cast_def
    by (intro handled_try handled_spend) (simp_all add: require_no_panic assms)
qed

lemma move_cost_no_panic: "move_cost r i p q \<noteq> Panic"
proof (cases "rs_map r")
  case (Some m)
  obtain x where "(find_path m p q (occupied r i) :: (validation_error, _) res) = Ok x" using find_path_total by blast
  with Some show ?thesis by (simp add: move_cost_def bind_res_Panic)
qed (simp add: move_cost_def)

lemma handled_move:
  assumes ok: "resolver_ok r"
  shows "handled r (resolve_move i dest r)"
  unfolding resolve_move_def
proof (intro handled_try)
  fix a feet assume a: "ok_or (actor_of r i) CombatantNotFound = (Ok a :: (validation_error, _) res)"
  then have ac: "actor_of r i = Some a" by simp
  show "handled r (let (paid, b) = consume_movement_ft (c_budget a) feet; r1 = set_budget i b r
       in try_state (map_err economy_error paid) r1 (\<lambda>_.
          (Ok (no_events\<lparr>ev_movement := [\<lparr>me_combatant = i, me_from = c_position a, me_to = dest,
                 me_feet_used = feet\<rparr>]\<rparr>),
           upd_actor i (\<lambda>x. x\<lparr>c_position := dest\<rparr>) r1)))"
  proof (cases "ab_movement_ft (c_budget a) < feet")
    case True
    have "set_budget i (c_budget a) r = r"
      unfolding set_budget_def by (rule upd_actor_same [OF resolver_okD(1) [OF ok]]) (use ac in simp)
    with True show ?thesis by (simp add: consume_movement_ft_def handled_def engine.refl)
  next
    case False
    have "resolver_evolves r (upd_actor i (\<lambda>x. x\<lparr>c_position := dest\<rparr>) (set_budget i b r))" for b
      by (rule engine.trans [OF set_budget_evolves upd_actor_evolves]) (rule position_evolves)
    with False show ?thesis by (simp add: consume_movement_ft_def handled_def)
  qed
qed (simp_all add: require_no_panic ok move_cost_no_panic)

lemma begin_current_turn_handled: "resolver_ok r \<Longrightarrow> \<exists>ev. fst (begin_current_turn rr r) = Ok ev"
  using begin_current_turn_cases(1) [of r rr] by (metis prod.collapse)

lemma advance_ok: "resolver_ok r \<Longrightarrow> resolver_ok (advance_turn r)"
  by (rule resolver_evolves_ok [OF advance_evolves])

lemma handled_end_turn:
  assumes "resolver_ok r"
  shows "handled r (resolve_end_turn rr i r)"
  unfolding resolve_end_turn_def
proof (intro handled_try)
  obtain ev where "fst (begin_current_turn rr (advance_turn r)) = Ok ev"
    using begin_current_turn_handled [OF advance_ok [OF assms]] by blast
  then show "handled r (begin_current_turn rr (advance_turn r))"
    using engine.trans [OF advance_evolves begin_current_turn_evolves] by (simp add: handled_def)
qed (simp add: require_no_panic assms)

lemma handled_weapon:
  "sampler_ok rr \<Longrightarrow> resolver_ok r \<Longrightarrow> handled r (resolve_weapon_attack rr attacker target weapon_id mode0 two_handed r)"
  unfolding handled_def using resolve_weapon_attack_cases by (metis prod.collapse)

lemma handled_attack:
  "sampler_ok rr \<Longrightarrow> resolver_ok r \<Longrightarrow> handled r (resolve_attack rr attacker target m expr dt adv r)"
  unfolding handled_def using resolve_attack_cases by (metis prod.collapse)

lemma handled_spell:
  "sampler_ok rr \<Longrightarrow> resolver_ok r \<Longrightarrow> handled r (resolve_spell rr caster spell_id targets slot_level r)"
  unfolding handled_def using resolve_spell_cases by (metis prod.collapse)

section \<open>The automatic turn\<close>

lemma next_step_no_panic: "next_step r i p q \<noteq> Panic"
proof -
  have "res_values (map (\<lambda>g. bind_res (find_path m p g occ) (\<lambda>route. Ok (g, route))) gs)
      \<noteq> (Panic :: (validation_error, _) res)" for m occ and gs :: "position list"
  proof (induction gs)
    case (Cons g gs)
    obtain x where "(find_path m p g occ :: (validation_error, _) res) = Ok x" using find_path_total by blast
    with Cons show ?case by (auto simp: bind_res_Panic)
  qed simp
  then show ?thesis by (auto simp: next_step_def next_on_map_def bind_res_Panic Let_def split: option.splits)
qed

text \<open>Without a claim on the state an error leaves.\<close>

definition safe :: "'g resolver \<Rightarrow> (validation_error, result_events) res \<times> 'g resolver \<Rightarrow> bool" where
  "safe r m \<longleftrightarrow> fst m \<noteq> Panic \<and> resolver_evolves r (snd m)"

lemma safe_try: "p \<noteq> Panic \<Longrightarrow> (\<And>x. p = Ok x \<Longrightarrow> safe r (k x)) \<Longrightarrow> safe r (try_state p r k)"
  by (cases p) (simp_all add: safe_def engine.refl)

lemma safe_then: "safe r m \<Longrightarrow> (\<And>x s. m = (Ok x, s) \<Longrightarrow> resolver_evolves r s \<Longrightarrow> safe s (k x s)) \<Longrightarrow> safe r (and_then m k)"
  by (cases m; cases "fst m") (auto simp: safe_def intro: engine.trans)

lemma safe_return: "resolver_evolves r s \<Longrightarrow> safe r (Ok ev, s)"
  by (simp add: safe_def)

lemma handled_safe: "handled r m \<Longrightarrow> safe r m"
  by (simp add: handled_def safe_def)

lemma approach_safe:
  assumes "resolver_ok r" "actor_of r i \<noteq> None" "actor_of r target \<noteq> None"
  shows "safe r (approach i target ev r)"
  using assms
proof (induction i target ev r rule: approach.induct)
  case (1 i target ev r)
  obtain a t where at: "actor_of r i = Some a" "actor_of r target = Some t" using 1(3,4) by auto
  show ?case
  proof (subst approach.simps, simp only: at unwrap_simps try_state_simps, cases "distance_ft (c_position a) (c_position t) \<le> 5
      \<and> clear_between r (c_position a) (c_position t) \<or> ab_movement_ft (c_budget a) < 5")
    case False
    have "safe r (try_state (next_step r i (c_position a) (c_position t)) r (\<lambda>next.
       case next of None \<Rightarrow> (Ok ev, r)
       | Some cell \<Rightarrow> and_then (resolve_move i cell r) (\<lambda>mv s. approach i target (append_events ev mv) s)))"
    proof (rule safe_try [OF next_step_no_panic])
      fix nx assume n: "next_step r i (c_position a) (c_position t) = Ok nx"
      show "safe r (case nx of None \<Rightarrow> (Ok ev, r)
       | Some cell \<Rightarrow> and_then (resolve_move i cell r) (\<lambda>mv s. approach i target (append_events ev mv) s))"
      proof (cases nx)
        case None
        then show ?thesis by (simp add: safe_return engine.refl)
      next
        case (Some cell)
        have "safe r (and_then (resolve_move i cell r) (\<lambda>mv s. approach i target (append_events ev mv) s))"
        proof (rule safe_then [OF handled_safe [OF handled_move [OF 1(2)]]])
          fix mv s assume m: "resolve_move i cell r = (Ok mv, s)" and e: "resolver_evolves r s"
          show "safe s (approach i target (append_events ev mv) s)"
            using 1(1) [of a t nx cell mv s] at False n Some m resolver_evolves_ok [OF e 1(2)] evolved_none [OF e] 1(3,4)
            by simp
        qed
        with Some show ?thesis by simp
      qed
    qed
    with False show "safe r (if distance_ft (c_position a) (c_position t) \<le> 5 \<and> clear_between r (c_position a) (c_position t)
        \<or> ab_movement_ft (c_budget a) < 5 then (Ok ev, r)
       else try_state (next_step r i (c_position a) (c_position t)) r (\<lambda>next.
       case next of None \<Rightarrow> (Ok ev, r)
       | Some cell \<Rightarrow> and_then (resolve_move i cell r) (\<lambda>mv s. approach i target (append_events ev mv) s)))"
      by (simp only: if_False)
  qed (simp_all only: if_True safe_return engine.refl)
qed

lemma approach_Ok_cases:
  assumes "approach i target ev r = (Ok ev', s)"
  obtains (stop) "ev' = ev" "s = r"
  | (walk) a t cell mv r1 where "actor_of r i = Some a" "actor_of r target = Some t"
      "\<not> (distance_ft (c_position a) (c_position t) \<le> 5 \<and> clear_between r (c_position a) (c_position t)
          \<or> ab_movement_ft (c_budget a) < 5)"
      "next_step r i (c_position a) (c_position t) = Ok (Some cell)" "resolve_move i cell r = (Ok mv, r1)"
      "approach i target (append_events ev mv) r1 = (Ok ev', s)"
  using assms by (subst (asm) approach.simps) (auto simp: run_Ok split: if_splits option.splits)

lemma npc_target_present:
  assumes "resolver_ok r" "npc_target r p = Some target"
  shows "\<exists>t. actor_of r target = Some t \<and> standing_hero t"
proof -
  from assms(2) obtain t where t: "min_by_key (\<lambda>t. (distance_ft p (c_position t), c_id t))
      (filter standing_hero (table_values (rs_combatants r))) = Some t" "target = c_id t"
    by (auto simp: npc_target_def)
  from min_by_key_mem [OF t(1)] have m: "t \<in> set (table_values (rs_combatants r))" "standing_hero t" by auto
  then obtain k where "actor_of r k = Some t" using actors_in_roster [OF assms(1)] by blast
  with resolver_okD(2) [OF assms(1)] t(2) m(2) show ?thesis by metis
qed

lemma npc_turn_safe:
  assumes rr: "sampler_ok rr" and ok: "resolver_ok r"
  shows "safe r (resolve_npc_turn rr i r)"
  unfolding resolve_npc_turn_def
proof (intro safe_try safe_then)
  fix a assume "ok_or (actor_of r i) CombatantNotFound = (Ok a :: (validation_error, _) res)"
  then have a: "actor_of r i = Some a" by simp
  let ?pick = "if c_current_hp a > 0 \<and> \<not> c_is_dead a \<and> \<not> has_condition a Unconscious
              then npc_target r (c_position a) else None"
  show "safe r (case ?pick of None \<Rightarrow> (Ok no_events, r)
        | Some target \<Rightarrow>
            and_then (approach i target no_events r) (\<lambda>ev r1.
            try_state (unwrap (actor_of r1 i)) r1 (\<lambda>a1.
            try_state (unwrap (actor_of r1 target)) r1 (\<lambda>t1.
            if distance_ft (c_position a1) (c_position t1) \<le> 5 \<and> ab_action (c_budget a1)
               \<and> clear_between r1 (c_position a1) (c_position t1)
            then and_then (resolve_weapon_attack rr i target None DefaultMode False r1)
                   (\<lambda>hit r2. (Ok (append_events ev hit), r2))
            else (Ok ev, r1)))))"
  proof (cases ?pick)
    case None
    then show ?thesis by (simp add: safe_return engine.refl)
  next
    case (Some target)
    then have "npc_target r (c_position a) = Some target" by (metis option.distinct(1))
    then obtain t where t: "actor_of r target = Some t" using npc_target_present [OF ok] by blast
    have "safe r (and_then (approach i target no_events r) (\<lambda>ev r1.
            try_state (unwrap (actor_of r1 i)) r1 (\<lambda>a1.
            try_state (unwrap (actor_of r1 target)) r1 (\<lambda>t1.
            if distance_ft (c_position a1) (c_position t1) \<le> 5 \<and> ab_action (c_budget a1)
               \<and> clear_between r1 (c_position a1) (c_position t1)
            then and_then (resolve_weapon_attack rr i target None DefaultMode False r1)
                   (\<lambda>hit r2. (Ok (append_events ev hit), r2))
            else (Ok ev, r1)))))"
    proof (rule safe_then [OF approach_safe [OF ok]])
      fix ev r1 assume e: "resolver_evolves r r1"
      note ok1 = resolver_evolves_ok [OF e ok]
      show "safe r1 (try_state (unwrap (actor_of r1 i)) r1 (\<lambda>a1.
            try_state (unwrap (actor_of r1 target)) r1 (\<lambda>t1.
            if distance_ft (c_position a1) (c_position t1) \<le> 5 \<and> ab_action (c_budget a1)
               \<and> clear_between r1 (c_position a1) (c_position t1)
            then and_then (resolve_weapon_attack rr i target None DefaultMode False r1)
                   (\<lambda>hit r2. (Ok (append_events ev hit), r2))
            else (Ok ev, r1))))"
        using evolved_none [OF e] a t
        by (auto intro!: safe_try safe_return safe_then [OF handled_safe [OF handled_weapon [OF rr ok1]]] engine.refl)
    qed (use a t in simp_all)
    with Some show ?thesis by simp
  qed
next
  fix ev s assume "resolver_evolves r s"
  then have "resolver_ok s" using resolver_evolves_ok ok by blast
  then show "safe s (resolve_end_turn rr i s)" by (rule handled_safe [OF handled_end_turn])
qed (simp_all add: require_no_panic ok safe_return engine.refl)

section \<open>Any action\<close>

fun action_actor :: "combat_action \<Rightarrow> combatant_id" where
  "action_actor (Retreat i) = i"
| "action_actor (Spell i _ _ _) = i"
| "action_actor (NpcTurn i) = i"
| "action_actor (WeaponAttack i _ _ _ _) = i"
| "action_actor (Attack i _ _ _ _) = i"
| "action_actor (Cast i) = i"
| "action_actor (Move i _) = i"
| "action_actor (EndTurn i) = i"

fun is_npc_turn :: "combat_action \<Rightarrow> bool" where
  "is_npc_turn (NpcTurn _) = True"
| "is_npc_turn _ = False"

text \<open>The actions that leave the turn to their actor.\<close>

fun keeps_turn :: "combat_action \<Rightarrow> bool" where
  "keeps_turn (NpcTurn _) = False"
| "keeps_turn (EndTurn _) = False"
| "keeps_turn _ = True"

lemma handled_refuse: "handled r (Err e, r)"
  by (simp add: handled_def engine.refl)

lemma resolve_handled:
  assumes "sampler_ok rr" "resolver_ok r" "\<not> is_npc_turn act"
  shows "handled r (resolve rr act r)"
  using assms
  by (cases act) (auto simp: resolve.simps handled_refuse handled_retreat handled_cast handled_move
      handled_end_turn handled_weapon handled_attack handled_spell)

lemma resolve_safe:
  assumes "sampler_ok rr" "resolver_ok r"
  shows "safe r (resolve rr act r)"
proof (cases "is_npc_turn act")
  case True
  then obtain i where "act = NpcTurn i" by (cases act) auto
  with npc_turn_safe [OF assms] show ?thesis by (simp add: resolve.simps safe_def engine.refl)
next
  case False
  with resolve_handled assms handled_safe show ?thesis by blast
qed

lemma weapon_effect_actor:
  assumes "weapon_effect attacker target weapon_id mode0 two_handed r s ev"
  shows "rs_order s = rs_order r" "require_current r attacker = Ok ()"
    "\<exists>a b. actor_of r attacker = Some a \<and> can_act a \<and> ab_action (c_budget a)
       \<and> actor_of s attacker = Some b \<and> \<not> ab_action (c_budget b)"
  using assms unfolding weapon_effect_def attack_effect_def
  by (auto simp: weapon_target_check_Ok)

lemma attack_effect_current:
  assumes "attack_effect attacker target m adv r s ev"
  shows "require_current r attacker = Ok ()" "\<exists>a. actor_of r attacker = Some a \<and> can_act a"
  using assms unfolding attack_effect_def by (auto simp: require_current_Ok can_act_def)

text \<open>What an accepted action of the player tells about its actor.\<close>

lemma resolve_actor:
  assumes rr: "sampler_ok rr" and ok: "resolver_ok r" and run: "resolve rr act r = (Ok ev, s)"
  shows "require_current r (action_actor act) = Ok ()"
    and "keeps_turn act \<Longrightarrow> (\<exists>a. actor_of r (action_actor act) = Some a \<and> can_act a) \<and> rs_order s = rs_order r"
proof -
  have ne: "\<not> order_is_empty (rs_order r)" using run by (auto simp: resolve.simps split: if_splits)
  have "require_current r (action_actor act) = Ok () \<and> (keeps_turn act \<longrightarrow>
     (\<exists>a. actor_of r (action_actor act) = Some a \<and> can_act a) \<and> rs_order s = rs_order r)"
  proof (cases act)
    case (Retreat i)
    with run ne have r: "resolve_retreat i r = (Ok ev, s)" by (simp add: resolve.simps)
    then have "require_current r i = Ok ()" "\<exists>a. actor_of r i = Some a \<and> can_act a"
      by (auto simp: resolve_retreat_def require_conscious_Ok try_state_def split: res.splits)
    moreover have "rs_order s = rs_order r"
      using r budget_action_cases(4) [OF ok, of CombatantNotFound i "Ok ev" s ev]
      by (auto simp: resolve_retreat_def try_state_def split: res.splits)
    ultimately show ?thesis using Retreat by simp
  next
    case (Cast i)
    with run ne have r: "resolve_cast i r = (Ok ev, s)" by (simp add: resolve.simps)
    then have "require_current r i = Ok ()" "\<exists>a. actor_of r i = Some a \<and> can_act a"
      by (auto simp: resolve_cast_def require_conscious_Ok try_state_def split: res.splits)
    moreover have "rs_order s = rs_order r"
      using r budget_action_cases(4) [OF ok, of CombatantNotFound i "Ok ev" s ev]
      by (auto simp: resolve_cast_def try_state_def split: res.splits)
    ultimately show ?thesis using Cast by simp
  next
    case (Spell i spell_id targets slot_level)
    with run ne have "resolve_spell rr i spell_id targets slot_level r = (Ok ev, s)" by (simp add: resolve.simps)
    from resolve_spell_cases(4) [OF rr ok this, OF refl] Spell show ?thesis
      by (auto simp: spell_legal_def spell_effect_on_def)
  next
    case (NpcTurn i)
    with run ne show ?thesis
      by (auto simp: resolve.simps resolve_npc_turn_def try_state_def split: res.splits)
  next
    case (WeaponAttack i target weapon_id mode two_handed)
    with run ne have "resolve_weapon_attack rr i target weapon_id mode two_handed r = (Ok ev, s)"
      by (simp add: resolve.simps)
    from weapon_effect_actor [OF resolve_weapon_attack_cases(3) [OF rr ok this, OF refl]] WeaponAttack
    show ?thesis by auto
  next
    case (Attack i target m expr dt)
    with run ne consider "resolve_weapon_attack rr i target None DefaultMode False r = (Ok ev, s)"
      | "resolve_attack rr i target m expr dt Normal r = (Ok ev, s)"
      by (auto simp: resolve.simps split: if_splits)
    then show ?thesis
    proof cases
      case 1
      from weapon_effect_actor [OF resolve_weapon_attack_cases(3) [OF rr ok 1, OF refl]] Attack
      show ?thesis by auto
    next
      case 2
      note eff = resolve_attack_cases(3) [OF rr ok 2, OF refl]
      from attack_effect_current [OF eff] eff Attack show ?thesis by (simp add: attack_effect_def)
    qed
  next
    case (Move i dest)
    with run ne have r: "resolve_move i dest r = (Ok ev, s)" by (simp add: resolve.simps)
    show ?thesis by (rule resolve_move_Ok [OF r]) (use Move in auto)
  next
    case (EndTurn i)
    with run ne show ?thesis
      by (auto simp: resolve.simps resolve_end_turn_def try_state_def split: res.splits)
  qed
  then show "require_current r (action_actor act) = Ok ()"
    "keeps_turn act \<Longrightarrow> (\<exists>a. actor_of r (action_actor act) = Some a \<and> can_act a) \<and> rs_order s = rs_order r"
    by blast+
qed

text \<open>The actions that cost the turn's action.\<close>

fun costs_action :: "combat_action \<Rightarrow> bool" where
  "costs_action (Retreat _) = True"
| "costs_action (Cast _) = True"
| "costs_action (WeaponAttack _ _ _ _ _) = True"
| "costs_action (Attack _ _ _ _ _) = True"
| "costs_action (Spell _ spell_id _ _) = (\<exists>rule\<in>set_option (spell_rule_of spell_id). \<not> sr_bonus_action rule)"
| "costs_action _ = False"

lemma resolve_costs_action:
  assumes rr: "sampler_ok rr" and ok: "resolver_ok r" and run: "resolve rr act r = (Ok ev, s)"
    and cost: "costs_action act"
  shows "\<exists>a b. actor_of r (action_actor act) = Some a \<and> ab_action (c_budget a)
     \<and> actor_of s (action_actor act) = Some b \<and> \<not> ab_action (c_budget b)"
proof -
  have ne: "\<not> order_is_empty (rs_order r)" using run by (auto simp: resolve.simps split: if_splits)
  have spend: "\<exists>a b. actor_of r i = Some a \<and> ab_action (c_budget a) \<and> actor_of s i = Some b \<and> \<not> ab_action (c_budget b)"
    if "and_then (spend_action CombatantNotFound i Action r) (\<lambda>_ r1. (Ok no_events, r1)) = (Ok ev, s)" for i
    using budget_action_cases(4) [OF ok that, OF refl] by auto
  show ?thesis
  proof (cases act)
    case (Retreat i)
    with run ne have "and_then (spend_action CombatantNotFound i Action r) (\<lambda>_ r1. (Ok no_events, r1)) = (Ok ev, s)"
      by (auto simp: resolve.simps resolve_retreat_def try_state_def split: res.splits)
    from spend [OF this] Retreat show ?thesis by simp
  next
    case (Cast i)
    with run ne have "and_then (spend_action CombatantNotFound i Action r) (\<lambda>_ r1. (Ok no_events, r1)) = (Ok ev, s)"
      by (auto simp: resolve.simps resolve_cast_def try_state_def split: res.splits)
    from spend [OF this] Cast show ?thesis by simp
  next
    case (Spell i spell_id targets slot_level)
    with run ne have "resolve_spell rr i spell_id targets slot_level r = (Ok ev, s)" by (simp add: resolve.simps)
    from resolve_spell_cases(4) [OF rr ok this, OF refl] Spell cost show ?thesis
      by (auto simp: spell_legal_def spell_effect_on_def)
  next
    case (WeaponAttack i target weapon_id mode two_handed)
    with run ne have "resolve_weapon_attack rr i target weapon_id mode two_handed r = (Ok ev, s)"
      by (simp add: resolve.simps)
    from weapon_effect_actor(3) [OF resolve_weapon_attack_cases(3) [OF rr ok this, OF refl]] WeaponAttack
    show ?thesis by auto
  next
    case (Attack i target m expr dt)
    with run ne consider "resolve_weapon_attack rr i target None DefaultMode False r = (Ok ev, s)"
      | "resolve_attack rr i target m expr dt Normal r = (Ok ev, s)"
      by (auto simp: resolve.simps split: if_splits)
    then show ?thesis
    proof cases
      case 1
      from weapon_effect_actor(3) [OF resolve_weapon_attack_cases(3) [OF rr ok 1, OF refl]] Attack
      show ?thesis by auto
    next
      case 2
      from resolve_attack_cases(3) [OF rr ok 2, OF refl] Attack show ?thesis by (auto simp: attack_effect_def)
    qed
  qed (use cost in simp_all)
qed

section \<open>Within one turn\<close>

text \<open>A run of accepted actions that leave the turn with their actor.\<close>

inductive turn_run :: "'g sampler \<Rightarrow> 'g resolver \<Rightarrow> combat_action list \<Rightarrow> 'g resolver \<Rightarrow> bool" for rr where
  turn_nil: "turn_run rr r [] r"
| turn_cons: "resolve rr act r = (Ok ev, s) \<Longrightarrow> keeps_turn act \<Longrightarrow> turn_run rr s acts t \<Longrightarrow>
     turn_run rr r (act # acts) t"

inductive_cases turn_run_cons: "turn_run rr r (act # acts) t"

fun costs_slot :: "combat_action \<Rightarrow> bool" where
  "costs_slot (Spell _ spell_id _ _) = (\<exists>rule\<in>set_option (spell_rule_of spell_id). 0 < sr_level rule)"
| "costs_slot _ = False"

text \<open>Before, the action still to spend; after, what is left: an accepted action restores nothing.\<close>

definition budget_spent :: "combat_action \<Rightarrow> action_budget \<Rightarrow> action_budget \<Rightarrow> bool" where
  "budget_spent act b c \<longleftrightarrow>
     (ab_action c \<longrightarrow> ab_action b \<and> \<not> costs_action act) \<and> (costs_action act \<longrightarrow> ab_action b)
     \<and> (ab_spell_slot_used b \<longrightarrow> ab_spell_slot_used c \<and> \<not> costs_slot act) \<and> (costs_slot act \<longrightarrow> ab_spell_slot_used c)"

lemma resolve_budget:
  assumes rr: "sampler_ok rr" and ok: "resolver_ok r" and run: "resolve rr act r = (Ok ev, s)"
    and keep: "keeps_turn act"
  shows "\<exists>a b. actor_of r (action_actor act) = Some a \<and> actor_of s (action_actor act) = Some b
     \<and> budget_spent act (c_budget a) (c_budget b)"
proof -
  have ne: "\<not> order_is_empty (rs_order r)" using run by (auto simp: resolve.simps split: if_splits)
  have spend: "\<exists>a b. actor_of r i = Some a \<and> actor_of s i = Some b \<and> ab_action (c_budget a) \<and> \<not> ab_action (c_budget b)
      \<and> ab_spell_slot_used (c_budget b) = ab_spell_slot_used (c_budget a)"
    if "and_then (spend_action CombatantNotFound i Action r) (\<lambda>_ r1. (Ok no_events, r1)) = (Ok ev, s)" for i
    using budget_action_cases(4) [OF ok that, OF refl] by auto
  have weapon: "\<exists>a b. actor_of r i = Some a \<and> actor_of s i = Some b \<and> ab_action (c_budget a) \<and> \<not> ab_action (c_budget b)
      \<and> ab_spell_slot_used (c_budget b) = ab_spell_slot_used (c_budget a)"
    if "weapon_effect i target weapon_id mode two_handed r s ev" for i target weapon_id mode two_handed
    using that unfolding weapon_effect_def attack_effect_def by auto
  show ?thesis
  proof (cases act)
    case (Retreat i)
    with run ne have "and_then (spend_action CombatantNotFound i Action r) (\<lambda>_ r1. (Ok no_events, r1)) = (Ok ev, s)"
      by (auto simp: resolve.simps resolve_retreat_def try_state_def split: res.splits)
    from spend [OF this] Retreat show ?thesis by (auto simp: budget_spent_def)
  next
    case (Cast i)
    with run ne have "and_then (spend_action CombatantNotFound i Action r) (\<lambda>_ r1. (Ok no_events, r1)) = (Ok ev, s)"
      by (auto simp: resolve.simps resolve_cast_def try_state_def split: res.splits)
    from spend [OF this] Cast show ?thesis by (auto simp: budget_spent_def)
  next
    case (Spell i spell_id targets slot_level)
    with run ne have "resolve_spell rr i spell_id targets slot_level r = (Ok ev, s)" by (simp add: resolve.simps)
    from resolve_spell_cases(4) [OF rr ok this, OF refl] obtain a casting rule count where
      c: "spell_legal r i spell_id targets slot_level a casting rule count"
        "spell_effect_on i targets slot_level a casting rule r s ev" by blast
    from c(2) obtain b where b: "actor_of s i = Some b"
      "ab_spell_slot_used (c_budget b) \<longleftrightarrow> ab_spell_slot_used (c_budget a) \<or> 0 < sr_level rule"
      "if sr_bonus_action rule then ab_action (c_budget b) = ab_action (c_budget a)
       else ab_action (c_budget a) \<and> \<not> ab_action (c_budget b)"
      unfolding spell_effect_on_def by (elim conjE exE) (auto split: if_split_asm)
    have "\<not> ab_spell_slot_used (c_budget a)" if "0 < sr_level rule"
    proof -
      have "\<not> slot_rejected a casting rule slot_level" using c(1) unfolding spell_legal_def by blast
      with that show ?thesis by (simp add: slot_rejected_def)
    qed
    moreover have rl: "spell_rule_of spell_id = Some rule" "actor_of r i = Some a"
      using c(1) unfolding spell_legal_def by blast+
    ultimately have "budget_spent act (c_budget a) (c_budget b)"
      using b(2,3) unfolding Spell budget_spent_def by (cases "sr_bonus_action rule") auto
    with rl(2) b(1) Spell show ?thesis by auto
  next
    case (WeaponAttack i target weapon_id mode two_handed)
    with run ne have "resolve_weapon_attack rr i target weapon_id mode two_handed r = (Ok ev, s)"
      by (simp add: resolve.simps)
    from weapon [OF resolve_weapon_attack_cases(3) [OF rr ok this, OF refl]] WeaponAttack
    show ?thesis by (auto simp: budget_spent_def)
  next
    case (Attack i target m expr dt)
    with run ne consider "resolve_weapon_attack rr i target None DefaultMode False r = (Ok ev, s)"
      | "resolve_attack rr i target m expr dt Normal r = (Ok ev, s)"
      by (auto simp: resolve.simps split: if_splits)
    then show ?thesis
    proof cases
      case 1
      from weapon [OF resolve_weapon_attack_cases(3) [OF rr ok 1, OF refl]] Attack
      show ?thesis by (auto simp: budget_spent_def)
    next
      case 2
      from resolve_attack_cases(3) [OF rr ok 2, OF refl] Attack show ?thesis
        by (auto simp: attack_effect_def budget_spent_def)
    qed
  next
    case (Move i dest)
    with run ne have r: "resolve_move i dest r = (Ok ev, s)" by (simp add: resolve.simps)
    show ?thesis by (rule resolve_move_Ok [OF r]) (use Move in \<open>auto simp: budget_spent_def\<close>)
  qed (use keep in simp_all)
qed

lemma turn_run_budget:
  assumes rr: "sampler_ok rr" and run: "turn_run rr r acts t" and ok: "resolver_ok r"
    and e: "order_current (rs_order r) = Some e" and a: "actor_of r (ie_id e) = Some a"
  shows "(\<forall>act\<in>set acts. action_actor act = ie_id e)
     \<and> length (filter costs_action acts) \<le> (if ab_action (c_budget a) then 1 else 0)
     \<and> length (filter costs_slot acts) \<le> (if ab_spell_slot_used (c_budget a) then 0 else 1)"
  using run ok e a
proof (induction arbitrary: a rule: turn_run.induct)
  case (turn_cons act r ev s acts t)
  note actor = resolve_actor [OF rr turn_cons.prems(1) turn_cons.hyps(1)]
  have id: "action_actor act = ie_id e" using actor(1) turn_cons.prems(2) by (auto simp: require_current_Ok)
  have oks: "resolver_ok s"
    using resolver_evolves_ok [OF _ turn_cons.prems(1)] resolve_safe [OF rr turn_cons.prems(1), of act] turn_cons.hyps(1)
    by (simp add: safe_def)
  have order: "order_current (rs_order s) = Some e" using actor(2) [OF turn_cons.hyps(2)] turn_cons.prems(2) by simp
  obtain b where b: "actor_of s (ie_id e) = Some b" "budget_spent act (c_budget a) (c_budget b)"
    using resolve_budget [OF rr turn_cons.prems(1) turn_cons.hyps(1,2)] id turn_cons.prems(3) by auto
  from turn_cons.IH [OF oks order b(1)] b(2) id show ?case
    by (auto simp: budget_spent_def split: if_splits)
qed simp

section \<open>Who is hurt\<close>

text \<open>No accepted action of a hero damages a hero.\<close>

lemma weapon_effect_foe:
  assumes "weapon_effect i target weapon_id mode two_handed r s ev" "actor_of r i = Some a" "c_character_id a \<noteq> None"
    and "d \<in> set (ev_damage ev)"
  shows "\<exists>v. actor_of r (da_target d) = Some v \<and> c_character_id v = None"
proof -
  from assms(1) obtain b v m adv r1 where tc: "weapon_target_check r i target = Ok (b, v)"
    and eff: "attack_effect i target m adv r r1 ev" unfolding weapon_effect_def by blast
  from tc assms(2,3) have v: "actor_of r target = Some v" "c_character_id v = None"
    by (auto simp: weapon_target_check_Ok)
  from eff obtain t t' x where "attack_verdict target x t t' m adv ev" unfolding attack_effect_def by blast
  with assms(4) have "da_target d = target"
    unfolding attack_verdict_def Let_def by (auto split: if_split_asm)
  with v show ?thesis by blast
qed

lemma resolve_no_friendly_fire:
  assumes rr: "sampler_ok rr" and ok: "resolver_ok r" and run: "resolve rr act r = (Ok ev, s)"
    and keep: "keeps_turn act" and a: "actor_of r (action_actor act) = Some a" and hero: "c_character_id a \<noteq> None"
    and d: "d \<in> set (ev_damage ev)"
  shows "\<exists>v. actor_of r (da_target d) = Some v \<and> c_character_id v = None"
proof -
  have ne: "\<not> order_is_empty (rs_order r)" using run by (auto simp: resolve.simps split: if_splits)
  have quiet: False if "and_then (spend_action CombatantNotFound i Action r) (\<lambda>_ r1. (Ok no_events, r1)) = (Ok ev, s)" for i
    using budget_action_cases(4) [OF ok that, OF refl] d by auto
  show ?thesis
  proof (cases act)
    case (Retreat i)
    with run ne have "and_then (spend_action CombatantNotFound i Action r) (\<lambda>_ r1. (Ok no_events, r1)) = (Ok ev, s)"
      by (auto simp: resolve.simps resolve_retreat_def try_state_def split: res.splits)
    with quiet show ?thesis by blast
  next
    case (Cast i)
    with run ne have "and_then (spend_action CombatantNotFound i Action r) (\<lambda>_ r1. (Ok no_events, r1)) = (Ok ev, s)"
      by (auto simp: resolve.simps resolve_cast_def try_state_def split: res.splits)
    with quiet show ?thesis by blast
  next
    case (Spell i spell_id targets slot_level)
    with run ne have "resolve_spell rr i spell_id targets slot_level r = (Ok ev, s)" by (simp add: resolve.simps)
    from resolve_spell_cases(4) [OF rr ok this, OF refl] obtain b casting rule count where
      l: "spell_legal r i spell_id targets slot_level b casting rule count"
      and e: "spell_effect_on i targets slot_level b casting rule r s ev" by blast
    from e d have nh: "\<not> is_heal (sr_effect rule)" and t: "da_target d \<in> set targets"
      unfolding spell_effect_on_def by auto
    from l have tc: "spell_targets_check r b spell_id rule targets = Ok ()" and "actor_of r i = Some b"
      unfolding spell_legal_def by blast+
    with a Spell have "b = a" by simp
    with spell_targets_check_Ok [OF tc t] nh hero show ?thesis by auto
  next
    case (WeaponAttack i target weapon_id mode two_handed)
    with run ne have "resolve_weapon_attack rr i target weapon_id mode two_handed r = (Ok ev, s)"
      by (simp add: resolve.simps)
    from weapon_effect_foe [OF resolve_weapon_attack_cases(3) [OF rr ok this, OF refl] _ hero d] a WeaponAttack
    show ?thesis by simp
  next
    case (Attack i target m expr dt)
    with run ne a hero have "resolve_weapon_attack rr i target None DefaultMode False r = (Ok ev, s)"
      by (simp add: resolve.simps)
    from weapon_effect_foe [OF resolve_weapon_attack_cases(3) [OF rr ok this, OF refl] _ hero d] a Attack
    show ?thesis by simp
  next
    case (Move i dest)
    with run ne have r: "resolve_move i dest r = (Ok ev, s)" by (simp add: resolve.simps)
    show ?thesis by (rule resolve_move_Ok [OF r]) (use d in auto)
  qed (use keep in simp_all)
qed

end
