(* ===== verification/Skirmish.thy ===== *)
theory Skirmish
  imports Resolver
begin

text \<open>
  A small encounter on which the properties of the combat engine are instantiated: a hero cleric
  with a bow and healing magic, a second hero, and a goblin, on a walled map.
\<close>

definition demo_rr :: "nat sampler" where
  "demo_rr n g = (1 + int g mod n, 5 * g + 3)"

lemma demo_sampler: "sampler_ok demo_rr"
  by (simp add: sampler_ok_def demo_rr_def) (smt (verit) pos_mod_bound pos_mod_sign)

definition demo_bow :: weapon_attack_profile where
  "demo_bow = \<lparr>wp_weapon_id = ''shortbow'', wp_attack_bonus = 5,
     wp_damage = \<lparr>de_count = 1, de_die = D6, de_modifier = 3\<rparr>, wp_damage_type = Piercing,
     wp_reach_ft = 5, wp_normal_range_ft = 80, wp_long_range_ft = 320, wp_ranged = True, wp_thrown = False,
     wp_ammunition = True, wp_two_handed = True, wp_versatile_damage = None, wp_heavy_disadvantage = False\<rparr>"

definition demo_fist :: weapon_attack_profile where
  "demo_fist = \<lparr>wp_weapon_id = ''unarmed'', wp_attack_bonus = 3,
     wp_damage = \<lparr>de_count = 1, de_die = D4, de_modifier = 1\<rparr>, wp_damage_type = Bludgeoning,
     wp_reach_ft = 5, wp_normal_range_ft = 0, wp_long_range_ft = 0, wp_ranged = False, wp_thrown = False,
     wp_ammunition = False, wp_two_handed = False, wp_versatile_damage = None, wp_heavy_disadvantage = False\<rparr>"

definition demo_casting :: casting_profile where
  "demo_casting = \<lparr>cp_choices = [], cp_level = 1, cp_ability_modifier = 3, cp_attack_bonus = 5, cp_save_dc = 13,
     cp_prepared = [''healing-word'', ''fire-bolt'', ''cure-wounds''],
     cp_slots = [(1, \<lparr>ss_maximum = 2, ss_remaining = 2\<rparr>)]\<rparr>"

definition demo_cleric :: combatant where
  "demo_cleric = (new_combatant 1 ''Mira'' 20 15 14)\<lparr>c_character_id := Some 11, c_casting := Some demo_casting,
     c_loadout := Some \<lparr>lo_default_weapon = ''shortbow'', lo_attacks = [demo_bow, demo_fist],
        lo_quantities = [(''shortbow'', 1)], lo_arrows = 12, lo_shield = False\<rparr>,
     c_position := at 1 1\<rparr>"

definition demo_rogue :: combatant where
  "demo_rogue = (new_combatant 2 ''Tam'' 18 6 13)\<lparr>c_character_id := Some 12, c_position := at 1 2\<rparr>"

definition demo_goblin :: combatant where
  "demo_goblin = (new_combatant 3 ''Goblin'' 7 7 12)\<lparr>c_position := at 3 1,
     c_loadout := Some \<lparr>lo_default_weapon = ''unarmed'', lo_attacks = [demo_fist], lo_quantities = [],
        lo_arrows = 0, lo_shield = False\<rparr>\<rparr>"

definition demo_map :: battle_map where
  "demo_map = \<lparr>bm_width = 5, bm_height = 3, bm_blocked = [at 2 0], bm_exits = [at 0 0]\<rparr>"

definition demo_fight :: "nat \<Rightarrow> nat resolver" where
  "demo_fight turn = (new_resolver [(1, demo_cleric), (2, demo_rogue), (3, demo_goblin)]
     \<lparr>io_entries = [\<lparr>ie_id = 1, ie_roll = 15, ie_dex_tiebreak = 2\<rparr>, \<lparr>ie_id = 2, ie_roll = 12, ie_dex_tiebreak = 1\<rparr>,
        \<lparr>ie_id = 3, ie_roll = 8, ie_dex_tiebreak = 0\<rparr>], io_current_index = turn, io_round = 1\<rparr>
     (from_seed (\<lambda>s. s) 9))\<lparr>rs_map := Some demo_map\<rparr>"

lemmas demo_defs = demo_fight_def demo_map_def demo_cleric_def demo_rogue_def demo_goblin_def
  demo_casting_def demo_bow_def demo_fist_def new_resolver_def new_combatant_def from_seed_def at_def
  new_death_saves_def fresh_budget_def

lemma demo_ok: "turn < 3 \<Longrightarrow> resolver_ok (demo_fight turn)"
  by (simp add: demo_defs resolver_ok_def table_ok_def actor_ok_def vitals_ok_def order_ok_def valid_map_def
      inside_def walkable_def)

lemma demo_turns:
  "resolver_ok (demo_fight 0)" "resolver_ok (demo_fight 1)" "resolver_ok (demo_fight 2)"
  by (simp_all add: demo_ok)

end
