(* ===== verification/Combat_Properties.thy ===== *)
theory Combat_Properties
  imports Skirmish
begin

text \<open>
  What the combat engine promises, over \<^verbatim>\<open>CombatResolver::resolve\<close> as a whole: the invariant, the
  refusals, who may act and what a turn may cost, the rules of a weapon attack and of a spell, and
  the start of a turn. Every property is applied to the skirmish of \<^theory_text>\<open>Skirmish\<close>.
\<close>

section \<open>The engine as a whole\<close>

text \<open>C1: whatever action is asked for, legal or not, the engine does not panic, keeps the encounter
  well formed (ids, hit points between zero and the maximum, death saves consistent with life and
  death, a valid turn pointer), and changes of every combatant only what combat may change: identity,
  maximum hit points, armour class, speed and attacks stay, and the dead stay dead.\<close>

theorem combat_keeps_encounter:
  assumes "sampler_ok rr" "resolver_ok r" "resolve rr act r = (res, s)"
  shows "res \<noteq> Panic \<and> resolver_ok s \<and> pointwise combatant_evolves (rs_combatants r) (rs_combatants s)
     \<and> io_entries (rs_order s) = io_entries (rs_order r) \<and> rs_map s = rs_map r"
  using resolve_safe [OF assms(1,2), of act] resolver_evolves_ok [OF _ assms(2), of s] assms(3)
  by (simp add: safe_def resolver_evolves_def)

theorem combat_keeps_encounter_witness:
  "resolver_ok (snd (resolve demo_rr (WeaponAttack 1 3 None DefaultMode False) (demo_fight 0)))"
  using combat_keeps_encounter [OF demo_sampler demo_turns(1), of "WeaponAttack 1 3 None DefaultMode False"]
  by (metis prod.collapse)

text \<open>C2: a refused action leaves no trace: an error of any action other than the composite monster
  turn means that combatants, order, map and random stream are exactly what they were.\<close>

theorem refused_action_changes_nothing:
  assumes "sampler_ok rr" "resolver_ok r" "\<not> is_npc_turn act" "resolve rr act r = (Err e, s)"
  shows "s = r"
  using resolve_handled [OF assms(1-3)] assms(4) by (simp add: handled_def)

theorem refused_action_changes_nothing_witness:
  "snd (resolve demo_rr (Move 2 (at 3 2)) (demo_fight 0)) = demo_fight 0"
proof -
  have "refused NotYourTurn (resolve demo_rr (Move 2 (at 3 2)) (demo_fight 0))" by code_simp
  then obtain s where run: "resolve demo_rr (Move 2 (at 3 2)) (demo_fight 0) = (Err NotYourTurn, s)"
    by (rule refusedE)
  from refused_action_changes_nothing [OF demo_sampler demo_turns(1) _ run] show ?thesis
    unfolding run by simp
qed

text \<open>C3: an accepted action is the action of the combatant whose turn it is; an action that keeps
  the turn moreover needs a conscious, standing actor and leaves the turn order alone.\<close>

theorem only_the_current_actor_acts:
  assumes "sampler_ok rr" "resolver_ok r" "resolve rr act r = (Ok ev, s)"
  shows "(\<exists>e. order_current (rs_order r) = Some e \<and> ie_id e = action_actor act)
     \<and> (keeps_turn act \<longrightarrow>
          (\<exists>a. actor_of r (action_actor act) = Some a \<and> can_act a) \<and> rs_order s = rs_order r)"
  using resolve_actor [OF assms] require_current_Ok [of r "action_actor act" "()"] by blast

theorem only_the_current_actor_acts_witness:
  "\<exists>ev s. resolve demo_rr (Move 1 (at 3 2)) (demo_fight 0) = (Ok ev, s) \<and> rs_order s = rs_order (demo_fight 0)"
proof -
  have "succeeds (\<lambda>_. True) (resolve demo_rr (Move 1 (at 3 2)) (demo_fight 0))" by code_simp
  then obtain ev s where run: "resolve demo_rr (Move 1 (at 3 2)) (demo_fight 0) = (Ok ev, s)"
    by (rule succeedsE)
  from only_the_current_actor_acts [OF demo_sampler demo_turns(1) run] have "rs_order s = rs_order (demo_fight 0)"
    by (simp only: keeps_turn.simps simp_thms)
  with run show ?thesis by blast
qed

text \<open>C4: however many actions a combatant strings together in one turn, all of them are its own, at
  most one costs the Action (and none when it is already spent), and at most one is a levelled spell.\<close>

theorem turn_economy:
  assumes "sampler_ok rr" "turn_run rr r acts t" "resolver_ok r"
    "order_current (rs_order r) = Some e" "actor_of r (ie_id e) = Some a"
  shows "(\<forall>act\<in>set acts. action_actor act = ie_id e)
     \<and> length (filter costs_action acts) \<le> (if ab_action (c_budget a) then 1 else 0)
     \<and> length (filter costs_slot acts) \<le> (if ab_spell_slot_used (c_budget a) then 0 else 1)"
  using turn_run_budget [OF assms] .

theorem turn_economy_witness:
  "\<exists>acts t. length acts = 2 \<and> turn_run demo_rr (demo_fight 0) acts t \<and> length (filter costs_action acts) \<le> 1"
proof -
  let ?a = "WeaponAttack 1 3 None DefaultMode False" and ?b = "Move 1 (at 3 2)"
  let ?s = "snd (resolve demo_rr ?a (demo_fight 0))"
  have a: "succeeds (\<lambda>_. True) (resolve demo_rr ?a (demo_fight 0))" and b: "succeeds (\<lambda>_. True) (resolve demo_rr ?b ?s)"
    by code_simp+
  obtain ev1 s1 where run1: "resolve demo_rr ?a (demo_fight 0) = (Ok ev1, s1)" using a by (rule succeedsE)
  obtain ev2 s2 where run2: "resolve demo_rr ?b s1 = (Ok ev2, s2)" using b unfolding run1 snd_conv by (rule succeedsE)
  have "keeps_turn ?a" "keeps_turn ?b" by simp_all
  then have run: "turn_run demo_rr (demo_fight 0) [?a, ?b] s2"
    by (intro turn_cons [OF run1] turn_cons [OF run2] turn_nil)
  have "order_current (rs_order (demo_fight 0)) = Some \<lparr>ie_id = 1, ie_roll = 15, ie_dex_tiebreak = 2\<rparr>"
    "actor_of (demo_fight 0) (ie_id \<lparr>ie_id = 1, ie_roll = 15, ie_dex_tiebreak = 2\<rparr>) = Some demo_cleric"
    by (simp_all add: demo_fight_def new_resolver_def order_current_def actor_of_def table_get_def)
  from turn_economy [OF demo_sampler run demo_turns(1) this]
  have "length (filter costs_action [?a, ?b]) \<le> (if ab_action (c_budget demo_cleric) then 1 else 0)"
    by (elim conjE)
  also have "\<dots> \<le> 1" by simp
  finally have "length (filter costs_action [?a, ?b]) \<le> 1" .
  with run show ?thesis by (intro exI [of _ "[?a, ?b]"] exI [of _ s2]) simp
qed

text \<open>C5: no friendly fire: no damage that an accepted action of a hero causes, by weapon or by spell,
  hits another hero.\<close>

theorem no_friendly_fire:
  assumes "sampler_ok rr" "resolver_ok r" "resolve rr act r = (Ok ev, s)" "keeps_turn act"
    "actor_of r (action_actor act) = Some a" "c_character_id a \<noteq> None" "d \<in> set (ev_damage ev)"
  shows "\<exists>v. actor_of r (da_target d) = Some v \<and> c_character_id v = None"
  using resolve_no_friendly_fire [OF assms] .

theorem no_friendly_fire_witness:
  "\<exists>ev s d. resolve demo_rr (WeaponAttack 1 3 None DefaultMode False) (demo_fight 0) = (Ok ev, s)
     \<and> d \<in> set (ev_damage ev) \<and> (\<exists>v. actor_of (demo_fight 0) (da_target d) = Some v \<and> c_character_id v = None)"
proof -
  let ?act = "WeaponAttack 1 3 None DefaultMode False"
  have "succeeds (\<lambda>ev. ev_damage ev \<noteq> []) (resolve demo_rr ?act (demo_fight 0))" by code_simp
  then obtain ev s where run: "resolve demo_rr ?act (demo_fight 0) = (Ok ev, s)" and "ev_damage ev \<noteq> []"
    by (rule succeedsE)
  then have d: "hd (ev_damage ev) \<in> set (ev_damage ev)" by simp
  have "actor_of (demo_fight 0) (action_actor ?act) = Some demo_cleric" "c_character_id demo_cleric \<noteq> None"
    by (simp_all add: demo_fight_def new_resolver_def actor_of_def table_get_def demo_cleric_def)
  from no_friendly_fire [OF demo_sampler demo_turns(1) run _ this d] run d show ?thesis
    unfolding keeps_turn.simps by blast
qed

section \<open>Attacks and spells\<close>

lemma owned_spend_weapon:
  assumes "weapon_legal a v lo p mode two_handed"
    and "w \<noteq> ''unarmed''"
  shows "owned_count (spend_weapon p mode lo) w =
     owned_count lo w - (if mode = Thrown \<and> w = wp_weapon_id p then 1 else 0)"
  using assms by (auto simp: weapon_legal_def owned_count_def spend_weapon_def unsigned_sub_def Let_def split: option.splits)

lemma arrows_spend_weapon:
  "weapon_legal a v lo p mode two_handed \<Longrightarrow>
     lo_arrows (spend_weapon p mode lo) = lo_arrows lo - (if wp_ammunition p then 1 else 0)"
  by (auto simp: weapon_legal_def unsigned_sub_def)

lemma resolve_weapon:
  "resolve rr (WeaponAttack i target w mode two_handed) r = (Ok ev, s) \<Longrightarrow>
     resolve_weapon_attack rr i target w mode two_handed r = (Ok ev, s)"
  by (simp add: resolve.simps split: if_splits)

text \<open>C6: an accepted weapon attack was legal and is paid for: the attacker could act, still had its
  Action, saw the target along a clear line and is of the other side; the weapon is owned, usable in the
  mode asked for, within its reach or range and, for an ammunition weapon, supplied. Afterwards the Action
  is gone, exactly one arrow or one thrown weapon is spent, and nobody but the two fighters changed.\<close>

theorem weapon_attack_legal_and_paid:
  assumes "sampler_ok rr" "resolver_ok r" "resolve rr (WeaponAttack i target w mode0 two_handed) r = (Ok ev, s)"
  shows "\<exists>a v lo p mode b lo'.
     actor_of r i = Some a \<and> actor_of r target = Some v \<and> i \<noteq> target \<and> can_act a \<and> ab_action (c_budget a)
     \<and> clear_between r (c_position a) (c_position v) \<and> \<not> invalid_victim v
     \<and> \<not> (c_character_id a \<noteq> None \<and> c_character_id v \<noteq> None)
     \<and> c_loadout a = Some lo \<and> mode = effective_mode mode0 p \<and> weapon_legal a v lo p mode two_handed
     \<and> actor_of s i = Some b \<and> c_loadout b = Some lo' \<and> \<not> ab_action (c_budget b)
     \<and> lo_arrows lo' = lo_arrows lo - (if wp_ammunition p then 1 else 0)
     \<and> (\<forall>x. x \<noteq> ''unarmed'' \<longrightarrow> owned_count lo' x = owned_count lo x - (if mode = Thrown \<and> x = wp_weapon_id p then 1 else 0))
     \<and> (\<forall>j. j \<noteq> i \<longrightarrow> j \<noteq> target \<longrightarrow> actor_of s j = actor_of r j)"
proof -
  obtain a v lo p mode r1 where c: "weapon_target_check r i target = Ok (a, v)"
    and lo: "c_loadout a = Some lo" and legal: "weapon_legal a v lo p mode two_handed"
    and mode: "mode = effective_mode mode0 p"
    and hit: "attack_effect i target (wp_attack_bonus p) (weapon_modifier r i a v p (is_ranged_mode mode)) r r1 ev"
    and s: "s = upd_actor i (\<lambda>x. x\<lparr>c_loadout := Some (spend_weapon p mode lo)\<rparr>) r1"
    using resolve_weapon_attack_cases(3) [OF assms(1,2) resolve_weapon [OF assms(3)]]
    unfolding weapon_effect_def by blast
  note c = c [unfolded weapon_target_check_Ok]
  from hit have paid: "ab_action (c_budget a)" "\<forall>j. j \<noteq> i \<longrightarrow> j \<noteq> target \<longrightarrow> actor_of r1 j = actor_of r j"
    using c unfolding attack_effect_def by auto
  let ?b = "a\<lparr>c_budget := (c_budget a)\<lparr>ab_action := False\<rparr>, c_loadout := Some (spend_weapon p mode lo)\<rparr>"
  have b: "actor_of s i = Some ?b" using attack_effect_attacker [OF hit] c s by simp
  have "\<not> ab_action (c_budget ?b)" "c_loadout ?b = Some (spend_weapon p mode lo)" by simp_all
  moreover have frame: "\<forall>j. j \<noteq> i \<longrightarrow> j \<noteq> target \<longrightarrow> actor_of s j = actor_of r j" using paid(2) s by simp
  moreover have owned: "\<forall>x. x \<noteq> ''unarmed'' \<longrightarrow> owned_count (spend_weapon p mode lo) x =
      owned_count lo x - (if mode = Thrown \<and> x = wp_weapon_id p then 1 else 0)"
    using owned_spend_weapon [OF legal] by simp
  ultimately show ?thesis
    using b c lo legal mode paid(1) arrows_spend_weapon [OF legal]
    by (intro exI [of _ a] exI [of _ v] exI [of _ lo] exI [of _ p] exI [of _ mode] exI [of _ ?b]
        exI [of _ "spend_weapon p mode lo"] conjI) (elim conjE, assumption)+
qed

text \<open>C7: a weapon attack is decided by its die: one d20 (the better or worse of two under advantage
  or disadvantage) plus the bonus of the weapon. A natural 20 always hits and is critical, a natural 1
  always misses, anything else is compared with the armour class; a hit on a helpless neighbour is
  critical. A hit logs one wound that accounts for the hit points lost, a miss changes nothing.\<close>

theorem weapon_attack_follows_its_die:
  assumes "sampler_ok rr" "resolver_ok r" "resolve rr (WeaponAttack i target w mode0 two_handed) r = (Ok ev, s)"
  shows "\<exists>a v v' p. actor_of r i = Some a \<and> actor_of r target = Some v \<and> actor_of s target = Some v'
     \<and> (\<exists>lo. c_loadout a = Some lo \<and> p \<in> set (lo_attacks lo))
     \<and> attack_verdict target a v v' (wp_attack_bonus p)
         (weapon_modifier r i a v p (is_ranged_mode (effective_mode mode0 p))) ev"
proof -
  obtain a v lo p mode r1 where c: "weapon_target_check r i target = Ok (a, v)"
    and lo: "c_loadout a = Some lo" and legal: "weapon_legal a v lo p mode two_handed"
    and mode: "mode = effective_mode mode0 p"
    and hit: "attack_effect i target (wp_attack_bonus p) (weapon_modifier r i a v p (is_ranged_mode mode)) r r1 ev"
    and s: "s = upd_actor i (\<lambda>x. x\<lparr>c_loadout := Some (spend_weapon p mode lo)\<rparr>) r1"
    using resolve_weapon_attack_cases(3) [OF assms(1,2) resolve_weapon [OF assms(3)]]
    unfolding weapon_effect_def by blast
  note c = c [unfolded weapon_target_check_Ok]
  from hit obtain v' where "actor_of r1 target = Some v'"
    "attack_verdict target a v v' (wp_attack_bonus p) (weapon_modifier r i a v p (is_ranged_mode mode)) ev"
    using c unfolding attack_effect_def by auto
  moreover have "p \<in> set (lo_attacks lo)" using legal by (simp add: weapon_legal_def)
  ultimately show ?thesis using c lo mode s by auto
qed

lemma demo_shot:
  obtains ev s where "resolve demo_rr (WeaponAttack 1 3 None DefaultMode False) (demo_fight 0) = (Ok ev, s)"
proof -
  have "succeeds (\<lambda>_. True) (resolve demo_rr (WeaponAttack 1 3 None DefaultMode False) (demo_fight 0))" by code_simp
  then show ?thesis using that by (rule succeedsE)
qed

theorem weapon_attack_legal_and_paid_witness:
  "\<exists>ev s b. resolve demo_rr (WeaponAttack 1 3 None DefaultMode False) (demo_fight 0) = (Ok ev, s)
     \<and> actor_of s 1 = Some b \<and> \<not> ab_action (c_budget b)"
proof (rule demo_shot)
  fix ev :: result_events and s
  assume run: "resolve demo_rr (WeaponAttack 1 3 None DefaultMode False) (demo_fight 0) = (Ok ev, s)"
  from weapon_attack_legal_and_paid [OF demo_sampler demo_turns(1) run] obtain b
    where "actor_of s 1 = Some b" "\<not> ab_action (c_budget b)" by (elim exE conjE)
  with run show ?thesis by blast
qed

theorem weapon_attack_follows_its_die_witness:
  "\<exists>ev s a v v' m adv. resolve demo_rr (WeaponAttack 1 3 None DefaultMode False) (demo_fight 0) = (Ok ev, s)
     \<and> attack_verdict 3 a v v' m adv ev"
proof (rule demo_shot)
  fix ev :: result_events and s
  assume run: "resolve demo_rr (WeaponAttack 1 3 None DefaultMode False) (demo_fight 0) = (Ok ev, s)"
  from weapon_attack_follows_its_die [OF demo_sampler demo_turns(1) run] run show ?thesis by blast
qed

lemma resolve_spell_action:
  "resolve rr (Spell i sp ts l) r = (Ok ev, s) \<Longrightarrow> resolve_spell rr i sp ts l r = (Ok ev, s)"
  by (simp add: resolve.simps split: if_splits)

text \<open>C8: an accepted spell was legal and is paid for exactly once: the caster could act, wears no armour
  it is not trained for, has the spell prepared and (for a levelled spell) a slot of the level asked for and
  none cast yet this turn. Afterwards the Action or Bonus Action is gone, one slot of that level and no other
  is spent and reported, only the named targets are hurt, healed or reported dead, a healing spell hurts
  nobody, and nobody is moved or disarmed.\<close>

theorem spell_legal_and_paid:
  assumes "sampler_ok rr" "resolver_ok r" "resolve rr (Spell caster spell_id targets slot_level) r = (Ok ev, s)"
  shows "\<exists>a casting rule count.
     spell_legal r caster spell_id targets slot_level a casting rule count
     \<and> spell_effect_on caster targets slot_level a casting rule r s ev"
  using resolve_spell_cases(4) [OF assms(1,2) resolve_spell_action [OF assms(3)]] by simp

theorem spell_legal_and_paid_witness:
  "\<exists>ev s a casting rule. resolve demo_rr (Spell 1 ''healing-word'' [2] 1) (demo_fight 0) = (Ok ev, s)
     \<and> spell_effect_on 1 [2] 1 a casting rule (demo_fight 0) s ev"
proof -
  have "succeeds (\<lambda>_. True) (resolve demo_rr (Spell 1 ''healing-word'' [2] 1) (demo_fight 0))" by code_simp
  then obtain ev s where run: "resolve demo_rr (Spell 1 ''healing-word'' [2] 1) (demo_fight 0) = (Ok ev, s)"
    by (rule succeedsE)
  from spell_legal_and_paid [OF demo_sampler demo_turns(1) run] run show ?thesis by blast
qed

section \<open>Turns\<close>

text \<open>C9: the start of a turn always finds somebody to act within one round: it stops at an encounter
  boundary, or at a living combatant with a fresh budget, or it has established that nobody in the order
  can act; it never fails.\<close>

theorem turn_start_finds_an_actor:
  assumes "resolver_ok r" "begin_current_turn rr r = (res, s)"
  shows "(\<exists>ev. res = Ok ev) \<and> resolver_ok s
     \<and> (boundary_reached s \<or> turn_ready s \<or> (\<forall>e\<in>set (io_entries (rs_order s)). sidelined s (ie_id e)))"
  using begin_current_turn_cases [OF assms] resolver_evolves_ok [OF begin_current_turn_evolves [of r rr] assms(1)]
  by (simp add: assms(2))

theorem turn_start_finds_an_actor_witness:
  "turn_ready (snd (begin_current_turn demo_rr (demo_fight 2)))"
proof -
  obtain res s where run: "begin_current_turn demo_rr (demo_fight 2) = (res, s)" by fastforce
  have "\<not> boundary_reached (snd (begin_current_turn demo_rr (demo_fight 2)))
     \<and> \<not> (\<forall>e\<in>set (io_entries (rs_order (snd (begin_current_turn demo_rr (demo_fight 2))))).
          case actor_of (snd (begin_current_turn demo_rr (demo_fight 2))) (ie_id e) of None \<Rightarrow> True
          | Some a \<Rightarrow> c_withdrawn a \<or> c_current_hp a \<le> 0 \<or> c_is_dead a)"
    by code_simp
  then have "\<not> boundary_reached s" "\<not> (\<forall>e\<in>set (io_entries (rs_order s)). sidelined s (ie_id e))"
    unfolding run sidelined_def by (auto split: option.splits)
  with turn_start_finds_an_actor [OF demo_turns(3) run] show ?thesis unfolding run by simp
qed

definition feet_walked :: "result_events \<Rightarrow> i32" where
  "feet_walked ev = sum_list (map me_feet_used (ev_movement ev))"

lemma feet_walked_append: "feet_walked (append_events e f) = feet_walked e + feet_walked f"
  by (simp add: feet_walked_def append_events_def)

lemma resolve_move_feet:
  assumes "resolve_move i dest r = (Ok ev, s)" "0 \<le> ab_movement_ft (c_budget a)" "ab_movement_ft (c_budget a) \<le> i32_max"
    "actor_of r i = Some a" "c_position a \<noteq> dest"
  obtains b where "actor_of s i = Some b" "ab_movement_ft (c_budget b) = ab_movement_ft (c_budget a) - feet_walked ev"
    "5 \<le> feet_walked ev" "0 \<le> ab_movement_ft (c_budget b)"
proof (rule resolve_move_Ok [OF assms(1)])
  fix a' feet
  assume a': "actor_of r i = Some a'" and cost: "move_cost r i (c_position a') dest = Ok feet"
    and le: "feet \<le> ab_movement_ft (c_budget a')"
    and ev: "ev = no_events\<lparr>ev_movement := [\<lparr>me_combatant = i, me_from = c_position a', me_to = dest, me_feet_used = feet\<rparr>]\<rparr>"
    and s: "s = upd_actor i (\<lambda>x. x\<lparr>c_position := dest\<rparr>)
       (set_budget i ((c_budget a')\<lparr>ab_movement_ft := i32_sub (ab_movement_ft (c_budget a')) feet\<rparr>) r)"
  have five: "5 \<le> feet" using move_cost_pos [OF cost] a' assms(4,5) by simp
  have walked: "feet_walked ev = feet" by (simp add: ev feet_walked_def)
  have "i32_sub (ab_movement_ft (c_budget a)) feet = ab_movement_ft (c_budget a) - feet"
    using le five a' assms(2-4) by (simp add: i32_sub_def wrap32_id in_i32_def)
  then show thesis using that a' assms(4) s walked five le by simp
qed

text \<open>C10: the walk of a monster is paid for: what it logs as feet walked is exactly what its movement
  shrinks by, every step costs at least five feet, and the movement never goes below zero.\<close>

theorem approach_pays_for_every_step:
  assumes "approach i target ev r = (Ok ev', s)" "actor_of r i = Some a"
    "0 \<le> ab_movement_ft (c_budget a)" "ab_movement_ft (c_budget a) \<le> i32_max"
  shows "\<exists>b. actor_of s i = Some b \<and> 0 \<le> ab_movement_ft (c_budget b)
     \<and> feet_walked ev' - feet_walked ev = ab_movement_ft (c_budget a) - ab_movement_ft (c_budget b)
     \<and> 5 * (int (length (ev_movement ev')) - int (length (ev_movement ev))) \<le> feet_walked ev' - feet_walked ev"
  using assms
proof (induction "movement_left r i" arbitrary: r ev a rule: less_induct)
  case less
  from less.prems(1) show ?case
  proof (cases rule: approach_Ok_cases)
    case stop
    with less.prems show ?thesis by auto
  next
    case (walk a' t cell mv r1)
    have a': "a' = a" using walk(1) less.prems(2) by simp
    have ne: "c_position a \<noteq> cell" using next_step_ne [OF walk(4)] a' by metis
    obtain b where b: "actor_of r1 i = Some b" "ab_movement_ft (c_budget b) = ab_movement_ft (c_budget a) - feet_walked mv"
      "5 \<le> feet_walked mv" "0 \<le> ab_movement_ft (c_budget b)"
      using resolve_move_feet [OF walk(5) less.prems(3,4,2) ne] by metis
    have one: "length (ev_movement mv) = 1" using walk(5) by (rule resolve_move_Ok) simp
    obtain c where c: "actor_of s i = Some c" "0 \<le> ab_movement_ft (c_budget c)"
      "feet_walked ev' - feet_walked (append_events ev mv) = ab_movement_ft (c_budget b) - ab_movement_ft (c_budget c)"
      "5 * (int (length (ev_movement ev')) - int (length (ev_movement (append_events ev mv))))
         \<le> feet_walked ev' - feet_walked (append_events ev mv)"
      using less.hyps [OF approach_decreases [OF walk(1) _ walk(4,5)] walk(6) b(1,4)] walk(3) b(2,3) less.prems(4)
      by auto
    have n: "length (ev_movement (append_events ev mv)) = length (ev_movement ev) + 1"
      using one by (simp add: append_events_def)
    from b c show ?thesis unfolding n feet_walked_append by auto
  qed
qed

theorem approach_pays_for_every_step_witness:
  "\<exists>ev s. approach 3 1 no_events (demo_fight 2) = (Ok ev, s)
     \<and> feet_walked ev \<le> 30 \<and> 5 * int (length (ev_movement ev)) \<le> feet_walked ev"
proof -
  have "succeeds (\<lambda>_. True) (approach 3 1 no_events (demo_fight 2))" by code_simp
  then obtain ev s where run: "approach 3 1 no_events (demo_fight 2) = (Ok ev, s)" by (rule succeedsE)
  have g: "actor_of (demo_fight 2) 3 = Some demo_goblin" "ab_movement_ft (c_budget demo_goblin) = 30"
    by (simp_all add: demo_fight_def new_resolver_def actor_of_def table_get_def demo_goblin_def new_combatant_def
        fresh_budget_def)
  have e: "feet_walked no_events = 0" by (simp add: feet_walked_def)
  from approach_pays_for_every_step [OF run g(1)] run show ?thesis by (auto simp: g(2) e)
qed

end
