(* ===== verification/Shortest_Path.thy ===== *)
theory Shortest_Path
  imports Geometry
begin

text \<open>
  The route search is breadth-first, so the route it returns is a shortest walk: the depth at which a
  cell was found, a ghost function \<open>D\<close>, is sorted along the queue and grows by at most one with each
  edge. Movement is paid by the length of the route, so this is what makes its price fair.
\<close>

definition depths :: "battle_map \<Rightarrow> position set \<Rightarrow> position \<Rightarrow> (position \<Rightarrow> nat) \<Rightarrow> bfs_state \<Rightarrow> bool" where
  "depths m occ start D = (\<lambda>(seen, parents, queue).
     D start = 0 \<and> start \<in> seen
     \<and> (\<forall>c p. (c, p) \<in> set parents \<longrightarrow> c \<in> seen \<and> p \<in> seen \<and> D c = Suc (D p))
     \<and> (\<forall>x\<in>seen - set queue. \<forall>y\<in>set (neighbors m x) - occ. y \<in> seen \<and> D y \<le> Suc (D x))
     \<and> sorted (map D queue) \<and> set queue \<subseteq> seen
     \<and> (\<forall>h rest. queue = h # rest \<longrightarrow> (\<forall>x\<in>seen. D x \<le> Suc (D h))))"

lemma bfs_scan_new:
  assumes "bfs_scan goal occ cell ns (seen, parents, queue) = (found, seen', parents', queue')"
  shows "\<exists>new. queue' = queue @ new \<and> set new \<inter> insert goal seen = {} \<and> seen \<subseteq> seen'
     \<and> (\<not> found \<longrightarrow> seen' = seen \<union> set new \<and> set ns - occ \<subseteq> seen')
     \<and> (\<forall>c p. (c, p) \<in> set parents' \<longrightarrow> (c, p) \<in> set parents \<or> p = cell \<and> c \<in> seen' - seen)"
  using assms
proof (induction ns arbitrary: seen parents queue)
  case (Cons n ns)
  show ?case
  proof (cases "n \<in> occ \<or> n \<in> seen")
    case True
    with Cons.prems have "bfs_scan goal occ cell ns (seen, parents, queue) = (found, seen', parents', queue')"
      by simp
    from Cons.IH [OF this] True show ?thesis by auto
  next
    case new: False
    show ?thesis
    proof (cases "n = goal")
      case True
      with new Cons.prems show ?thesis by auto
    next
      case False
      with new Cons.prems have
        "bfs_scan goal occ cell ns (insert n seen, (n, cell) # parents, queue @ [n]) = (found, seen', parents', queue')"
        by simp
      from Cons.IH [OF this] obtain nw where
        "queue' = (queue @ [n]) @ nw" "set nw \<inter> insert goal (insert n seen) = {}" "insert n seen \<subseteq> seen'"
        "\<not> found \<longrightarrow> seen' = insert n seen \<union> set nw \<and> set ns - occ \<subseteq> seen'"
        "\<forall>c p. (c, p) \<in> set parents' \<longrightarrow> (c, p) \<in> set ((n, cell) # parents) \<or> p = cell \<and> c \<in> seen' - insert n seen"
        by blast
      with new False show ?thesis by (intro exI [of _ "n # nw"]) auto
    qed
  qed
qed auto

text \<open>Whoever is not yet seen is farther away than the head of the queue is deep.\<close>

lemma unseen_far:
  assumes "depths m occ start D (seen, parents, h # queue)" "x \<in> seen" "walk m occ x cells" "last (x # cells) \<notin> seen"
  shows "Suc (D h) \<le> D x + length cells"
  using assms(2-)
proof (induction cells arbitrary: x)
  case (Cons y cells)
  note d = assms(1) [unfolded depths_def prod.case]
  show ?case
  proof (cases "x \<in> set (h # queue)")
    case True
    with d have "D h \<le> D x" by auto
    then show ?thesis by simp
  next
    case False
    with d Cons.prems have y: "y \<in> seen" "D y \<le> Suc (D x)" by auto
    from Cons.IH [OF y(1)] Cons.prems y(2) show ?thesis by auto
  qed
qed simp

lemma trace_back_length:
  assumes "\<forall>c p. (c, p) \<in> set parents \<longrightarrow> D c = Suc (D p)" "D start = 0"
  shows "trace_back n parents start cursor acc = Some route \<Longrightarrow> Suc (length route) = length acc + D cursor"
proof (induction n arbitrary: cursor acc)
  case (Suc n)
  then obtain p where p: "table_get parents cursor = Some p" by (auto split: option.splits)
  then have "(cursor, p) \<in> set parents" by (simp add: table_get_def map_of_SomeD)
  with assms(1) have "D cursor = Suc (D p)" by auto
  with Suc p assms(2) show ?case by (cases "p = start") auto
qed simp

lemma depthsD:
  assumes "depths m occ start D (seen, parents, h # queue)"
  shows "D start = 0" "start \<in> seen" "h \<in> seen" "set queue \<subseteq> seen" "sorted (map D queue)"
    and "(c, p) \<in> set parents \<Longrightarrow> c \<in> seen \<and> p \<in> seen \<and> D c = Suc (D p)"
    and "x \<in> seen \<Longrightarrow> x \<notin> set (h # queue) \<Longrightarrow> y \<in> set (neighbors m x) - occ \<Longrightarrow> y \<in> seen \<and> D y \<le> Suc (D x)"
    and "x \<in> set queue \<Longrightarrow> D h \<le> D x" "x \<in> seen \<Longrightarrow> D x \<le> Suc (D h)"
proof -
  from assms have c: "D start = 0" "start \<in> seen"
    "\<forall>c p. (c, p) \<in> set parents \<longrightarrow> c \<in> seen \<and> p \<in> seen \<and> D c = Suc (D p)"
    "\<forall>x\<in>seen - set (h # queue). \<forall>y\<in>set (neighbors m x) - occ. y \<in> seen \<and> D y \<le> Suc (D x)"
    "sorted (map D (h # queue))" "set (h # queue) \<subseteq> seen" "\<forall>x\<in>seen. D x \<le> Suc (D h)"
    unfolding depths_def prod.case by blast+
  show "D start = 0" "start \<in> seen" "h \<in> seen" "set queue \<subseteq> seen" "sorted (map D queue)"
    "x \<in> set queue \<Longrightarrow> D h \<le> D x" using c(1,2,5,6) by auto
  show "(c, p) \<in> set parents \<Longrightarrow> c \<in> seen \<and> p \<in> seen \<and> D c = Suc (D p)" using c(3) by blast
  show "x \<in> seen \<Longrightarrow> x \<notin> set (h # queue) \<Longrightarrow> y \<in> set (neighbors m x) - occ \<Longrightarrow> y \<in> seen \<and> D y \<le> Suc (D x)"
    using c(4) by blast
  show "x \<in> seen \<Longrightarrow> D x \<le> Suc (D h)" using c(7) by blast
qed

lemma depths_step:
  assumes d: "depths m occ start D (seen, parents, h # queue)"
    and scan: "bfs_scan goal occ h (neighbors m h) (seen, parents, queue) = (found, seen', parents', queue')"
  shows "(\<not> found \<longrightarrow> depths m occ start (\<lambda>x. if x \<in> seen then D x else Suc (D h)) (seen', parents', queue'))
     \<and> (\<forall>c p. (c, p) \<in> set parents' \<longrightarrow> (if c \<in> seen then D c else Suc (D h)) = Suc (if p \<in> seen then D p else Suc (D h)))"
    (is "(\<not> found \<longrightarrow> depths m occ start ?D _) \<and> ?edges")
proof
  note u = depthsD [OF d]
  obtain new where new: "queue' = queue @ new" "set new \<inter> insert goal seen = {}" "seen \<subseteq> seen'"
    "\<not> found \<longrightarrow> seen' = seen \<union> set new \<and> set (neighbors m h) - occ \<subseteq> seen'"
    and edges: "\<forall>c p. (c, p) \<in> set parents' \<longrightarrow> (c, p) \<in> set parents \<or> p = h \<and> c \<in> seen' - seen"
    using bfs_scan_new [OF scan] by blast
  show e: ?edges
  proof (intro allI impI)
    fix c p assume "(c, p) \<in> set parents'"
    with edges consider "(c, p) \<in> set parents" | "p = h" "c \<notin> seen" by blast
    then show "?D c = Suc (?D p)"
    proof cases
      case 1
      from u(6) [OF this] show ?thesis by simp
    qed (simp add: u(3))
  qed
  show "\<not> found \<longrightarrow> depths m occ start ?D (seen', parents', queue')"
  proof
    assume "\<not> found"
    with new have seen': "seen' = seen \<union> set new" "set (neighbors m h) - occ \<subseteq> seen'" by auto
    have low: "?D x \<le> Suc (D h)" for x using u(9) by simp
    have "map ?D queue = map D queue" using u(4) by auto
    moreover have "map ?D new = replicate (length new) (Suc (D h))"
      using new(2) by (auto simp: map_replicate_const [symmetric])
    ultimately have "map ?D queue' = map D queue @ replicate (length new) (Suc (D h))"
      unfolding new(1) map_append by (simp only:)
    moreover have "D x \<le> Suc (D h)" if "x \<in> set queue" for x using u(4,9) that by blast
    ultimately have sorted': "sorted (map ?D queue')" using u(5) by (auto simp: sorted_append)
    have closed: "y \<in> seen' \<and> ?D y \<le> Suc (?D x)"
      if x: "x \<in> seen'" "x \<notin> set queue'" and y: "y \<in> set (neighbors m x) - occ" for x y
    proof (cases "x = h")
      case True
      with y seen'(2) u(3) low show ?thesis by auto
    next
      case False
      with x new(1) seen'(1) have s: "x \<in> seen" "x \<notin> set (h # queue)" by auto
      from u(7) [OF s y] s(1) seen'(1) show ?thesis by simp
    qed
    have head: "?D x \<le> Suc (?D k)" if "queue' = k # rest" for x k rest
    proof -
      have "k \<in> set queue'" using that by simp
      then consider "k \<in> set queue" | "k \<in> set new" using new(1) by auto
      then have "D h \<le> ?D k"
      proof cases
        case 1
        with u(4) have "k \<in> seen" by blast
        with u(8) [OF 1] show ?thesis by simp
      qed (use new(2) in auto)
      with low [of x] show ?thesis by linarith
    qed
    have "(c, p) \<in> set parents' \<Longrightarrow> c \<in> seen' \<and> p \<in> seen'" for c p
      using edges u(3,6) new(3) by blast
    moreover have "?D start = 0 \<and> start \<in> seen'" using u(1,2) new(3) by auto
    moreover have "set queue' \<subseteq> seen'" using u(4) new(1) seen'(1) by auto
    ultimately show "depths m occ start ?D (seen', parents', queue')"
      unfolding depths_def prod.case using sorted' closed head e by blast
  qed
qed

lemma bfs_loop_shortest:
  assumes "depths m occ start D st" "goal \<notin> fst st"
    and "bfs_loop m start goal occ st = (Ok (Some route) :: ('e, position list option) res)"
    and "walk m occ start cells" "last (start # cells) = goal"
  shows "length route \<le> length cells"
  using assms
proof (induction m start goal occ st arbitrary: D rule: bfs_loop.induct)
  case (2 m start goal occ seen parents h queue)
  obtain found seen' parents' queue' where scan:
    "bfs_scan goal occ h (neighbors m h) (seen, parents, queue) = (found, seen', parents', queue')"
    by (metis prod_cases4)
  let ?D = "\<lambda>x. if x \<in> seen then D x else Suc (D h)"
  note step = depths_step [OF 2(2) scan]
  show ?case
  proof (cases found)
    case True
    with 2(4) scan have "trace_back (length parents') parents' start goal [goal] = Some route"
      by (auto simp: bfs_loop.simps split: option.splits)
    moreover have "?D start = 0" using 2(2) by (simp add: depths_def)
    ultimately have "Suc (length route) = length [goal] + ?D goal"
      using trace_back_length [of parents' ?D start] step by blast
    then have "length route = Suc (D h)" using 2(3) by simp
    moreover have "Suc (D h) \<le> D start + length cells"
      by (rule unseen_far [OF 2(2)]) (use 2(2,3) 2(5,6) in \<open>auto simp: depths_def\<close>)
    ultimately show ?thesis using 2(2) by (simp add: depths_def)
  next
    case False
    then have "goal \<notin> seen'" using bfs_scan_new [OF scan] 2(3) by auto
    moreover have "bfs_loop m start goal occ (seen', parents', queue') = (Ok (Some route) :: ('e, position list option) res)"
      using 2(4) scan False by (simp add: bfs_loop.simps)
    ultimately show ?thesis
      using 2(1) [OF scan [symmetric] _ _ _ _ 2(5,6)] False step by auto
  qed
qed (simp add: bfs_loop.simps)

lemma find_path_shortest:
  assumes "find_path m start goal occ = (Ok (Some route) :: ('e, position list option) res)" "walk m occ start cells" "last (start # cells) = goal"
  shows "length route \<le> length cells"
proof (cases "start = goal")
  case True
  with assms(1) show ?thesis by (auto simp: find_path_def split: if_splits)
next
  case False
  then have "bfs_loop m start goal occ ({start}, [], [start]) = (Ok (Some route) :: ('e, position list option) res)"
    using assms(1) by (auto simp: find_path_def split: if_splits)
  from bfs_loop_shortest [OF _ _ this assms(2,3)] False show ?thesis
    by (fastforce simp: depths_def)
qed

text \<open>The route to a free neighbouring cell is that one step.\<close>

lemma find_path_neighbor:
  assumes "valid_map m" "walkable m p" "q \<in> set (neighbors m p)" "q \<notin> occ" "q \<noteq> p"
  shows "find_path m p q occ = (Ok (Some [q]) :: ('e, position list option) res)"
proof -
  have w: "walk m occ p [q]" using assms by simp
  have "route_spec m p q occ (find_path m p q occ :: ('e, position list option) res)"
    by (rule find_path_correct) (use assms neighbors_walkable in auto)
  with w obtain route where r: "find_path m p q occ = (Ok (Some route) :: ('e, position list option) res)"
    "last (p # route) = q"
    using find_path_total [of m p q occ, where 'a = 'e] unfolding route_spec_def
    by (auto split: option.splits dest!: spec [of _ "[q]"])
  from find_path_shortest [OF r(1) w] r(2) assms(5) have "route = [q]"
    by (cases route) (auto split: if_splits)
  with r(1) show ?thesis by simp
qed

end
