(* ===== verification/Rules_Properties.thy ===== *)
theory Rules_Properties
  imports Skirmish Shortest_Path "HOL-Library.Multiset"
begin

text \<open>
  What the parts below the engine promise on their own: wounds, death saves and death
  (\<^verbatim>\<open>combat/combatant.rs\<close>, \<^verbatim>\<open>combat/healing.rs\<close>), the path finder and the line of sight
  (\<^verbatim>\<open>combat/geometry.rs\<close>), and the initiative order (\<^verbatim>\<open>combat/initiative.rs\<close>).
\<close>

section \<open>Wounds, death and recovery\<close>



text \<open>C12: a death save is rolled by a dying combatant only, on a d20: 20 brings it back with one hit
  point and a clean slate, 10 to 19 is a success and the third success stabilises it, 2 to 9 is one
  failure and 1 is two, and the third failure kills. Anybody else is left alone and rolls nothing.\<close>

theorem death_save_rule:
  assumes "sampler_ok rr" "vitals_ok c" "resolve_death_save rr c g = (out, d, g')"
  shows "if \<not> dying c then out = None \<and> d = c \<and> g' = g
     else \<exists>e. out = Some e \<and> 1 \<le> ds_roll e \<and> ds_roll e \<le> 20 \<and> ds_dead e = c_is_dead d \<and> vitals_ok d
       \<and> (if ds_roll e = 20 then c_current_hp d = 1 \<and> \<not> c_is_dead d \<and> c_death_saves d = new_death_saves
             \<and> Unconscious \<notin> c_conditions d
          else c_current_hp d = 0
            \<and> (if 10 \<le> ds_roll e then \<not> c_is_dead d
                 \<and> (if sv_successes (c_death_saves c) = 2 then sv_stable (c_death_saves d)
                    else \<not> sv_stable (c_death_saves d)
                      \<and> sv_successes (c_death_saves d) = sv_successes (c_death_saves c) + 1
                      \<and> sv_failures (c_death_saves d) = sv_failures (c_death_saves c))
               else sv_failures (c_death_saves d) = min 3 (sv_failures (c_death_saves c) + (if ds_roll e = 1 then 2 else 1))
                 \<and> (c_is_dead d \<longleftrightarrow> sv_failures (c_death_saves d) = 3)
                 \<and> sv_successes (c_death_saves d) = sv_successes (c_death_saves c)))"
  by (rule death_save_cases [OF assms])

theorem death_save_rule_witness:
  "\<exists>e d g. resolve_death_save demo_rr (demo_rogue\<lparr>c_current_hp := 0, c_conditions := {Unconscious}\<rparr>) (from_seed (\<lambda>s. s) 9)
     = (Some e, d, g) \<and> 1 \<le> ds_roll e \<and> ds_roll e \<le> 20"
proof -
  let ?c = "demo_rogue\<lparr>c_current_hp := 0, c_conditions := {Unconscious}\<rparr>"
  have ok: "vitals_ok ?c" and dy: "dying ?c" by code_simp+
  obtain e d g where run: "resolve_death_save demo_rr ?c (from_seed (\<lambda>s. s) 9) = (e, d, g)" by (rule prod_cases3)
  from death_save_rule [OF demo_sampler ok run] dy obtain x where "e = Some x" "1 \<le> ds_roll x" "ds_roll x \<le> 20"
    by (simp only: simp_thms if_False) blast
  with run show ?thesis by blast
qed

section \<open>The battle map\<close>

text \<open>C13: the path finder decides reachability: between walkable cells it returns a route exactly when a
  walk exists, and the route is a shortest such walk: neighbouring, walkable, unoccupied cells from the
  start to the goal, no longer than the number of cells of the map. It always returns, and it never
  panics.\<close>

theorem find_path_decides_reachability:
  fixes found :: "(validation_error, position list option) res"
  assumes "found = find_path m start goal occ" "valid_map m" "walkable m start" "walkable m goal" "goal \<notin> occ"
  shows "(\<exists>route. found = Ok (Some route) \<and> walk m occ start route
            \<and> last (start # route) = goal \<and> length route \<le> bm_width m * bm_height m
            \<and> (\<forall>cells. walk m occ start cells \<and> last (start # cells) = goal \<longrightarrow> length route \<le> length cells))
     \<or> found = Ok None \<and> \<not> (\<exists>route. walk m occ start route \<and> last (start # route) = goal)"
proof -
  from find_path_correct [OF assms(2-5)] have "route_spec m start goal occ found" unfolding assms(1) .
  then obtain x where x: "found = Ok x" "case x of Some route \<Rightarrow> walk m occ start route \<and> last (start # route) = goal
       \<and> length route \<le> bm_width m * bm_height m
     | None \<Rightarrow> \<forall>qs. walk m occ start qs \<longrightarrow> last (start # qs) \<noteq> goal"
    unfolding route_spec_def by (cases found) (auto split: option.splits)
  show ?thesis
  proof (cases x)
    case None
    with x(2) have "\<forall>qs. walk m occ start qs \<longrightarrow> last (start # qs) \<noteq> goal" by (simp only: option.case)
    with x(1) None show ?thesis by blast
  next
    case (Some route)
    with x(2) have "walk m occ start route \<and> last (start # route) = goal \<and> length route \<le> bm_width m * bm_height m"
      by (simp only: option.case)
    moreover have "find_path m start goal occ = (Ok (Some route) :: (validation_error, position list option) res)"
      using assms(1) x(1) Some by simp
    note find_path_shortest [OF this]
    ultimately show ?thesis using x(1) Some by blast
  qed
qed

theorem find_path_decides_reachability_witness:
  "\<exists>route. (find_path demo_map (at 1 1) (at 3 1) {at 2 1} :: (validation_error, position list option) res)
     = Ok (Some route) \<and> walk demo_map {at 2 1} (at 1 1) route"
proof -
  let ?f = "find_path demo_map (at 1 1) (at 3 1) {at 2 1} :: (validation_error, position list option) res"
  have "valid_map demo_map" "walkable demo_map (at 1 1)" "walkable demo_map (at 3 1)" "at 3 1 \<notin> {at 2 1}" "?f \<noteq> Ok None"
    by code_simp+
  with find_path_decides_reachability [OF refl, of demo_map "at 1 1" "at 3 1" "{at 2 1}"] show ?thesis by blast
qed



section \<open>Initiative\<close>

text \<open>C15: one round of the turn order gives every position its turn, comes back to where it began, and
  counts one round (at the width of the counter).\<close>

theorem a_round_serves_everybody:
  assumes "order_ok ord"
  shows "(\<forall>i<order_len ord. \<exists>k<order_len ord. io_current_index ((order_advance ^^ k) ord) = i)
     \<and> io_current_index ((order_advance ^^ order_len ord) ord) = io_current_index ord
     \<and> io_round ((order_advance ^^ order_len ord) ord) = (io_round ord + 1) mod 4294967296"
  using cyclic.full_cycle [OF assms] by blast

theorem a_round_serves_everybody_witness:
  "io_round ((order_advance ^^ 3) (rs_order (demo_fight 1))) = 2"
proof -
  have "order_ok (rs_order (demo_fight 1))" "order_len (rs_order (demo_fight 1)) = 3"
    "io_round (rs_order (demo_fight 1)) = 1" by code_simp+
  with a_round_serves_everybody [of "rs_order (demo_fight 1)"] show ?thesis by simp
qed

definition before :: "initiative_entry \<Rightarrow> initiative_entry \<Rightarrow> bool" where
  "before e f \<longleftrightarrow> ie_roll f < ie_roll e \<or> ie_roll f = ie_roll e \<and> ie_dex_tiebreak f \<le> ie_dex_tiebreak e"

text \<open>C16: rolled initiative becomes the order that sorts it: the same entries, each no lower than the
  next by roll and then by Dexterity, ties in the order they were given, starting at the top in round one.\<close>

theorem build_order_sorts:
  "mset (io_entries (build_order entries)) = mset entries
   \<and> sorted_wrt before (io_entries (build_order entries))
   \<and> filter (\<lambda>e. ie_roll e = x \<and> ie_dex_tiebreak e = y) (io_entries (build_order entries))
       = filter (\<lambda>e. ie_roll e = x \<and> ie_dex_tiebreak e = y) entries
   \<and> io_current_index (build_order entries) = 0 \<and> io_round (build_order entries) = 1"
proof -
  let ?k = "\<lambda>e. (- ie_roll e, - ie_dex_tiebreak e)"
  have "sorted_wrt (\<lambda>e f. ?k e \<le> ?k f) (sort_key ?k entries)"
    using sorted_sort_key [of ?k entries] by (simp add: sorted_map)
  then have "sorted_wrt before (sort_key ?k entries)"
    by (rule sorted_wrt_mono_rel [rotated]) (auto simp: before_def less_eq_prod_def)
  moreover have "filter (\<lambda>e. ie_roll e = x \<and> ie_dex_tiebreak e = y) (sort_key ?k entries)
      = filter (\<lambda>e. ie_roll e = x \<and> ie_dex_tiebreak e = y) entries"
    using filter_sort [of "\<lambda>e. ?k e = (- x, - y)" ?k entries] sort_key_stable [of ?k "(- x, - y)" entries] by simp
  ultimately show ?thesis by (simp add: build_order_def)
qed

text \<open>C17: storing the turn order as its entries, the id of the current one and the round, and restoring it,
  gives the same order back, for an order with distinct ids that is in progress.\<close>

theorem restore_order_roundtrip:
  assumes "order_ok ord" "distinct (map ie_id (io_entries ord))" "0 < io_round ord" "order_current ord = Some e"
  shows "restore_order (io_entries ord) (ie_id e) (io_round ord) = Some ord"
proof -
  let ?i = "io_current_index ord"
  have i: "?i < length (io_entries ord)" "e = io_entries ord ! ?i"
    using assms(1,4) by (auto simp: order_ok_def order_current_def split: if_splits)
  have "position_of (\<lambda>f. ie_id f = ie_id e) (io_entries ord) = Some ?i"
  proof (cases "position_of (\<lambda>f. ie_id f = ie_id e) (io_entries ord)")
    case None
    with i show ?thesis using nth_mem unfolding position_of_None by blast
  next
    case (Some j)
    from position_of_Some [OF this] i have "j < length (io_entries ord)"
      "map ie_id (io_entries ord) ! j = map ie_id (io_entries ord) ! ?i" by auto
    with nth_eq_iff_index_eq [OF assms(2), of j ?i] i(1) have "j = ?i" by simp
    with Some show ?thesis by simp
  qed
  then show ?thesis using assms(3) by (simp add: restore_order_def)
qed

theorem restore_order_roundtrip_witness:
  "restore_order (io_entries (rs_order (demo_fight 1))) 2 1 = Some (rs_order (demo_fight 1))"
proof -
  have "order_ok (rs_order (demo_fight 1))" "distinct (map ie_id (io_entries (rs_order (demo_fight 1))))"
    "io_round (rs_order (demo_fight 1)) = 1" by code_simp+
  moreover have "order_current (rs_order (demo_fight 1)) = Some \<lparr>ie_id = 2, ie_roll = 12, ie_dex_tiebreak = 1\<rparr>"
    by (simp add: demo_fight_def new_resolver_def order_current_def)
  ultimately show ?thesis using restore_order_roundtrip [of "rs_order (demo_fight 1)"] by simp
qed

end
