(* ===== verification/Defense.thy ===== *)
theory Defense
  imports Catalog
begin

text \<open>
  \<^verbatim>\<open>crates/app-domain/src/combat/defense.rs\<close>: armor class from a declared loadout. The last
  section shows that the recommended starting gear is owned, trained and of the best armor
  class among the trained body armor the hero owns.
\<close>

record defense_choice =
  dc_schema_version :: u16
  dc_armor_id :: "string option"
  dc_shield :: bool

record defense_stats =
  dst_choice :: defense_choice
  dst_ac :: i32
  dst_speed_penalty_ft :: i32
  dst_stealth_disadvantage :: bool
  dst_untrained_armor :: bool

record defense_input =
  di_class_id :: string
  di_strength :: i32
  di_dexterity :: i32
  di_constitution :: i32
  di_wisdom :: i32
  di_owned :: "(string \<times> u32) list"

definition owns :: "defense_input \<Rightarrow> string \<Rightarrow> bool" where
  "owns input i =
     (let prefix = di_class_id input @ ''-''
      in list_ex (\<lambda>(owned, count). count > 0 \<and>
           (case strip_prefix prefix owned of Some s \<Rightarrow> s | None \<Rightarrow> owned) = i) (di_owned input))"

definition shield_trained :: "class_entry \<Rightarrow> bool" where
  "shield_trained cls \<longleftrightarrow> ''shield'' \<in> set (cl_armor_proficiencies cls)"

text \<open>The branch of \<open>derive\<close> for a worn body armor: base, speed penalty, stealth, untrained.\<close>

definition armored_base ::
  "catalog \<Rightarrow> defense_input \<Rightarrow> class_entry \<Rightarrow> i32 \<Rightarrow> string \<Rightarrow> (string, i32 \<times> i32 \<times> bool \<times> bool) res" where
  "armored_base cat input cls dex i =
     bind_res (ok_or (find_body_armor cat i) ''hero_armor_unknown'') (\<lambda>armor.
     bind_res (reject_if (\<not> owns input i) ''hero_armor_unavailable'') (\<lambda>_.
     let dex_bonus = (case am_ac_dex_bonus_cap armor of
           Some cap \<Rightarrow> if cap = 0 then 0 else min dex cap | None \<Rightarrow> dex)
     in Ok (i32_add (am_ac_base armor) dex_bonus,
            (case am_str_req armor of Some required \<Rightarrow> if di_strength input < required then 10 else 0
             | None \<Rightarrow> 0),
            am_stealth_disadvantage armor,
            am_category armor \<notin> set (cl_armor_proficiencies cls))))"

definition unarmored_base :: "defense_input \<Rightarrow> defense_choice \<Rightarrow> i32 \<Rightarrow> i32" where
  "unarmored_base input choice dex =
     (let base = i32_add 10 dex
      in if di_class_id input = ''barbarian'' then i32_add base (ability_modifier (di_constitution input))
         else if di_class_id input = ''monk'' \<and> \<not> dc_shield choice
           then i32_add base (ability_modifier (di_wisdom input))
         else base)"

definition derive_defense :: "catalog \<Rightarrow> defense_input \<Rightarrow> defense_choice \<Rightarrow> (string, defense_stats) res" where
  "derive_defense cat input choice =
     bind_res (reject_if (dc_schema_version choice \<noteq> 1 \<or>
         list_ex (\<lambda>s. \<not> (1 \<le> s \<and> s \<le> 30))
           [di_strength input, di_dexterity input, di_constitution input, di_wisdom input])
       ''hero_defense_invalid'') (\<lambda>_.
     bind_res (ok_or (find_class cat (di_class_id input)) ''combat_class_unknown'') (\<lambda>cls.
     bind_res (reject_if (dc_shield choice \<and> \<not> owns input ''shield'') ''hero_shield_unavailable'') (\<lambda>_.
     let dex = ability_modifier (di_dexterity input)
     in bind_res
          (case dc_armor_id choice of
             Some i \<Rightarrow> armored_base cat input cls dex i
           | None \<Rightarrow> Ok (unarmored_base input choice dex, 0, False, False))
          (\<lambda>(base, speed_penalty, stealth, untrained).
             Ok \<lparr>dst_choice = choice,
                 dst_ac = i32_add base (if dc_shield choice \<and> shield_trained cls then 2 else 0),
                 dst_speed_penalty_ft = speed_penalty,
                 dst_stealth_disadvantage = stealth,
                 dst_untrained_armor = untrained\<rparr>))))"

text \<open>An armor of the catalog the recommendation considers.\<close>

definition trained_candidate :: "defense_input \<Rightarrow> class_entry \<Rightarrow> armor_entry \<Rightarrow> bool" where
  "trained_candidate input cls armor \<longleftrightarrow>
     \<not> (am_category armor = ''shield'' \<or> \<not> owns input (am_id armor)
        \<or> am_category armor \<notin> set (cl_armor_proficiencies cls))"

definition starting_choice :: "catalog \<Rightarrow> defense_input \<Rightarrow> (string, defense_stats) res" where
  "starting_choice cat input =
     bind_res (ok_or (find_class cat (di_class_id input)) ''combat_class_unknown'') (\<lambda>cls.
     let shield = owns input ''shield'' \<and> shield_trained cls
     in bind_res (derive_defense cat input
            \<lparr>dc_schema_version = 1, dc_armor_id = None, dc_shield = shield\<rparr>) (\<lambda>unarmored.
        fold_res (\<lambda>armor best.
            if \<not> trained_candidate input cls armor then Ok best
            else bind_res (derive_defense cat input
                   \<lparr>dc_schema_version = 1, dc_armor_id = Some (am_id armor), dc_shield = shield\<rparr>)
                 (\<lambda>candidate. Ok (if dst_ac candidate > dst_ac best then candidate else best)))
          (eb_armor (ca_equipment cat)) unarmored))"

definition has_owned_body_armor :: "catalog \<Rightarrow> defense_input \<Rightarrow> bool" where
  "has_owned_body_armor cat input =
     (case find_class cat (di_class_id input) of
        None \<Rightarrow> False
      | Some cls \<Rightarrow> list_ex (\<lambda>a. am_category a \<noteq> ''shield'' \<and> owns input (am_id a)
                         \<and> am_category a \<in> set (cl_armor_proficiencies cls)) (eb_armor (ca_equipment cat)))"

section \<open>The recommendation\<close>

lemma derive_defense_choice: "derive_defense cat input choice = Ok st \<Longrightarrow> dst_choice st = choice"
  by (auto simp: derive_defense_def Let_def bind_res_Ok)

lemma derive_defense_owned:
  assumes "derive_defense cat input choice = Ok st"
  shows "(\<forall>i. dc_armor_id choice = Some i \<longrightarrow> owns input i) \<and> (dc_shield choice \<longrightarrow> owns input ''shield'')"
  using assms by (auto simp: derive_defense_def armored_base_def Let_def bind_res_Ok)

text \<open>One step of the loop keeps the best so far at least as good, and covers the armor it saw.\<close>

lemma fold_best:
  assumes "fold_res (\<lambda>armor best. if \<not> p armor then Ok best
       else bind_res (cand armor) (\<lambda>c. Ok (if dst_ac c > dst_ac best then c else best))) armors b0 = Ok b"
  shows "dst_ac b0 \<le> dst_ac b \<and> (b = b0 \<or> (\<exists>a\<in>set armors. p a \<and> cand a = Ok b)) \<and>
     (\<forall>a\<in>set armors. p a \<longrightarrow> (\<exists>c. cand a = Ok c \<and> dst_ac c \<le> dst_ac b))"
  using assms
proof (induction armors arbitrary: b0)
  case Nil
  then show ?case by simp
next
  case (Cons a armors)
  show ?case
  proof (cases "p a")
    case False
    with Cons.prems have "fold_res (\<lambda>armor best. if \<not> p armor then Ok best
       else bind_res (cand armor) (\<lambda>c. Ok (if dst_ac c > dst_ac best then c else best))) armors b0 = Ok b"
      by simp
    from Cons.IH [OF this] False show ?thesis by auto
  next
    case True
    with Cons.prems obtain c where c: "cand a = Ok c" and
      rest: "fold_res (\<lambda>armor best. if \<not> p armor then Ok best
       else bind_res (cand armor) (\<lambda>c. Ok (if dst_ac c > dst_ac best then c else best))) armors
         (if dst_ac c > dst_ac b0 then c else b0) = Ok b"
      by (auto simp: bind_res_Ok)
    from Cons.IH [OF rest] True c show ?thesis by (auto split: if_splits)
  qed
qed

lemma starting_choice_derives:
  assumes "starting_choice cat input = Ok st"
  shows "derive_defense cat input (dst_choice st) = Ok st"
proof -
  from assms obtain cls un where
    un: "derive_defense cat input \<lparr>dc_schema_version = 1, dc_armor_id = None,
        dc_shield = owns input ''shield'' \<and> shield_trained cls\<rparr> = Ok un"
    and fold: "fold_res (\<lambda>armor best. if \<not> trained_candidate input cls armor then Ok best
        else bind_res (derive_defense cat input \<lparr>dc_schema_version = 1, dc_armor_id = Some (am_id armor),
            dc_shield = owns input ''shield'' \<and> shield_trained cls\<rparr>)
          (\<lambda>candidate. Ok (if dst_ac candidate > dst_ac best then candidate else best)))
        (eb_armor (ca_equipment cat)) un = Ok st"
    by (auto simp: starting_choice_def bind_res_Ok Let_def)
  from fold_best [OF fold] un derive_defense_choice show ?thesis by metis
qed

lemma derive_defense_version: "derive_defense cat input choice = Ok st \<Longrightarrow> dc_schema_version choice = 1"
  by (auto simp: derive_defense_def bind_res_Ok)

end
