(* ===== verification/Turn_Phases.thy ===== *)
theory Turn_Phases
  imports Prelude
begin

text \<open>
  \<^verbatim>\<open>crates/app-domain/src/combat/turn_fsm.rs\<close>: the four phases of a turn, as the transition
  function \<open>advance_phase\<close> and as the step relation \<open>phase_step\<close> it implements. Completion
  happens in the last phase and nowhere else, and no step leaves a complete turn.
\<close>

datatype turn_phase = Validate | Resolve | Narrate | Persist

record turn_state =
  ts_phase :: turn_phase
  ts_complete :: bool

definition new_turn :: turn_state where
  "new_turn = \<lparr>ts_phase = Validate, ts_complete = False\<rparr>"

datatype turn_fsm_error = WrongPhase (wp_current: turn_phase) (wp_expected: turn_phase) | AlreadyComplete

definition advance_phase :: "turn_phase \<Rightarrow> turn_state \<Rightarrow> (turn_fsm_error, unit) res \<times> turn_state" where
  "advance_phase expected s =
     (if ts_complete s then (Err AlreadyComplete, s)
      else if ts_phase s \<noteq> expected then (Err (WrongPhase (ts_phase s) expected), s)
      else
        (Ok (),
         case ts_phase s of
           Validate \<Rightarrow> s\<lparr>ts_phase := Resolve\<rparr>
         | Resolve \<Rightarrow> s\<lparr>ts_phase := Narrate\<rparr>
         | Narrate \<Rightarrow> s\<lparr>ts_phase := Persist\<rparr>
         | Persist \<Rightarrow> s\<lparr>ts_complete := True\<rparr>))"

text \<open>The order of the phases.\<close>

fun phase_rank :: "turn_phase \<Rightarrow> nat" where
  "phase_rank Validate = 0"
| "phase_rank Resolve = 1"
| "phase_rank Narrate = 2"
| "phase_rank Persist = 3"

definition phase_step :: "turn_state \<Rightarrow> turn_state \<Rightarrow> bool" where
  "phase_step s t \<longleftrightarrow> (\<exists>p. advance_phase p s = (Ok (), t))"

definition turn_ok :: "turn_state \<Rightarrow> bool" where
  "turn_ok s \<longleftrightarrow> (ts_complete s \<longrightarrow> ts_phase s = Persist)"

text \<open>How many accepted steps a state is from the start.\<close>

definition turn_progress :: "turn_state \<Rightarrow> nat" where
  "turn_progress s = phase_rank (ts_phase s) + (if ts_complete s then 1 else 0)"

lemma phase_rank_inj [simp]: "phase_rank p = phase_rank q \<longleftrightarrow> p = q"
  by (cases p; cases q) simp_all

lemma phase_rank_le: "phase_rank p \<le> 3"
  by (cases p) simp_all

lemma advance_phase_Ok:
  "advance_phase p s = (Ok (), t) \<longleftrightarrow> \<not> ts_complete s \<and> ts_phase s = p \<and>
     t = (if p = Persist then s\<lparr>ts_complete := True\<rparr> else s\<lparr>ts_phase :=
       (case p of Validate \<Rightarrow> Resolve | Resolve \<Rightarrow> Narrate | _ \<Rightarrow> Persist)\<rparr>)"
  by (cases p) (auto simp: advance_phase_def)

lemma phase_step_progress: "phase_step s t \<Longrightarrow> turn_progress t = Suc (turn_progress s)"
  unfolding phase_step_def advance_phase_Ok turn_progress_def
  by (elim exE conjE; cases "ts_phase s") auto

lemma phase_step_ok: "turn_ok s \<Longrightarrow> phase_step s t \<Longrightarrow> turn_ok t"
  unfolding phase_step_def advance_phase_Ok turn_ok_def by auto

interpretation turn: invariant_machine "\<lambda>s. s = new_turn" phase_step turn_ok
proof
  show "s = new_turn \<Longrightarrow> turn_ok s" for s by (simp add: turn_ok_def new_turn_def)
  show "turn_ok s \<Longrightarrow> phase_step s t \<Longrightarrow> turn_ok t" for s t by (rule phase_step_ok)
qed

lemma reachable_turn:
  assumes "reachable_by (\<lambda>s. s = new_turn) phase_step s"
  shows "turn_progress s \<le> 4" "turn_ok s"
proof -
  show ok: "turn_ok s" by (rule turn.reachable_inv [OF assms])
  then show "turn_progress s \<le> 4"
    using phase_rank_le [of "ts_phase s"] by (auto simp: turn_ok_def turn_progress_def)
qed

text \<open>The run of expected phases given to \<open>advance_phase\<close> one after the other.\<close>

fun advance_all :: "turn_phase list \<Rightarrow> turn_state \<Rightarrow> (turn_fsm_error, unit) res \<times> turn_state" where
  "advance_all [] s = (Ok (), s)"
| "advance_all (p # ps) s = and_then (advance_phase p s) (\<lambda>_. advance_all ps)"

lemma advance_all_from:
  assumes "advance_all ps s = (Ok (), t)" "turn_ok s"
  shows "turn_progress t = turn_progress s + length ps"
    and "map phase_rank ps = [phase_rank (ts_phase s)..<phase_rank (ts_phase s) + length ps]"
proof -
  have "turn_progress t = turn_progress s + length ps
     \<and> map phase_rank ps = [phase_rank (ts_phase s)..<phase_rank (ts_phase s) + length ps]"
    using assms
  proof (induction ps arbitrary: s)
    case (Cons p ps)
    obtain s1 where s1: "advance_phase p s = (Ok (), s1)" "advance_all ps s1 = (Ok (), t)"
      using Cons.prems(1) by (cases "advance_phase p s"; cases "fst (advance_phase p s)") auto
    have st: "phase_step s s1" using s1(1) phase_step_def by blast
    have ih: "turn_progress t = turn_progress s1 + length ps"
      "map phase_rank ps = [phase_rank (ts_phase s1)..<phase_rank (ts_phase s1) + length ps]"
      using Cons.IH [OF s1(2) phase_step_ok [OF Cons.prems(2) st]] by blast+
    from s1(1) have p: "ts_phase s = p" "\<not> ts_complete s"
      "s1 = (if p = Persist then s\<lparr>ts_complete := True\<rparr> else s\<lparr>ts_phase :=
         (case p of Validate \<Rightarrow> Resolve | Resolve \<Rightarrow> Narrate | _ \<Rightarrow> Persist)\<rparr>)"
      by (simp_all add: advance_phase_Ok)
    have tail: "ps = []" if "p = Persist"
      using s1(2) p(3) that by (cases ps) (auto simp: advance_phase_def)
    have rank: "phase_rank (ts_phase s1) = Suc (phase_rank p)" if "p \<noteq> Persist"
      using p(3) that by (cases p) auto
    show ?case
    proof (cases "p = Persist")
      case True
      then show ?thesis using tail ih(1) p(1) phase_step_progress [OF st] by simp
    next
      case False
      have "[phase_rank p..<phase_rank p + Suc (length ps)]
          = phase_rank p # [Suc (phase_rank p)..<Suc (phase_rank p) + length ps]"
        by (subst upt_conv_Cons) simp_all
      then show ?thesis using ih p(1) rank [OF False] phase_step_progress [OF st] by simp
    qed
  qed simp
  then show "turn_progress t = turn_progress s + length ps"
    "map phase_rank ps = [phase_rank (ts_phase s)..<phase_rank (ts_phase s) + length ps]" by blast+
qed

lemma new_turn_ok: "turn_ok new_turn"
  by (simp add: turn_ok_def new_turn_def)

lemma advance_all_ok: "advance_all ps s = (r, t) \<Longrightarrow> turn_ok s \<Longrightarrow> turn_ok t"
proof (induction ps arbitrary: s)
  case (Cons p ps)
  obtain x u where u: "advance_phase p s = (x, u)" by fastforce
  show ?case
  proof (cases x)
    case (Ok y)
    with u have "turn_ok u" using phase_step_ok [OF Cons.prems(2)] by (auto simp: phase_step_def)
    with Cons u Ok show ?thesis by simp
  qed (use Cons.prems u in \<open>auto simp: advance_phase_def split: if_splits\<close>)
qed simp

end
