(* ===== verification/Party.thy ===== *)
theory Party
  imports Prelude
begin

text \<open>
  \<^verbatim>\<open>crates/app-domain/src/party.rs\<close>: the roster of a party. A reachable roster is valid, its
  members and characters are distinct, and a member's character never changes.
\<close>

definition max_party_members :: usize where "max_party_members = 4"

datatype party_role = Host | Player

record party_member =
  pm_member_id :: uuid
  pm_character_id :: uuid
  pm_role :: party_role

record party_roster =
  pr_host_member_id :: uuid
  pr_members :: "party_member list"

datatype party_error = InvalidIdentity | UnknownMember | NotOwner | CharacterAlreadyOwned
  | MemberAlreadyBound | Full

definition nil_id :: "uuid \<Rightarrow> bool" where "nil_id u \<longleftrightarrow> u = 0"

definition validate_party :: "party_roster \<Rightarrow> (party_error, unit) res" where
  "validate_party p =
     (if nil_id (pr_host_member_id p)
         \<or> pr_members p = []
         \<or> length (pr_members p) > max_party_members
         \<or> (\<exists>m\<in>set (pr_members p). nil_id (pm_member_id m) \<or> nil_id (pm_character_id m))
         \<or> card (set (map pm_member_id (pr_members p))) \<noteq> length (pr_members p)
         \<or> card (set (map pm_character_id (pr_members p))) \<noteq> length (pr_members p)
         \<or> length (filter (\<lambda>m. pm_role m = Host) (pr_members p)) \<noteq> 1
         \<or> \<not> (\<exists>m\<in>set (pr_members p). pm_member_id m = pr_host_member_id p \<and> pm_role m = Host)
      then Err InvalidIdentity else Ok ())"

definition new_party :: "uuid \<Rightarrow> uuid \<Rightarrow> (party_error, party_roster) res" where
  "new_party host_member_id character_id =
     (let party = \<lparr>pr_host_member_id = host_member_id,
            pr_members = [\<lparr>pm_member_id = host_member_id, pm_character_id = character_id, pm_role = Host\<rparr>]\<rparr>
      in bind_res (validate_party party) (\<lambda>_. Ok party))"

definition join_party :: "uuid \<Rightarrow> uuid \<Rightarrow> party_roster \<Rightarrow> (party_error, unit) res \<times> party_roster" where
  "join_party member_id character_id p =
     try_state (validate_party p) p (\<lambda>_.
     if nil_id member_id \<or> nil_id character_id then (Err InvalidIdentity, p)
     else
       case find (\<lambda>m. pm_member_id m = member_id) (pr_members p) of
         Some m \<Rightarrow> (if pm_character_id m = character_id then Ok () else Err MemberAlreadyBound, p)
       | None \<Rightarrow>
           if \<exists>m\<in>set (pr_members p). pm_character_id m = character_id then (Err CharacterAlreadyOwned, p)
           else if length (pr_members p) \<ge> max_party_members then (Err Full, p)
           else (Ok (), p\<lparr>pr_members := pr_members p
                  @ [\<lparr>pm_member_id = member_id, pm_character_id = character_id, pm_role = Player\<rparr>]\<rparr>))"

definition authorize_member :: "party_roster \<Rightarrow> uuid \<Rightarrow> uuid \<Rightarrow> (party_error, unit) res" where
  "authorize_member p member_id character_id =
     bind_res (validate_party p) (\<lambda>_.
     bind_res (ok_or (find (\<lambda>m. pm_member_id m = member_id) (pr_members p)) UnknownMember) (\<lambda>m.
     reject_if (pm_character_id m \<noteq> character_id) NotOwner))"

section \<open>Valid rosters\<close>

definition party_ok :: "party_roster \<Rightarrow> bool" where
  "party_ok p \<longleftrightarrow>
     pr_host_member_id p \<noteq> 0 \<and> pr_members p \<noteq> [] \<and> length (pr_members p) \<le> max_party_members
     \<and> (\<forall>m\<in>set (pr_members p). pm_member_id m \<noteq> 0 \<and> pm_character_id m \<noteq> 0)
     \<and> distinct (map pm_member_id (pr_members p)) \<and> distinct (map pm_character_id (pr_members p))
     \<and> (\<exists>m\<in>set (pr_members p). pm_member_id m = pr_host_member_id p \<and> pm_role m = Host)
     \<and> length (filter (\<lambda>m. pm_role m = Host) (pr_members p)) = 1"

lemma card_set_distinct: "card (set (map f xs)) = length xs \<longleftrightarrow> distinct (map f xs)"
  using card_distinct [of "map f xs"] distinct_card [of "map f xs"] by auto

lemma validate_party_Ok: "validate_party p = Ok u \<longleftrightarrow> party_ok p"
  unfolding validate_party_def party_ok_def nil_id_def card_set_distinct by auto

lemma validate_party_cases: "validate_party p = (if party_ok p then Ok () else Err InvalidIdentity)"
  using validate_party_Ok [of p "()"] by (auto simp: validate_party_def split: if_splits)

definition member_owns :: "party_roster \<Rightarrow> uuid \<Rightarrow> uuid \<Rightarrow> bool" where
  "member_owns p m c \<longleftrightarrow> (\<exists>x\<in>set (pr_members p). pm_member_id x = m \<and> pm_character_id x = c)"

lemma find_member:
  assumes "distinct (map pm_member_id xs)" "x \<in> set xs"
  shows "find (\<lambda>m. pm_member_id m = pm_member_id x) xs = Some x"
  using assms by (induction xs) force+

lemma join_party_Ok:
  assumes "join_party m c p = (Ok u, q)"
  shows "party_ok p" "party_ok q" "member_owns q m c" "member_owns p a b \<Longrightarrow> member_owns q a b"
    "pr_host_member_id q = pr_host_member_id p"
    "q = p \<or> q = p\<lparr>pr_members := pr_members p @ [\<lparr>pm_member_id = m, pm_character_id = c, pm_role = Player\<rparr>]\<rparr>"
proof -
  show ok: "party_ok p"
    using assms by (cases "validate_party p") (auto simp: join_party_def validate_party_Ok)
  have run: "(if nil_id m \<or> nil_id c then (Err InvalidIdentity, p)
     else
       case find (\<lambda>x. pm_member_id x = m) (pr_members p) of
         Some x \<Rightarrow> (if pm_character_id x = c then Ok () else Err MemberAlreadyBound, p)
       | None \<Rightarrow>
           if \<exists>x\<in>set (pr_members p). pm_character_id x = c then (Err CharacterAlreadyOwned, p)
           else if length (pr_members p) \<ge> max_party_members then (Err Full, p)
           else (Ok (), p\<lparr>pr_members := pr_members p
                  @ [\<lparr>pm_member_id = m, pm_character_id = c, pm_role = Player\<rparr>]\<rparr>)) = (Ok u, q)"
    using assms ok by (simp add: join_party_def validate_party_cases)
  have "party_ok q \<and> member_owns q m c \<and> (member_owns p a b \<longrightarrow> member_owns q a b) \<and> pr_host_member_id q = pr_host_member_id p
     \<and> (q = p \<or> q = p\<lparr>pr_members := pr_members p @ [\<lparr>pm_member_id = m, pm_character_id = c, pm_role = Player\<rparr>]\<rparr>)"
  proof (cases "find (\<lambda>x. pm_member_id x = m) (pr_members p)")
    case (Some x)
    with run have "q = p" "pm_character_id x = c" by (auto split: if_splits)
    moreover have "x \<in> set (pr_members p)" "pm_member_id x = m"
      using Some by (auto simp: find_Some_iff)
    ultimately show ?thesis using ok by (auto simp: member_owns_def)
  next
    case None
    then have new: "\<forall>x\<in>set (pr_members p). pm_member_id x \<noteq> m" by (simp add: find_None_iff)
    from run None have c: "\<not> nil_id m" "\<not> nil_id c" "\<forall>x\<in>set (pr_members p). pm_character_id x \<noteq> c"
      "length (pr_members p) < max_party_members"
      "q = p\<lparr>pr_members := pr_members p @ [\<lparr>pm_member_id = m, pm_character_id = c, pm_role = Player\<rparr>]\<rparr>"
      by (auto split: if_splits)
    have "party_ok q" unfolding party_ok_def c(5)
      using ok new c(1-4) by (auto simp: party_ok_def nil_id_def)
    with c(5) show ?thesis by (auto simp: member_owns_def)
  qed
  then show "party_ok q" "member_owns q m c" "member_owns p a b \<Longrightarrow> member_owns q a b" "pr_host_member_id q = pr_host_member_id p"
    "q = p \<or> q = p\<lparr>pr_members := pr_members p @ [\<lparr>pm_member_id = m, pm_character_id = c, pm_role = Player\<rparr>]\<rparr>"
    by blast+
qed

lemma join_party_Err: "join_party m c p = (Err e, q) \<Longrightarrow> q = p"
  by (auto simp: join_party_def try_state_def split: res.splits if_splits option.splits)

lemma authorize_member_Ok:
  "authorize_member p m c = Ok u \<longleftrightarrow> party_ok p \<and> member_owns p m c"
proof
  assume "authorize_member p m c = Ok u"
  then show "party_ok p \<and> member_owns p m c"
    by (auto simp: authorize_member_def bind_res_Ok validate_party_Ok find_Some_iff member_owns_def)
next
  assume a: "party_ok p \<and> member_owns p m c"
  then obtain x where x: "x \<in> set (pr_members p)" "pm_member_id x = m" "pm_character_id x = c"
    by (auto simp: member_owns_def)
  have "find (\<lambda>y. pm_member_id y = pm_member_id x) (pr_members p) = Some x"
    by (rule find_member) (use a x in \<open>auto simp: party_ok_def\<close>)
  with a x show "authorize_member p m c = Ok u"
    by (simp add: authorize_member_def validate_party_cases reject_if_def)
qed

lemma member_owns_unique:
  assumes "party_ok p" "member_owns p m c"
  shows "member_owns p m c' \<longleftrightarrow> c' = c" "member_owns p m' c \<longleftrightarrow> m' = m"
proof -
  have "inj_on pm_member_id (set (pr_members p))" "inj_on pm_character_id (set (pr_members p))"
    using assms(1) by (simp_all add: party_ok_def distinct_map)
  with assms(2) show "member_owns p m c' \<longleftrightarrow> c' = c" "member_owns p m' c \<longleftrightarrow> m' = m"
    unfolding member_owns_def inj_on_def by metis+
qed

section \<open>Reachable rosters\<close>

definition party_start :: "party_roster \<Rightarrow> bool" where
  "party_start p \<longleftrightarrow> (\<exists>m c. new_party m c = Ok p)"

definition party_step :: "party_roster \<Rightarrow> party_roster \<Rightarrow> bool" where
  "party_step p q \<longleftrightarrow> (\<exists>m c r. join_party m c p = (r, q))"

lemma new_party_ok: "new_party m c = Ok p \<Longrightarrow> party_ok p"
  by (auto simp: new_party_def bind_res_Ok validate_party_Ok Let_def)

lemma party_step_cases:
  assumes "party_step p q"
  shows "q = p \<or> (\<exists>m c u. join_party m c p = (Ok u, q))"
proof -
  obtain m c r where j: "join_party m c p = (r, q)" using assms by (auto simp: party_step_def)
  show ?thesis
  proof (cases r)
    case (Ok u)
    with j show ?thesis by blast
  next
    case (Err e)
    with j join_party_Err show ?thesis by blast
  next
    case Panic
    with j show ?thesis
      by (auto simp: join_party_def try_state_def validate_party_cases split: res.splits if_splits option.splits)
  qed
qed

interpretation party: invariant_machine party_start party_step party_ok
proof
  show "party_start p \<Longrightarrow> party_ok p" for p using new_party_ok by (auto simp: party_start_def)
  show "party_ok p \<Longrightarrow> party_step p q \<Longrightarrow> party_ok q" for p q
    using party_step_cases [of p q] join_party_Ok(2) by blast
qed

lemma party_steps_keep:
  assumes "party_step\<^sup>*\<^sup>* p q" "member_owns p m c"
  shows "member_owns q m c" "pr_host_member_id q = pr_host_member_id p"
proof -
  have "member_owns q m c \<and> pr_host_member_id q = pr_host_member_id p"
    using assms
  proof (induction rule: rtranclp_induct)
    case (step q t)
    with party_step_cases [of q t] join_party_Ok(4,5) show ?case by metis
  qed simp
  then show "member_owns q m c" "pr_host_member_id q = pr_host_member_id p" by blast+
qed

end
