(* ===== verification/Rest.thy ===== *)
theory Rest
  imports Magic
begin

text \<open>
  \<^verbatim>\<open>crates/app-domain/src/rest.rs\<close>: \<open>resolve_rest\<close>, in the order of its checks. An accepted
  rest never lowers hit points, never exceeds the maximum, keeps the hit dice within the level and
  moves the clock by its duration.
\<close>

datatype rest_intent = Short u8 | Long | Wait u16

record rest_resources =
  rr_hit_dice_remaining :: u8
  rr_last_long_rest_completed :: "u64 option"
  rr_spell_slots :: "(u8, u8) table"

record rest_input =
  ri_class_id :: string
  ri_level :: u8
  ri_hp :: i32
  ri_max_hp :: i32
  ri_constitution_modifier :: i32
  ri_elapsed_seconds :: u64
  ri_resources :: rest_resources
  ri_safe :: bool
  ri_combat_active :: bool

record rest_outcome =
  ro_hp :: i32
  ro_elapsed_seconds :: u64
  ro_duration_minutes :: u16
  ro_resources :: rest_resources
  ro_rolls :: "roll_detail list"

datatype rest_error = Unsafe | Downed | Invalid | TooSoon

definition hit_die_of :: "i32 \<Rightarrow> (rest_error, die) res" where
  "hit_die_of n = (if n = 6 then Ok D6 else if n = 8 then Ok D8 else if n = 10 then Ok D10
     else if n = 12 then Ok D12 else Err Invalid)"

definition rest_duration :: "rest_input \<Rightarrow> rest_intent \<Rightarrow> (rest_error, u16) res" where
  "rest_duration st intent =
     (case intent of
        Short hit_dice \<Rightarrow>
          if hit_dice > rr_hit_dice_remaining (ri_resources st) then Err Invalid else Ok 60
      | Long \<Rightarrow>
          if (case rr_last_long_rest_completed (ri_resources st) of None \<Rightarrow> False
              | Some ended \<Rightarrow> ri_elapsed_seconds st - ended < 16 * 60 * 60)
          then Err TooSoon else Ok 480
      | Wait minutes \<Rightarrow> if \<not> (1 \<le> minutes \<and> minutes \<le> 1440) then Err Invalid else Ok minutes)"

text \<open>The loop over the hit dice spent in a short rest.\<close>

fun spend_hit_dice ::
  "'g sampler \<Rightarrow> die \<Rightarrow> i32 \<Rightarrow> i32 \<Rightarrow> nat \<Rightarrow> i32 \<times> roll_detail list \<Rightarrow> 'g seeded_rng \<Rightarrow>
   (i32 \<times> roll_detail list) \<times> 'g seeded_rng" where
  "spend_hit_dice rr d m max_hp 0 (hp, rolls) rng = ((hp, rolls), rng)"
| "spend_hit_dice rr d m max_hp (Suc n) (hp, rolls) rng =
     (let (detail, rng1) = roll_expr_detailed rr \<lparr>de_count = 1, de_die = d, de_modifier = m\<rparr> rng;
          hp1 = min (i32_saturating_add hp (max (rd_total detail) 1)) max_hp
      in spend_hit_dice rr d m max_hp n (hp1, rolls @ [detail]) rng1)"

text \<open>Everything before the first roll: the hit die, the duration and the new clock.\<close>

definition rest_checks :: "catalog \<Rightarrow> rest_input \<Rightarrow> rest_intent \<Rightarrow> (rest_error, die \<times> u16 \<times> u64) res" where
  "rest_checks cat st intent =
     (let res0 = ri_resources st in
      bind_res (reject_if (\<not> ri_safe st \<or> ri_combat_active st) Unsafe) (\<lambda>_.
      bind_res (reject_if (ri_hp st \<le> 0) Downed) (\<lambda>_.
      bind_res (reject_if (\<not> (1 \<le> ri_level st \<and> ri_level st \<le> 20) \<or> ri_hp st > ri_max_hp st
         \<or> rr_hit_dice_remaining res0 > ri_level st
         \<or> (case rr_last_long_rest_completed res0 of None \<Rightarrow> False | Some t \<Rightarrow> t > ri_elapsed_seconds st)) Invalid) (\<lambda>_.
      bind_res (ok_or (find_class cat (ri_class_id st)) Invalid) (\<lambda>cls.
      bind_res (hit_die_of (cl_hit_die cls)) (\<lambda>d.
      bind_res (rest_duration st intent) (\<lambda>duration.
      bind_res (case u64_checked_add (ri_elapsed_seconds st) (duration * 60) of
                   Some t \<Rightarrow> if t \<le> nat i64_max then Ok t else Err Invalid
                 | None \<Rightarrow> Err Invalid) (\<lambda>elapsed.
      Ok (d, duration, elapsed)))))))))"

definition rest_effect ::
  "'g sampler \<Rightarrow> rest_input \<Rightarrow> rest_intent \<Rightarrow> die \<Rightarrow> u16 \<Rightarrow> u64 \<Rightarrow> 'g seeded_rng \<Rightarrow> rest_outcome \<times> 'g seeded_rng" where
  "rest_effect rr st intent d duration elapsed rng =
     (let res0 = ri_resources st; capacity = slot_capacity (ri_class_id st) (ri_level st) in
      case intent of
        Short hit_dice \<Rightarrow>
          let ((hp, rolls), rng1) = spend_hit_dice rr d (ri_constitution_modifier st) (ri_max_hp st) hit_dice (ri_hp st, []) rng;
              res1 = res0\<lparr>rr_hit_dice_remaining := unsigned_sub 8 (rr_hit_dice_remaining res0) hit_dice\<rparr>;
              res2 = (if ri_class_id st = ''warlock'' then res1\<lparr>rr_spell_slots := capacity\<rparr> else res1)
          in (\<lparr>ro_hp = hp, ro_elapsed_seconds = elapsed, ro_duration_minutes = duration,
               ro_resources = res2, ro_rolls = rolls\<rparr>, rng1)
      | Long \<Rightarrow>
          (\<lparr>ro_hp = ri_max_hp st, ro_elapsed_seconds = elapsed, ro_duration_minutes = duration,
            ro_resources = res0\<lparr>rr_hit_dice_remaining := ri_level st, rr_spell_slots := capacity,
               rr_last_long_rest_completed := Some elapsed\<rparr>, ro_rolls = []\<rparr>, rng)
      | Wait _ \<Rightarrow>
          (\<lparr>ro_hp = ri_hp st, ro_elapsed_seconds = elapsed, ro_duration_minutes = duration,
            ro_resources = res0, ro_rolls = []\<rparr>, rng))"

definition resolve_rest ::
  "catalog \<Rightarrow> 'g sampler \<Rightarrow> rest_input \<Rightarrow> rest_intent \<Rightarrow> 'g seeded_rng \<Rightarrow>
   (rest_error, rest_outcome) res \<times> 'g seeded_rng" where
  "resolve_rest cat rr st intent rng =
     try_state (rest_checks cat st intent) rng (\<lambda>(d, duration, elapsed).
     let (out, rng1) = rest_effect rr st intent d duration elapsed rng in (Ok out, rng1))"

section \<open>What a rest does\<close>

lemma spend_hit_dice_spec:
  assumes "spend_hit_dice rr d m max_hp n (hp, rolls) rng = ((hp', rolls'), rng')" "hp \<le> max_hp" "0 < hp" "max_hp \<le> i32_max"
  shows "hp \<le> hp' \<and> hp' \<le> max_hp \<and> length rolls' = length rolls + n \<and> (hp' = max_hp \<or> hp + int n \<le> hp')"
  using assms
proof (induction n arbitrary: hp rolls rng)
  case (Suc n)
  obtain detail rng1 where roll: "roll_expr_detailed rr \<lparr>de_count = 1, de_die = d, de_modifier = m\<rparr> rng = (detail, rng1)"
    by fastforce
  let ?hp = "min (i32_saturating_add hp (max (rd_total detail) 1)) max_hp"
  have ge: "hp + 1 \<le> ?hp \<or> ?hp = max_hp" "hp \<le> ?hp" "0 < ?hp"
    using Suc.prems(2,3,4) unfolding i32_saturating_add_def sat32_def by linarith+
  from Suc.prems(1) roll have "spend_hit_dice rr d m max_hp n (?hp, rolls @ [detail]) rng1 = ((hp', rolls'), rng')"
    by simp
  from Suc.IH [OF this _ ge(3) Suc.prems(4)] ge show ?case by auto
qed simp

text \<open>Everything the checks establish of an accepted rest.\<close>

definition rest_allowed :: "catalog \<Rightarrow> rest_input \<Rightarrow> rest_intent \<Rightarrow> u16 \<Rightarrow> u64 \<Rightarrow> bool" where
  "rest_allowed cat st intent duration elapsed \<longleftrightarrow>
     ri_safe st \<and> \<not> ri_combat_active st \<and> 0 < ri_hp st \<and> ri_hp st \<le> ri_max_hp st
     \<and> 1 \<le> ri_level st \<and> ri_level st \<le> 20
     \<and> rr_hit_dice_remaining (ri_resources st) \<le> ri_level st
     \<and> (\<forall>t. rr_last_long_rest_completed (ri_resources st) = Some t \<longrightarrow> t \<le> ri_elapsed_seconds st)
     \<and> rest_duration st intent = Ok duration
     \<and> elapsed = ri_elapsed_seconds st + duration * 60 \<and> elapsed \<le> nat i64_max
     \<and> (\<exists>cls d. find_class cat (ri_class_id st) = Some cls \<and> hit_die_of (cl_hit_die cls) = Ok d)"

lemma rest_duration_no_panic: "rest_duration st intent \<noteq> Panic"
  by (auto simp: rest_duration_def split: rest_intent.split)

lemma hit_die_of_no_panic: "hit_die_of n \<noteq> Panic"
  by (simp add: hit_die_of_def)

lemma rest_checks_Ok:
  assumes "rest_checks cat st intent = Ok (d, duration, elapsed)"
  shows "rest_allowed cat st intent duration elapsed"
proof -
  from assms obtain cls where cls: "find_class cat (ri_class_id st) = Some cls" "hit_die_of (cl_hit_die cls) = Ok d"
    by (auto simp: rest_checks_def bind_res_Ok Let_def)
  from assms have g: "ri_safe st" "\<not> ri_combat_active st" "\<not> ri_hp st \<le> 0" "rest_duration st intent = Ok duration"
    and bad: "\<not> (\<not> (1 \<le> ri_level st \<and> ri_level st \<le> 20) \<or> ri_hp st > ri_max_hp st
         \<or> rr_hit_dice_remaining (ri_resources st) > ri_level st
         \<or> (case rr_last_long_rest_completed (ri_resources st) of None \<Rightarrow> False | Some t \<Rightarrow> t > ri_elapsed_seconds st))"
    and time: "(case u64_checked_add (ri_elapsed_seconds st) (duration * 60) of
                   Some t \<Rightarrow> if t \<le> nat i64_max then Ok t else Err Invalid
                 | None \<Rightarrow> Err Invalid) = Ok elapsed"
    unfolding rest_checks_def by (simp_all add: bind_res_Ok Let_def) (elim conjE exE, assumption)+
  show ?thesis
    using cls g bad time unfolding rest_allowed_def
    by (auto simp: u64_checked_add_def split: option.splits if_splits)
qed

lemma rest_checks_no_panic: "rest_checks cat st intent \<noteq> Panic"
  unfolding rest_checks_def Let_def
  by (auto simp: bind_res_Panic rest_duration_no_panic hit_die_of_no_panic split: option.splits if_splits)

text \<open>The effect of each kind of rest.\<close>

definition rest_result :: "rest_input \<Rightarrow> rest_intent \<Rightarrow> rest_outcome \<Rightarrow> bool" where
  "rest_result st intent out \<longleftrightarrow>
      (case intent of
         Short n \<Rightarrow> n \<le> rr_hit_dice_remaining (ri_resources st)
           \<and> rr_hit_dice_remaining (ro_resources out) = rr_hit_dice_remaining (ri_resources st) - n
           \<and> rr_last_long_rest_completed (ro_resources out) = rr_last_long_rest_completed (ri_resources st)
           \<and> rr_spell_slots (ro_resources out) = (if ri_class_id st = ''warlock''
               then slot_capacity (ri_class_id st) (ri_level st) else rr_spell_slots (ri_resources st))
           \<and> ri_hp st \<le> ro_hp out \<and> ro_hp out \<le> ri_max_hp st \<and> length (ro_rolls out) = n
           \<and> (ro_hp out = ri_max_hp st \<or> ri_hp st + int n \<le> ro_hp out)
       | Long \<Rightarrow> ro_hp out = ri_max_hp st \<and> ro_rolls out = []
           \<and> ro_resources out = \<lparr>rr_hit_dice_remaining = ri_level st,
                rr_last_long_rest_completed = Some (ro_elapsed_seconds out),
                rr_spell_slots = slot_capacity (ri_class_id st) (ri_level st)\<rparr>
           \<and> (\<forall>t. rr_last_long_rest_completed (ri_resources st) = Some t \<longrightarrow> t + 57600 \<le> ri_elapsed_seconds st)
       | Wait m \<Rightarrow> ro_hp out = ri_hp st \<and> ro_resources out = ri_resources st \<and> ro_rolls out = []
           \<and> ro_duration_minutes out = m)"

lemma rest_effect_result:
  assumes run: "rest_effect rr st intent d duration elapsed rng = (out, rng')" and mx: "ri_max_hp st \<le> i32_max"
    and ok: "rest_allowed cat st intent duration elapsed"
  shows "rest_result st intent out" "ro_duration_minutes out = duration" "ro_elapsed_seconds out = elapsed"
proof -
  have hp: "ri_hp st \<le> ri_max_hp st" "0 < ri_hp st" and dur: "rest_duration st intent = Ok duration"
    using ok by (simp_all add: rest_allowed_def)
  have "rest_result st intent out \<and> ro_duration_minutes out = duration \<and> ro_elapsed_seconds out = elapsed"
  proof (cases intent)
    case (Short n)
    obtain hp' rolls rng1 where sp: "spend_hit_dice rr d (ri_constitution_modifier st) (ri_max_hp st) n (ri_hp st, []) rng
       = ((hp', rolls), rng1)" by (metis prod.exhaust_sel)
    have n: "n \<le> rr_hit_dice_remaining (ri_resources st)"
      using dur Short by (simp add: rest_duration_def split: if_splits)
    from spend_hit_dice_spec [OF sp hp mx] run Short sp n show ?thesis
      by (auto simp: rest_effect_def rest_result_def Let_def)
  next
    case Long
    with run dur ok show ?thesis
      by (auto simp: rest_effect_def rest_result_def Let_def rest_duration_def rest_allowed_def split: if_splits option.splits)
  next
    case (Wait m)
    with run dur show ?thesis
      by (auto simp: rest_effect_def rest_result_def rest_duration_def Let_def split: if_splits)
  qed
  then show "rest_result st intent out" "ro_duration_minutes out = duration" "ro_elapsed_seconds out = elapsed" by blast+
qed

lemma resolve_rest_cases:
  assumes run: "resolve_rest cat rr st intent rng = (res, rng')" and mx: "ri_max_hp st \<le> i32_max"
  shows "res \<noteq> Panic" "res = Err e \<Longrightarrow> rng' = rng"
    "res = Ok out \<Longrightarrow> rest_allowed cat st intent (ro_duration_minutes out) (ro_elapsed_seconds out) \<and> rest_result st intent out"
proof -
  have "res \<noteq> Panic \<and> (\<forall>e. res = Err e \<longrightarrow> rng' = rng) \<and>
    (\<forall>out. res = Ok out \<longrightarrow> rest_allowed cat st intent (ro_duration_minutes out) (ro_elapsed_seconds out)
       \<and> rest_result st intent out)"
  proof (cases "rest_checks cat st intent")
    case (Ok q)
    obtain d duration elapsed where q: "q = (d, duration, elapsed)" by (cases q)
    obtain out rng1 where e: "rest_effect rr st intent d duration elapsed rng = (out, rng1)" by fastforce
    have al: "rest_allowed cat st intent duration elapsed" using rest_checks_Ok Ok q by blast
    from rest_effect_result [OF e mx al] al run Ok q e show ?thesis by (auto simp: resolve_rest_def)
  next
    case (Err e)
    with run show ?thesis by (auto simp: resolve_rest_def)
  next
    case Panic
    with rest_checks_no_panic show ?thesis by blast
  qed
  then show "res \<noteq> Panic" "res = Err e \<Longrightarrow> rng' = rng"
    "res = Ok out \<Longrightarrow> rest_allowed cat st intent (ro_duration_minutes out) (ro_elapsed_seconds out) \<and> rest_result st intent out"
    by blast+
qed

end
