(* ===== verification/Adventure.thy ===== *)
theory Adventure
  imports Prelude
begin

text \<open>
  \<^verbatim>\<open>crates/app-domain/src/adventure.rs\<close>: the authored adventure. \<open>apply_action\<close> checks an action
  against \<open>available_actions\<close> and then performs it; \<open>resolve_defense\<close> settles the defense fight.
  \<open>adventure_step\<close> is any accepted call, \<open>set_encounter\<close> the assignment the callers make to
  \<open>defense_encounter_id\<close>. The invariant ties the recorded facts to the actions that give them.
\<close>

section \<open>State\<close>

datatype location = Town | Quay | Shrine | Warehouse | Archive | Belfry

datatype fact = FerryRoute | PorterObservation | WardDamaged | WardUnderstood | RosterAvailable
  | ClapperRecovered | ClapperRepaired | TikhonLocated | TikhonRescued | LedgerRecovered
  | LedgerPublished | EchoAcknowledged | WardRestored | LowerSluiceSealed | RewardGranted | DefenseHeld

datatype ending = RememberedRiver | ClosedCrossing | UnfinishedDebt

datatype adv_action = StartDefense | MoveTo location | InspectQuay | TalkAgata | ConsultLeon
  | NegotiateClapper | RetrieveClapperPublicly | RepairClapper | LocateTikhon | RescueTikhon
  | EscortTikhonHome | RecoverRoster | RecoverLedger | AcknowledgeEcho | RestoreWard | SealSluice
  | PublishLedger | Finish

fun action_elapsed_seconds :: "adv_action \<Rightarrow> u64" where
  "action_elapsed_seconds Finish = 0"
| "action_elapsed_seconds StartDefense = 0"
| "action_elapsed_seconds ConsultLeon = 600"
| "action_elapsed_seconds RepairClapper = 600"
| "action_elapsed_seconds EscortTikhonHome = 600"
| "action_elapsed_seconds _ = 300"

datatype defense_outcome = Active | Held | Retreated | Defeated

record adventure_state =
  as_defense :: "defense_outcome option"
  as_defense_encounter_id :: "uuid option"
  as_package_id :: string
  as_location :: location
  as_facts :: "fact set"
  as_ending :: "ending option"
  as_closed :: bool
  as_history :: "adv_action list"

record transition =
  tr_state :: adventure_state
  tr_gold_reward :: u32

definition bell_adventure_id :: string where "bell_adventure_id = ''bell-beneath-water''"

definition new_adventure :: adventure_state where
  "new_adventure = \<lparr>as_defense = None, as_defense_encounter_id = None, as_package_id = bell_adventure_id,
     as_location = Town, as_facts = {FerryRoute}, as_ending = None, as_closed = False, as_history = []\<rparr>"

datatype adventure_error = AdventureError

section \<open>Actions on offer\<close>

fun adjacent :: "location \<Rightarrow> location list" where
  "adjacent Town = [Quay, Shrine, Warehouse]"
| "adjacent Quay = [Town, Archive]"
| "adjacent Shrine = [Town]"
| "adjacent Warehouse = [Town]"
| "adjacent Archive = [Quay, Belfry]"
| "adjacent Belfry = [Archive]"

definition offer :: "adv_action \<Rightarrow> bool \<Rightarrow> adv_action list" where
  "offer action cond = (if cond then [action] else [])"

fun local_actions :: "location \<Rightarrow> (fact \<Rightarrow> bool) \<Rightarrow> adv_action list" where
  "local_actions Town has =
     offer TalkAgata (\<not> has PorterObservation)
     @ offer PublishLedger (has LedgerRecovered \<and> \<not> has LedgerPublished)
     @ offer Finish True"
| "local_actions Quay has = offer InspectQuay (\<not> has WardDamaged)"
| "local_actions Shrine has = offer ConsultLeon (\<not> has WardUnderstood \<or> \<not> has RosterAvailable)"
| "local_actions Warehouse has =
     offer NegotiateClapper (\<not> has ClapperRecovered)
     @ offer RetrieveClapperPublicly (has WardDamaged \<and> \<not> has ClapperRecovered)
     @ offer RepairClapper (has ClapperRecovered \<and> \<not> has ClapperRepaired)"
| "local_actions Archive has =
     offer StartDefense (has TikhonLocated \<and> \<not> has TikhonRescued \<and> \<not> has DefenseHeld)
     @ offer LocateTikhon (\<not> has TikhonLocated)
     @ offer RescueTikhon (has TikhonLocated \<and> \<not> has TikhonRescued)
     @ offer EscortTikhonHome (has TikhonLocated \<and> \<not> has TikhonRescued)
     @ offer RecoverRoster (has TikhonLocated \<and> \<not> has RosterAvailable)
     @ offer RecoverLedger (has TikhonRescued \<and> \<not> has LedgerRecovered)"
| "local_actions Belfry has =
     offer AcknowledgeEcho (\<not> has EchoAcknowledged)
     @ offer RestoreWard (has ClapperRepaired \<and> has RosterAvailable \<and> has EchoAcknowledged
          \<and> \<not> has WardRestored \<and> \<not> has LowerSluiceSealed)
     @ offer SealSluice (\<not> has WardRestored \<and> \<not> has LowerSluiceSealed)"

definition available_actions :: "adventure_state \<Rightarrow> adv_action list" where
  "available_actions s =
     (if as_closed s \<or> as_package_id s \<noteq> bell_adventure_id \<or> as_defense s = Some Active then []
      else map MoveTo (adjacent (as_location s)) @ local_actions (as_location s) (\<lambda>f. f \<in> as_facts s))"

section \<open>Applying an action\<close>

definition add_facts :: "fact list \<Rightarrow> adventure_state \<Rightarrow> adventure_state" where
  "add_facts fs s = s\<lparr>as_facts := as_facts s \<union> set fs\<rparr>"

definition final_ending :: "fact set \<Rightarrow> ending" where
  "final_ending facts =
     (if TikhonRescued \<notin> facts then UnfinishedDebt
      else if WardRestored \<in> facts then RememberedRiver
      else if LowerSluiceSealed \<in> facts then ClosedCrossing
      else UnfinishedDebt)"

definition rescue :: "adventure_state \<Rightarrow> adventure_state \<times> u32" where
  "rescue s =
     (let s1 = add_facts [TikhonRescued] s
      in if RewardGranted \<in> as_facts s1 then (s1, 0) else (add_facts [RewardGranted] s1, 10))"

fun perform :: "adv_action \<Rightarrow> adventure_state \<Rightarrow> adventure_state \<times> u32" where
  "perform StartDefense s = (s\<lparr>as_defense := Some Active, as_defense_encounter_id := None\<rparr>, 0)"
| "perform (MoveTo l) s = (s\<lparr>as_location := l\<rparr>, 0)"
| "perform InspectQuay s = (add_facts [WardDamaged] s, 0)"
| "perform TalkAgata s = (add_facts [PorterObservation] s, 0)"
| "perform ConsultLeon s = (add_facts [WardUnderstood, RosterAvailable] s, 0)"
| "perform NegotiateClapper s = (add_facts [ClapperRecovered] s, 0)"
| "perform RetrieveClapperPublicly s = (add_facts [ClapperRecovered] s, 0)"
| "perform RepairClapper s = (add_facts [ClapperRepaired] s, 0)"
| "perform LocateTikhon s = (add_facts [TikhonLocated] s, 0)"
| "perform RescueTikhon s = rescue s"
| "perform EscortTikhonHome s = rescue (s\<lparr>as_location := Town\<rparr>)"
| "perform RecoverRoster s = (add_facts [RosterAvailable] s, 0)"
| "perform RecoverLedger s = (add_facts [LedgerRecovered] s, 0)"
| "perform AcknowledgeEcho s = (add_facts [EchoAcknowledged] s, 0)"
| "perform RestoreWard s = (add_facts [WardRestored] s, 0)"
| "perform SealSluice s = (add_facts [LowerSluiceSealed] s, 0)"
| "perform PublishLedger s = (add_facts [LedgerPublished] s, 0)"
| "perform Finish s =
     (let e = final_ending (as_facts s) in (s\<lparr>as_ending := Some e, as_closed := (e \<noteq> UnfinishedDebt)\<rparr>, 0))"

definition push_history :: "adv_action \<Rightarrow> adventure_state \<Rightarrow> adventure_state" where
  "push_history action s =
     (let h = as_history s @ [action] in s\<lparr>as_history := (if length h > 100 then tl h else h)\<rparr>)"

definition apply_action :: "adventure_state \<Rightarrow> adv_action \<Rightarrow> (adventure_error, transition) res" where
  "apply_action s action =
     bind_res (reject_if (action \<notin> set (available_actions s)) AdventureError) (\<lambda>_.
     let (s1, gold) = perform action (s\<lparr>as_ending := None\<rparr>)
     in Ok \<lparr>tr_state = push_history action s1, tr_gold_reward = gold\<rparr>)"

definition resolve_defense :: "adventure_state \<Rightarrow> uuid \<Rightarrow> defense_outcome \<Rightarrow> (adventure_error, adventure_state) res" where
  "resolve_defense s i outcome =
     bind_res (reject_if (as_defense s \<noteq> Some Active \<or> as_defense_encounter_id s \<noteq> Some i \<or> outcome = Active)
       AdventureError) (\<lambda>_.
     let s1 = s\<lparr>as_defense := Some outcome\<rparr>
     in case outcome of
          Held \<Rightarrow> Ok (add_facts [DefenseHeld] s1)
        | Retreated \<Rightarrow> Ok (s1\<lparr>as_location := Quay\<rparr>)
        | Defeated \<Rightarrow> Ok (s1\<lparr>as_location := Town\<rparr>)
        | Active \<Rightarrow> Err AdventureError)"

section \<open>The invariant\<close>

text \<open>Which facts presuppose which.\<close>

definition facts_ok :: "fact set \<Rightarrow> bool" where
  "facts_ok F \<longleftrightarrow> FerryRoute \<in> F
     \<and> (ClapperRepaired \<in> F \<longrightarrow> ClapperRecovered \<in> F)
     \<and> (TikhonRescued \<in> F \<longrightarrow> TikhonLocated \<in> F) \<and> (TikhonRescued \<in> F \<longleftrightarrow> RewardGranted \<in> F)
     \<and> (LedgerRecovered \<in> F \<longrightarrow> TikhonRescued \<in> F) \<and> (LedgerPublished \<in> F \<longrightarrow> LedgerRecovered \<in> F)
     \<and> (WardRestored \<in> F \<longrightarrow> ClapperRepaired \<in> F \<and> RosterAvailable \<in> F \<and> EchoAcknowledged \<in> F)
     \<and> \<not> (WardRestored \<in> F \<and> LowerSluiceSealed \<in> F)
     \<and> (DefenseHeld \<in> F \<longrightarrow> TikhonLocated \<in> F)"

definition adventure_ok :: "adventure_state \<Rightarrow> bool" where
  "adventure_ok s \<longleftrightarrow> as_package_id s = bell_adventure_id \<and> facts_ok (as_facts s)
     \<and> length (as_history s) \<le> 100
     \<and> (as_closed s \<longrightarrow> as_defense s \<noteq> Some Active \<and> as_ending s = Some (final_ending (as_facts s))
          \<and> final_ending (as_facts s) \<noteq> UnfinishedDebt)
     \<and> (\<not> as_closed s \<longrightarrow> as_ending s = None \<or> as_ending s = Some UnfinishedDebt)
     \<and> (as_defense s = Some Active \<longrightarrow> TikhonLocated \<in> as_facts s)"

inductive adventure_step :: "adventure_state \<Rightarrow> adventure_state \<Rightarrow> bool" where
  act: "apply_action s a = Ok tr \<Longrightarrow> adventure_step s (tr_state tr)"
| set_encounter: "as_defense s = Some Active \<Longrightarrow> adventure_step s (s\<lparr>as_defense_encounter_id := Some i\<rparr>)"
| defend: "resolve_defense s i outcome = Ok t \<Longrightarrow> adventure_step s t"

inductive_cases adventure_step_cases: "adventure_step s t"

lemma offer_mem [simp]: "a \<in> set (offer b c) \<longleftrightarrow> a = b \<and> c"
  by (simp add: offer_def)

lemma apply_action_Ok:
  "apply_action s a = Ok tr \<longleftrightarrow> a \<in> set (available_actions s)
     \<and> tr_state tr = push_history a (fst (perform a (s\<lparr>as_ending := None\<rparr>)))
     \<and> tr_gold_reward tr = snd (perform a (s\<lparr>as_ending := None\<rparr>))"
  by (cases tr) (auto simp: apply_action_def bind_res_Ok split: prod.splits)

lemma push_history_fields [simp]:
  "as_facts (push_history a s) = as_facts s" "as_location (push_history a s) = as_location s"
  "as_closed (push_history a s) = as_closed s" "as_ending (push_history a s) = as_ending s"
  "as_defense (push_history a s) = as_defense s" "as_package_id (push_history a s) = as_package_id s"
  "as_defense_encounter_id (push_history a s) = as_defense_encounter_id s"
  by (simp_all add: push_history_def Let_def)

lemma push_history_length: "length (as_history s) \<le> 100 \<Longrightarrow> length (as_history (push_history a s)) \<le> 100"
  by (simp add: push_history_def Let_def)

lemma available_open:
  assumes "a \<in> set (available_actions s)"
  shows "\<not> as_closed s" "as_package_id s = bell_adventure_id" "as_defense s \<noteq> Some Active"
    "a \<in> MoveTo ` set (adjacent (as_location s)) \<or> a \<in> set (local_actions (as_location s) (\<lambda>f. f \<in> as_facts s))"
  using assms by (auto simp: available_actions_def split: if_splits)

lemma rescue_fields [simp]:
  "as_facts (fst (rescue s)) = as_facts s \<union> {TikhonRescued, RewardGranted}"
  "as_location (fst (rescue s)) = as_location s" "as_closed (fst (rescue s)) = as_closed s"
  "as_ending (fst (rescue s)) = as_ending s" "as_defense (fst (rescue s)) = as_defense s"
  "as_package_id (fst (rescue s)) = as_package_id s" "as_history (fst (rescue s)) = as_history s"
  "snd (rescue s) = (if RewardGranted \<in> as_facts s then 0 else 10)"
  by (auto simp: rescue_def add_facts_def Let_def)

text \<open>The facts an action adds.\<close>

fun gained :: "adv_action \<Rightarrow> fact set" where
  "gained InspectQuay = {WardDamaged}"
| "gained TalkAgata = {PorterObservation}"
| "gained ConsultLeon = {WardUnderstood, RosterAvailable}"
| "gained NegotiateClapper = {ClapperRecovered}"
| "gained RetrieveClapperPublicly = {ClapperRecovered}"
| "gained RepairClapper = {ClapperRepaired}"
| "gained LocateTikhon = {TikhonLocated}"
| "gained RescueTikhon = {TikhonRescued, RewardGranted}"
| "gained EscortTikhonHome = {TikhonRescued, RewardGranted}"
| "gained RecoverRoster = {RosterAvailable}"
| "gained RecoverLedger = {LedgerRecovered}"
| "gained AcknowledgeEcho = {EchoAcknowledged}"
| "gained RestoreWard = {WardRestored}"
| "gained SealSluice = {LowerSluiceSealed}"
| "gained PublishLedger = {LedgerPublished}"
| "gained _ = {}"

lemma perform_fields:
  "as_facts (fst (perform a s)) = as_facts s \<union> gained a"
  "as_package_id (fst (perform a s)) = as_package_id s"
  "as_history (fst (perform a s)) = as_history s"
  "as_defense (fst (perform a s)) = (if a = StartDefense then Some Active else as_defense s)"
  "as_ending (fst (perform a s)) = (if a = Finish then Some (final_ending (as_facts s)) else as_ending s)"
  "as_closed (fst (perform a s)) = (if a = Finish then final_ending (as_facts s) \<noteq> UnfinishedDebt else as_closed s)"
  "snd (perform a s) = (if a \<in> {RescueTikhon, EscortTikhonHome} \<and> RewardGranted \<notin> as_facts s then 10 else 0)"
  by (cases a; simp add: add_facts_def Let_def)+

lemma perform_location:
  "as_location (fst (perform a s)) =
     (case a of MoveTo l \<Rightarrow> l | EscortTikhonHome \<Rightarrow> Town | _ \<Rightarrow> as_location s)"
  by (cases a; simp add: add_facts_def Let_def)

text \<open>What the offer of an action presupposes.\<close>

fun needs :: "adv_action \<Rightarrow> fact set \<Rightarrow> bool" where
  "needs RepairClapper F = (ClapperRecovered \<in> F)"
| "needs RescueTikhon F = (TikhonLocated \<in> F)"
| "needs EscortTikhonHome F = (TikhonLocated \<in> F)"
| "needs RecoverLedger F = (TikhonRescued \<in> F)"
| "needs PublishLedger F = (LedgerRecovered \<in> F)"
| "needs RestoreWard F = (ClapperRepaired \<in> F \<and> RosterAvailable \<in> F \<and> EchoAcknowledged \<in> F
     \<and> LowerSluiceSealed \<notin> F)"
| "needs SealSluice F = (WardRestored \<notin> F)"
| "needs _ F = True"

lemma local_needs: "a \<in> set (local_actions l (\<lambda>f. f \<in> F)) \<Longrightarrow> needs a F"
  by (cases l) auto

lemma gained_ok:
  assumes "facts_ok F" "a \<in> set (local_actions l (\<lambda>f. f \<in> F))"
  shows "facts_ok (F \<union> gained a)"
proof -
  have "needs a F" by (rule local_needs [OF assms(2)])
  with assms(1) show ?thesis
    unfolding facts_ok_def
    by (cases a; simp only: gained.simps needs.simps Un_iff insert_iff empty_iff fact.distinct simp_thms; blast)
qed

lemma start_defense_located:
  "StartDefense \<in> set (local_actions l (\<lambda>f. f \<in> F)) \<Longrightarrow> TikhonLocated \<in> F"
  by (cases l) auto

lemma apply_action_ok:
  assumes ok: "adventure_ok s" and run: "apply_action s a = Ok tr"
  shows "adventure_ok (tr_state tr)"
proof -
  from run have av: "a \<in> set (available_actions s)"
    and tr: "tr_state tr = push_history a (fst (perform a (s\<lparr>as_ending := None\<rparr>)))" by (simp_all add: apply_action_Ok)
  note op = available_open [OF av]
  have facts: "facts_ok (as_facts s \<union> gained a)"
    using op(4) gained_ok ok by (auto simp: adventure_ok_def)
  have hist: "length (as_history (tr_state tr)) \<le> 100"
    unfolding tr by (rule push_history_length) (use ok in \<open>simp add: perform_fields adventure_ok_def\<close>)
  have def: "TikhonLocated \<in> as_facts s" if "a = StartDefense"
    using op(4) that start_defense_located by auto
  show ?thesis
    using op(1-3) facts hist def ok by (auto simp: adventure_ok_def tr perform_fields)
qed

lemma resolve_defense_Ok:
  assumes "resolve_defense s i outcome = Ok t"
  shows "as_defense s = Some Active" "as_defense_encounter_id s = Some i" "outcome \<noteq> Active"
    "as_defense t = Some outcome" "as_facts t = as_facts s \<union> (if outcome = Held then {DefenseHeld} else {})"
    "as_location t = (case outcome of Retreated \<Rightarrow> Quay | Defeated \<Rightarrow> Town | _ \<Rightarrow> as_location s)"
    "as_closed t = as_closed s" "as_ending t = as_ending s" "as_package_id t = as_package_id s" "as_history t = as_history s"
  using assms by (auto simp: resolve_defense_def bind_res_Ok add_facts_def Let_def split: defense_outcome.splits)

lemma adventure_step_ok:
  assumes "adventure_ok s" "adventure_step s t"
  shows "adventure_ok t"
  using assms(2,1)
proof cases
  case (act a tr)
  then show ?thesis using assms(1) apply_action_ok by blast
next
  case (set_encounter i)
  then show ?thesis using assms(1) by (simp add: adventure_ok_def)
next
  case (defend i outcome)
  note r = resolve_defense_Ok [OF defend]
  have "facts_ok (as_facts t)" using assms(1) r(1,5) by (auto simp: adventure_ok_def facts_ok_def)
  then show ?thesis using assms(1) r by (simp add: adventure_ok_def)
qed

interpretation tale: invariant_machine "\<lambda>s. s = new_adventure" adventure_step adventure_ok
proof
  show "s = new_adventure \<Longrightarrow> adventure_ok s" for s
    by (simp add: new_adventure_def adventure_ok_def facts_ok_def)
  show "adventure_ok s \<Longrightarrow> adventure_step s t \<Longrightarrow> adventure_ok t" for s t by (rule adventure_step_ok)
qed

section \<open>Facts are kept, closing is final\<close>

lemma adventure_step_facts: "adventure_step s t \<Longrightarrow> as_facts s \<subseteq> as_facts t"
  by (cases rule: adventure_step.cases) (auto simp: apply_action_Ok perform_fields resolve_defense_Ok(5))

lemma adventure_steps_facts: "adventure_step\<^sup>*\<^sup>* s t \<Longrightarrow> as_facts s \<subseteq> as_facts t"
  by (induction rule: rtranclp_induct) (auto dest: adventure_step_facts)

lemma closed_final: "adventure_ok s \<Longrightarrow> as_closed s \<Longrightarrow> \<not> adventure_step s t"
  by (auto simp: adventure_ok_def apply_action_Ok dest: available_open resolve_defense_Ok(1)
      elim!: adventure_step_cases)

section \<open>The reward\<close>

text \<open>A run of accepted calls with the gold it paid.\<close>

inductive adventure_run :: "adventure_state \<Rightarrow> nat \<Rightarrow> adventure_state \<Rightarrow> bool" where
  run_start: "adventure_run s 0 s"
| run_act: "adventure_run s g t \<Longrightarrow> apply_action t a = Ok tr \<Longrightarrow> adventure_run s (g + tr_gold_reward tr) (tr_state tr)"
| run_set: "adventure_run s g t \<Longrightarrow> as_defense t = Some Active \<Longrightarrow>
     adventure_run s g (t\<lparr>as_defense_encounter_id := Some i\<rparr>)"
| run_defend: "adventure_run s g t \<Longrightarrow> resolve_defense t i outcome = Ok u \<Longrightarrow> adventure_run s g u"

lemma gained_reward: "RewardGranted \<in> gained a \<longleftrightarrow> a = RescueTikhon \<or> a = EscortTikhonHome"
  by (cases a) simp_all

lemma adventure_run_reward:
  assumes "adventure_run s g t" "RewardGranted \<notin> as_facts s"
  shows "g = (if RewardGranted \<in> as_facts t then 10 else 0)"
  using assms
proof (induction rule: adventure_run.induct)
  case (run_act s g t a tr)
  then have "g = (if RewardGranted \<in> as_facts t then 10 else 0)" by simp
  with run_act(2) show ?case
    by (auto simp: apply_action_Ok perform_fields gained_reward)
next
  case (run_defend s g t i outcome u)
  then show ?case using resolve_defense_Ok(5) [OF run_defend.hyps(2)] by auto
qed auto

section \<open>The adventure can always be finished\<close>

lemma step_action:
  assumes "a \<in> set (available_actions s)"
  shows "adventure_step s (push_history a (fst (perform a (s\<lparr>as_ending := None\<rparr>))))"
proof -
  have "apply_action s a = Ok \<lparr>tr_state = push_history a (fst (perform a (s\<lparr>as_ending := None\<rparr>))),
      tr_gold_reward = snd (perform a (s\<lparr>as_ending := None\<rparr>))\<rparr>"
    using assms by (simp add: apply_action_Ok)
  from act [OF this] show ?thesis by simp
qed

definition playable :: "adventure_state \<Rightarrow> bool" where
  "playable s \<longleftrightarrow> \<not> as_closed s \<and> as_package_id s = bell_adventure_id \<and> as_defense s \<noteq> Some Active"

text \<open>Progress from one playable state to another that keeps the facts and gains some.\<close>

definition gets :: "adventure_state \<Rightarrow> location \<Rightarrow> fact set \<Rightarrow> bool" where
  "gets s l F \<longleftrightarrow> (\<exists>t. adventure_step\<^sup>*\<^sup>* s t \<and> playable t \<and> as_location t = l \<and> as_facts s \<union> F \<subseteq> as_facts t)"

lemma gets_refl: "playable s \<Longrightarrow> gets s (as_location s) {}"
  by (auto simp: gets_def)

lemma gets_then:
  assumes "gets s l F" "\<And>t. playable t \<Longrightarrow> as_location t = l \<Longrightarrow> F \<subseteq> as_facts t \<Longrightarrow> gets t l' G"
  shows "gets s l' (F \<union> G)"
proof -
  obtain t where t: "adventure_step\<^sup>*\<^sup>* s t" "playable t" "as_location t = l" "as_facts s \<union> F \<subseteq> as_facts t"
    using assms(1) by (auto simp: gets_def)
  then obtain u where u: "adventure_step\<^sup>*\<^sup>* t u" "playable u" "as_location u = l'" "as_facts t \<union> G \<subseteq> as_facts u"
    using assms(2) [of t] by (auto simp: gets_def)
  show ?thesis unfolding gets_def by (rule exI [of _ u]) (use t u rtranclp_trans [OF t(1) u(1)] in auto)
qed

lemma gets_weaken: "gets s l F \<Longrightarrow> G \<subseteq> F \<Longrightarrow> gets s l G"
  by (auto simp: gets_def)

lemma gets_move:
  assumes "playable s" "l \<in> set (adjacent (as_location s))"
  shows "gets s l {}"
proof -
  have "MoveTo l \<in> set (available_actions s)" using assms by (simp add: available_actions_def playable_def)
  from step_action [OF this] show ?thesis
    unfolding gets_def
    by (intro exI [of _ "push_history (MoveTo l) (fst (perform (MoveTo l) (s\<lparr>as_ending := None\<rparr>)))"])
      (use assms in \<open>auto simp: playable_def\<close>)
qed

lemma gets_via: "gets s l {} \<Longrightarrow> l' \<in> set (adjacent l) \<Longrightarrow> gets s l' {}"
  using gets_then [of s l "{}" l' "{}"] gets_move by auto

lemma gets_town: "playable s \<Longrightarrow> gets s Town {}"
proof (cases "as_location s")
  case Archive
  assume "playable s"
  then have "gets s Quay {}" by (rule gets_move) (simp add: Archive)
  then show ?thesis by (rule gets_via) simp
next
  case Belfry
  assume "playable s"
  then have "gets s Archive {}" by (rule gets_move) (simp add: Belfry)
  then have "gets s Quay {}" by (rule gets_via) simp
  then show ?thesis by (rule gets_via) simp
next
  case Town
  assume "playable s"
  from gets_refl [OF this] show ?thesis by (simp add: Town)
next
  case Quay
  assume "playable s"
  then show ?thesis by (rule gets_move) (simp add: Quay)
next
  case Shrine
  assume "playable s"
  then show ?thesis by (rule gets_move) (simp add: Shrine)
next
  case Warehouse
  assume "playable s"
  then show ?thesis by (rule gets_move) (simp add: Warehouse)
qed

lemma gets_archive: "playable s \<Longrightarrow> gets s Archive {}"
  by (rule gets_via [OF gets_via [OF gets_town, where l' = Quay]]) simp_all

lemma gets_belfry: "playable s \<Longrightarrow> gets s Belfry {}"
  by (rule gets_via [OF gets_archive]) simp_all

lemma gets_fact:
  assumes "playable s" "as_location s = l" "a \<in> set (local_actions l (\<lambda>f. f \<in> as_facts s))"
    and "a \<noteq> Finish" "a \<noteq> StartDefense" "a \<noteq> EscortTikhonHome" "\<And>k. a \<noteq> MoveTo k"
  shows "gets s l (gained a)"
proof -
  have "a \<in> set (available_actions s)" using assms by (auto simp: available_actions_def playable_def)
  from step_action [OF this] show ?thesis
    unfolding gets_def
    by (intro exI [of _ "push_history a (fst (perform a (s\<lparr>as_ending := None\<rparr>)))"])
      (use assms in \<open>auto simp: playable_def perform_fields perform_location split: adv_action.split\<close>)
qed

lemma gets_rescued: "playable s \<Longrightarrow> gets s Archive {TikhonRescued}"
proof -
  assume s: "playable s"
  have locate: "gets t Archive {TikhonLocated}" if t: "playable t" "as_location t = Archive" for t
  proof (cases "TikhonLocated \<in> as_facts t")
    case True
    then show ?thesis using t gets_refl [OF t(1)] by (auto simp: gets_def)
  next
    case False
    then show ?thesis using gets_fact [OF t, of LocateTikhon] by simp
  qed
  have rescue: "gets t Archive {TikhonRescued}"
    if t: "playable t" "as_location t = Archive" "TikhonLocated \<in> as_facts t" for t
  proof (cases "TikhonRescued \<in> as_facts t")
    case True
    then show ?thesis using t gets_refl [OF t(1)] by (auto simp: gets_def)
  next
    case False
    then show ?thesis using gets_fact [OF t(1,2), of RescueTikhon] t(3) gets_weaken by fastforce
  qed
  have "gets s Archive ({} \<union> {TikhonLocated})" by (rule gets_then [OF gets_archive [OF s]]) (rule locate)
  then have "gets s Archive (({} \<union> {TikhonLocated}) \<union> {TikhonRescued})"
    by (rule gets_then) (auto intro: rescue)
  then show ?thesis by (rule gets_weaken) simp
qed

lemma gets_settled: "playable s \<Longrightarrow> gets s Belfry {} \<Longrightarrow>
   \<exists>f\<in>{WardRestored, LowerSluiceSealed}. gets s Belfry {f}"
proof -
  assume s: "playable s" and "gets s Belfry {}"
  then obtain t where t: "adventure_step\<^sup>*\<^sup>* s t" "playable t" "as_location t = Belfry" "as_facts s \<subseteq> as_facts t"
    by (auto simp: gets_def)
  show ?thesis
  proof (cases "WardRestored \<in> as_facts t \<or> LowerSluiceSealed \<in> as_facts t")
    case True
    with t show ?thesis by (auto simp: gets_def)
  next
    case False
    then have "gets t Belfry {LowerSluiceSealed}" using gets_fact [OF t(2,3), of SealSluice] by simp
    then have "gets s Belfry {LowerSluiceSealed}"
      using t(1,4) unfolding gets_def by (meson order.trans rtranclp_trans le_supI Un_upper1 Un_upper2)
    then show ?thesis by blast
  qed
qed

lemma finish_closes:
  assumes "playable s" "as_location s = Town" "TikhonRescued \<in> as_facts s"
    "WardRestored \<in> as_facts s \<or> LowerSluiceSealed \<in> as_facts s"
  shows "\<exists>t. adventure_step s t \<and> as_closed t"
proof -
  have "Finish \<in> set (available_actions s)" using assms by (simp add: available_actions_def playable_def)
  from step_action [OF this] show ?thesis
    by (rule_tac exI [of _ "push_history Finish (fst (perform Finish (s\<lparr>as_ending := None\<rparr>)))"])
      (use assms in \<open>auto simp: final_ending_def Let_def\<close>)
qed

lemma playable_finishes:
  assumes "playable s"
  shows "\<exists>t. adventure_step\<^sup>*\<^sup>* s t \<and> as_closed t"
proof -
  obtain a where a: "adventure_step\<^sup>*\<^sup>* s a" "playable a" "TikhonRescued \<in> as_facts a"
    using gets_rescued [OF assms] by (auto simp: gets_def)
  obtain f where f: "f \<in> {WardRestored, LowerSluiceSealed}" "gets a Belfry {f}"
    using gets_settled [OF a(2) gets_belfry [OF a(2)]] by blast
  then obtain b where b: "adventure_step\<^sup>*\<^sup>* a b" "playable b" "f \<in> as_facts b" "TikhonRescued \<in> as_facts b"
    using a(3) by (auto simp: gets_def)
  obtain c where c: "adventure_step\<^sup>*\<^sup>* b c" "playable c" "as_location c = Town" "as_facts b \<subseteq> as_facts c"
    using gets_town [OF b(2)] by (auto simp: gets_def)
  obtain d where "adventure_step c d" "as_closed d"
    using finish_closes [OF c(2,3)] b(3,4) c(4) f(1) by blast
  then show ?thesis using a(1) b(1) c(1) by (meson rtranclp.rtrancl_into_rtrancl rtranclp_trans)
qed

lemma adventure_can_finish:
  assumes "adventure_ok s"
  shows "\<exists>t. adventure_step\<^sup>*\<^sup>* s t \<and> as_closed t"
proof (cases "as_closed s")
  case False
  show ?thesis
  proof (cases "as_defense s = Some Active")
    case True
    let ?s = "s\<lparr>as_defense_encounter_id := Some 1\<rparr>"
    have one: "adventure_step s ?s" by (rule set_encounter [OF True])
    have "resolve_defense ?s 1 Held = Ok (add_facts [DefenseHeld] (?s\<lparr>as_defense := Some Held\<rparr>))"
      using True by (simp add: resolve_defense_def reject_if_def)
    from defend [OF this] have two: "adventure_step ?s (add_facts [DefenseHeld] (?s\<lparr>as_defense := Some Held\<rparr>))" .
    have "playable (add_facts [DefenseHeld] (?s\<lparr>as_defense := Some Held\<rparr>))"
      using assms False by (simp add: playable_def add_facts_def adventure_ok_def)
    from playable_finishes [OF this] one two show ?thesis
      by (meson converse_rtranclp_into_rtranclp)
  next
    case not_active: False
    with False assms have "playable s" by (simp add: playable_def adventure_ok_def)
    then show ?thesis by (rule playable_finishes)
  qed
qed blast

end
