(* ===== verification/Json.thy ===== *)
theory Json
  imports Prelude
begin

text \<open>
  The JSON documents of \<^verbatim>\<open>serde_json\<close>, as far as the sources use them: values, the accessors
  \<open>get\<close>, \<open>as_\<dots>\<close> and \<open>[key]\<close>, assignment through \<open>[key]\<close>, and the rules by which a derived
  \<open>Deserialize\<close> reads a struct from an object or from an array. A number is an integer (of at most 64
  bits) or the bit pattern of a float. Identifiers are read and written by the \<open>uuid\<close> crate, whose two
  functions are an argument: \<open>uuid_codec\<close>.
\<close>

section \<open>Values\<close>

datatype json =
    JNull
  | JBool bool
  | JInt int
  | JFloat nat
  | JStr string
  | JArr "json list"
  | JObj "(string \<times> json) list"

definition as_object :: "json \<Rightarrow> (string, json) table option" where
  "as_object j = (case j of JObj t \<Rightarrow> Some t | _ \<Rightarrow> None)"

definition as_array :: "json \<Rightarrow> json list option" where
  "as_array j = (case j of JArr xs \<Rightarrow> Some xs | _ \<Rightarrow> None)"

definition as_str :: "json \<Rightarrow> string option" where
  "as_str j = (case j of JStr s \<Rightarrow> Some s | _ \<Rightarrow> None)"

definition as_i64 :: "json \<Rightarrow> i64 option" where
  "as_i64 j = (case j of JInt n \<Rightarrow> if n \<le> i64_max then Some n else None | _ \<Rightarrow> None)"

definition as_u64 :: "json \<Rightarrow> u64 option" where
  "as_u64 j = (case j of JInt n \<Rightarrow> if 0 \<le> n then Some (nat n) else None | _ \<Rightarrow> None)"

definition is_object :: "json \<Rightarrow> bool" where
  "is_object j \<longleftrightarrow> as_object j \<noteq> None"

definition is_null :: "json \<Rightarrow> bool" where
  "is_null j \<longleftrightarrow> j = JNull"

text \<open>\<open>Value::get(key)\<close>, and \<open>value[key]\<close>, which is \<open>Null\<close> where there is nothing.\<close>

definition json_get :: "json \<Rightarrow> string \<Rightarrow> json option" where
  "json_get j k = Option.bind (as_object j) (\<lambda>t. table_get t k)"

definition json_index :: "json \<Rightarrow> string \<Rightarrow> json" where
  "json_index j k = (case json_get j k of Some v \<Rightarrow> v | None \<Rightarrow> JNull)"

text \<open>\<open>value[key] = v\<close>: \<open>Null\<close> becomes an object; any other non-object panics.\<close>

definition json_set :: "string \<Rightarrow> json \<Rightarrow> json \<Rightarrow> ('e, json) res" where
  "json_set k v j =
     (case j of
        JNull \<Rightarrow> Ok (JObj [(k, v)])
      | JObj t \<Rightarrow> Ok (JObj (table_put k v t))
      | _ \<Rightarrow> Panic)"

text \<open>\<open>value[key]\<close> as a place, changed by \<open>f\<close>.\<close>

definition json_update :: "string \<Rightarrow> (json \<Rightarrow> ('e, json) res) \<Rightarrow> json \<Rightarrow> ('e, json) res" where
  "json_update k f j = bind_res (f (json_index j k)) (\<lambda>v. json_set k v j)"

definition json_remove :: "string \<Rightarrow> (string, json) table \<Rightarrow> (string, json) table" where
  "json_remove k t = filter (\<lambda>(j, _). j \<noteq> k) t"

lemma as_i64_JInt [simp]: "as_i64 (JInt n) = (if n \<le> i64_max then Some n else None)"
  by (simp add: as_i64_def)

lemma as_u64_JInt [simp]: "as_u64 (JInt n) = (if 0 \<le> n then Some (nat n) else None)"
  by (simp add: as_u64_def)

lemma as_simps [simp]:
  "as_str (JStr s) = Some s" "as_array (JArr xs) = Some xs" "as_object (JObj t) = Some t" "is_object (JObj t)"
  by (simp_all add: as_str_def as_array_def as_object_def is_object_def)

lemma as_object_iff: "as_object j = Some t \<longleftrightarrow> j = JObj t"
  by (cases j) (auto simp: as_object_def)

lemma is_object_iff: "is_object j \<longleftrightarrow> (\<exists>t. j = JObj t)"
  by (simp add: is_object_def as_object_iff)

lemma json_get_JObj [simp]: "json_get (JObj t) k = table_get t k"
  by (simp add: json_get_def)

lemma json_get_object: "json_get j k = Some v \<Longrightarrow> is_object j"
  by (auto simp: json_get_def is_object_def split: bind_splits)

lemma json_index_get: "json_get j k = Some v \<Longrightarrow> json_index j k = v"
  by (simp add: json_index_def)

lemma table_get_single [simp]: "table_get [(k, v)] l = (if l = k then Some v else None)"
  by (simp add: table_get_def)

text \<open>An assignment is seen under its key and nowhere else.\<close>

lemma json_set_Ok:
  assumes "json_set k v j = Ok j'"
  shows "json_get j' l = (if l = k then Some v else json_get j l)" "is_object j'"
    "json_index j' l = (if l = k then v else json_index j l)"
proof -
  show *: "json_get j' l = (if l = k then Some v else json_get j l)" for l
    using assms table_get_single [of k v l] by (cases j) (auto simp: json_set_def json_get_def as_object_def)
  show "is_object j'" using assms by (cases j) (auto simp: json_set_def)
  show "json_index j' l = (if l = k then v else json_index j l)" by (simp add: json_index_def *)
qed

lemma json_set_object: "is_object j \<Longrightarrow> \<exists>j'. json_set k v j = Ok j'"
  by (auto simp: is_object_iff json_set_def)

lemma json_set_Panic: "json_set k v j = Panic \<longleftrightarrow> \<not> is_object j \<and> j \<noteq> JNull"
  by (cases j) (auto simp: json_set_def is_object_iff)

lemma json_set_no_Err [simp]: "json_set k v j \<noteq> Err e"
  by (cases j) (auto simp: json_set_def)

lemma table_get_remove [simp]: "table_get (json_remove k t) j = (if j = k then None else table_get t j)"
  by (induction t) (auto simp: table_get_def json_remove_def)

section \<open>Identifiers\<close>

record uuid_codec =
  uuid_text :: "uuid \<Rightarrow> string"
  uuid_parse :: "string \<Rightarrow> uuid option"

text \<open>What is relied on of the crate: reading back what it wrote.\<close>

definition uuid_codec_ok :: "uuid_codec \<Rightarrow> bool" where
  "uuid_codec_ok u \<longleftrightarrow> (\<forall>i. uuid_parse u (uuid_text u i) = Some i)"

lemma uuid_codec_okD [simp]: "uuid_codec_ok u \<Longrightarrow> uuid_parse u (uuid_text u i) = Some i"
  by (simp add: uuid_codec_ok_def)

section \<open>Derived deserialization\<close>

text \<open>Scalars: an integer type takes integers of its range only.\<close>

definition unsigned_of :: "nat \<Rightarrow> json \<Rightarrow> nat option" where
  "unsigned_of w j = (case j of JInt n \<Rightarrow> if 0 \<le> n \<and> n < 2 ^ w then Some (nat n) else None | _ \<Rightarrow> None)"

definition bool_of :: "json \<Rightarrow> bool option" where
  "bool_of j = (case j of JBool b \<Rightarrow> Some b | _ \<Rightarrow> None)"

definition uuid_of :: "uuid_codec \<Rightarrow> json \<Rightarrow> uuid option" where
  "uuid_of u j = Option.bind (as_str j) (uuid_parse u)"

definition option_of :: "(json \<Rightarrow> 'a option) \<Rightarrow> json \<Rightarrow> 'a option option" where
  "option_of f j = (if j = JNull then Some None else map_option Some (f j))"

fun list_of :: "(json \<Rightarrow> 'a option) \<Rightarrow> json list \<Rightarrow> 'a list option" where
  "list_of f [] = Some []"
| "list_of f (j # js) = Option.bind (f j) (\<lambda>x. map_option ((#) x) (list_of f js))"

definition vec_of :: "(json \<Rightarrow> 'a option) \<Rightarrow> json \<Rightarrow> 'a list option" where
  "vec_of f j = Option.bind (as_array j) (list_of f)"

text \<open>
  The fields of a struct in their order: of an object by name, a missing one being \<open>None\<close>, where
  \<open>strict\<close> (\<open>deny_unknown_fields\<close>) allows no other names; of an array by position, and then all of them.
\<close>

definition struct_fields :: "bool \<Rightarrow> string list \<Rightarrow> json \<Rightarrow> json option list option" where
  "struct_fields strict names j =
     (case j of
        JObj t \<Rightarrow> if strict \<and> \<not> set (map fst t) \<subseteq> set names then None else Some (map (table_get t) names)
      | JArr xs \<Rightarrow> if length xs = length names then Some (map Some xs) else None
      | _ \<Rightarrow> None)"

text \<open>A required field, and a field of an \<open>Option\<close> type.\<close>

definition required :: "(json \<Rightarrow> 'a option) \<Rightarrow> json option \<Rightarrow> 'a option" where
  "required f x = Option.bind x f"

definition optional :: "(json \<Rightarrow> 'a option) \<Rightarrow> json option \<Rightarrow> 'a option option" where
  "optional f x = (case x of None \<Rightarrow> Some None | Some j \<Rightarrow> option_of f j)"

text \<open>A unit variant: its name, or an object with that name and \<open>null\<close>.\<close>

definition variant_name :: "json \<Rightarrow> string option" where
  "variant_name j =
     (case j of
        JStr s \<Rightarrow> Some s
      | JObj t \<Rightarrow> (case t of [(k, v)] \<Rightarrow> if v = JNull then Some k else None | _ \<Rightarrow> None)
      | _ \<Rightarrow> None)"

definition json_option :: "('a \<Rightarrow> json) \<Rightarrow> 'a option \<Rightarrow> json" where
  "json_option f x = (case x of None \<Rightarrow> JNull | Some v \<Rightarrow> f v)"

text \<open>A pair of a writer and a reader.\<close>

locale codec =
  fixes enc :: "'a \<Rightarrow> json" and dec :: "json \<Rightarrow> 'a option" and ok :: "'a \<Rightarrow> bool"
  assumes dec_enc: "ok x \<Longrightarrow> dec (enc x) = Some x"
begin

lemma list_dec_enc: "list_all ok xs \<Longrightarrow> list_of dec (map enc xs) = Some xs"
  by (induction xs) (simp_all add: dec_enc)

lemma vec_dec_enc: "list_all ok xs \<Longrightarrow> vec_of dec (JArr (map enc xs)) = Some xs"
  by (simp add: vec_of_def list_dec_enc)

lemma option_dec_enc:
  assumes "\<And>x. enc x \<noteq> JNull" "\<And>v. x = Some v \<Longrightarrow> ok v"
  shows "option_of dec (json_option enc x) = Some x"
  using assms by (cases x) (simp_all add: option_of_def json_option_def dec_enc)

end

lemma unsigned_of_JInt [simp]: "unsigned_of w (JInt (int n)) = (if n < 2 ^ w then Some n else None)"
  using of_nat_less_iff [of n "2 ^ w", where 'a = int] by (auto simp: unsigned_of_def)

lemma bool_of_JBool [simp]: "bool_of (JBool b) = Some b"
  by (simp add: bool_of_def)

lemma uuid_of_text [simp]: "uuid_codec_ok u \<Longrightarrow> uuid_of u (JStr (uuid_text u i)) = Some i"
  by (simp add: uuid_of_def)

interpretation uuids: codec "\<lambda>i. JStr (uuid_text u i)" "uuid_of u" "\<lambda>_. uuid_codec_ok u"
  by unfold_locales simp

end
