(* ===== verification/Character_Document.thy ===== *)
theory Character_Document
  imports Json Catalog Defense
begin

text \<open>
  The character sheet as a JSON document: its structural validation and size budget
  (\<^verbatim>\<open>crates/app-application/src/models/campaign_state.rs\<close>), the validity of media references
  (\<^verbatim>\<open>models/media_asset.rs\<close>), and the canonical defense of a sheet (\<^verbatim>\<open>defense.rs\<close>). What comes from
  outside the sources is in the record \<open>sheet_env\<close>: the functions of the \<open>uuid\<close> crate, the parsed catalog,
  the derived reader of media references, and the length of the text \<open>serde_json\<close> writes for a value.
\<close>

section \<open>Media references\<close>

datatype media_category = Portrait | Map_Image | Illustration
datatype media_origin = Generated | Uploaded | Migrated

record media_descriptor =
  md_sha256 :: string
  md_mime_type :: string
  md_byte_len :: u64
  md_width :: u32
  md_height :: u32

datatype media_reference =
    Bundled string u16
  | Owned uuid media_category media_origin media_descriptor

definition is_digit_byte :: "char \<Rightarrow> bool" where
  "is_digit_byte c \<longleftrightarrow> 48 \<le> byte c \<and> byte c \<le> 57"

definition is_alphanumeric_byte :: "char \<Rightarrow> bool" where
  "is_alphanumeric_byte c \<longleftrightarrow> is_digit_byte c \<or> 65 \<le> byte c \<and> byte c \<le> 90 \<or> 97 \<le> byte c \<and> byte c \<le> 122"

definition valid_descriptor :: "media_descriptor \<Rightarrow> bool" where
  "valid_descriptor d \<longleftrightarrow>
     length (md_sha256 d) = 64
     \<and> list_all (\<lambda>b. is_digit_byte b \<or> 97 \<le> byte b \<and> byte b \<le> 102) (md_sha256 d)
     \<and> md_mime_type d \<in> set [''image/png'', ''image/jpeg'', ''image/webp'']
     \<and> 1 \<le> md_byte_len d \<and> md_byte_len d \<le> 8 * 1024 * 1024
     \<and> 1 \<le> md_width d \<and> md_width d \<le> 8192
     \<and> 1 \<le> md_height d \<and> md_height d \<le> 8192
     \<and> md_width d * md_height d \<le> 32 * 1024 * 1024"

fun valid_media :: "media_reference \<Rightarrow> bool" where
  "valid_media (Bundled asset_id version) \<longleftrightarrow>
     version > 0 \<and> asset_id \<noteq> [] \<and> length asset_id \<le> 128
     \<and> list_all (\<lambda>b. is_alphanumeric_byte b \<or> b \<in> set ''._-'') asset_id"
| "valid_media (Owned asset_id category origin descriptor) \<longleftrightarrow> \<not> is_nil asset_id \<and> valid_descriptor descriptor"

fun other_category :: "media_reference \<Rightarrow> bool" where
  "other_category (Owned asset_id category origin descriptor) \<longleftrightarrow> category \<noteq> Portrait"
| "other_category (Bundled asset_id version) \<longleftrightarrow> False"

record sheet_env =
  se_uuids :: uuid_codec
  se_catalog :: catalog
  se_media_of :: "json \<Rightarrow> media_reference option"
  se_json_len :: "json \<Rightarrow> usize"

section \<open>The document\<close>

definition max_character_metadata_bytes :: usize where "max_character_metadata_bytes = 256 * 1024"
definition max_portrait_url_bytes :: usize where "max_portrait_url_bytes = 8 * 1024 * 1024"

definition within_character_budget :: "sheet_env \<Rightarrow> json \<Rightarrow> bool" where
  "within_character_budget env character =
     (case as_object character of
        None \<Rightarrow> False
      | Some document \<Rightarrow>
          (case table_get document ''portraitUrl'' of
             None \<Rightarrow> True
           | Some portrait \<Rightarrow> is_null portrait
               \<or> (case as_str portrait of None \<Rightarrow> False | Some url \<Rightarrow> length url \<le> max_portrait_url_bytes))
          \<and> se_json_len env (JObj (json_remove ''portraitUrl'' document)) \<le> max_character_metadata_bytes)"

definition text_field :: "json \<Rightarrow> string \<Rightarrow> bool" where
  "text_field value key =
     (case Option.bind (json_get value key) as_str of None \<Rightarrow> False | Some s \<Rightarrow> \<not> all_blank s)"

definition integer_field :: "json \<Rightarrow> string \<Rightarrow> i64 \<Rightarrow> i64 \<Rightarrow> bool" where
  "integer_field value key lo hi =
     (case Option.bind (json_get value key) as_i64 of None \<Rightarrow> False | Some n \<Rightarrow> lo \<le> n \<and> n \<le> hi)"

definition valid_item :: "json \<Rightarrow> bool" where
  "valid_item item \<longleftrightarrow>
     (case Option.bind (json_get item ''id'') as_str of None \<Rightarrow> False | Some i \<Rightarrow> i \<noteq> [])
     \<and> (case Option.bind (json_get item ''name'') as_str of None \<Rightarrow> False | Some name \<Rightarrow> name \<noteq> [])
     \<and> Option.bind (json_get item ''count'') as_u64 \<noteq> None"

definition ability_keys :: "string list" where
  "ability_keys = [''str'', ''dex'', ''con'', ''int'', ''wis'', ''cha'']"

definition valid_character_document :: "sheet_env \<Rightarrow> json \<Rightarrow> bool" where
  "valid_character_document env value \<longleftrightarrow>
     is_object value
     \<and> (case json_get value ''portraitMediaRef'' of
          None \<Rightarrow> True
        | Some reference \<Rightarrow> is_null reference
            \<or> (case se_media_of env reference of None \<Rightarrow> False | Some m \<Rightarrow> valid_media m \<and> \<not> other_category m))
     \<and> text_field value ''name''
     \<and> text_field value ''heroClass''
     \<and> integer_field value ''level'' 1 20
     \<and> integer_field value ''hpMax'' 1 10000
     \<and> integer_field value ''hp'' 0
         (case Option.bind (json_get value ''hpMax'') as_i64 of None \<Rightarrow> - 1 | Some n \<Rightarrow> n)
     \<and> integer_field value ''ac'' 1 40
     \<and> list_all (\<lambda>key.
          (case Option.bind (Option.bind (json_get value ''abilities'') (\<lambda>a. json_get a key)) as_i64 of
             None \<Rightarrow> False | Some n \<Rightarrow> 1 \<le> n \<and> n \<le> 30)) ability_keys
     \<and> (case Option.bind (json_get value ''inventory'') as_array of
          None \<Rightarrow> False | Some items \<Rightarrow> list_all valid_item items)"

section \<open>The canonical defense\<close>

text \<open>\<open>DefenseChoice\<close> denies unknown fields.\<close>

definition defense_choice_value :: "defense_choice \<Rightarrow> json" where
  "defense_choice_value c = JObj [(''schema_version'', JInt (int (dc_schema_version c))),
     (''armor_id'', json_option JStr (dc_armor_id c)), (''shield'', JBool (dc_shield c))]"

definition defense_choice_of :: "json \<Rightarrow> defense_choice option" where
  "defense_choice_of j =
     (case struct_fields True [''schema_version'', ''armor_id'', ''shield''] j of
        Some [a, b, c] \<Rightarrow>
          Option.bind (required (unsigned_of 16) a) (\<lambda>version.
          Option.bind (optional as_str b) (\<lambda>armor.
          Option.bind (required bool_of c) (\<lambda>shield.
          Some \<lparr>dc_schema_version = version, dc_armor_id = armor, dc_shield = shield\<rparr>)))
      | _ \<Rightarrow> None)"

definition u32_of_u64 :: "u64 \<Rightarrow> u32 option" where
  "u32_of_u64 n = (if n < 4294967296 then Some n else None)"

definition i32_of_i64 :: "i64 \<Rightarrow> i32 option" where
  "i32_of_i64 n = (if in_i32 n then Some n else None)"

text \<open>The \<open>collect\<close> of the inventory, up to the first bad item.\<close>

fun owned_items :: "json list \<Rightarrow> (string, (string \<times> u32) list) res" where
  "owned_items [] = Ok []"
| "owned_items (item # items) =
     bind_res (ok_or (as_str (json_index item ''id'')) ''hero_defense_invalid'') (\<lambda>i.
     bind_res (ok_or (as_u64 (json_index item ''count'')) ''hero_defense_invalid'') (\<lambda>n.
     bind_res (ok_or (u32_of_u64 n) ''hero_defense_invalid'') (\<lambda>count.
     bind_res (owned_items items) (\<lambda>rest. Ok ((i, count) # rest)))))"

definition defense_score :: "json \<Rightarrow> string \<Rightarrow> (string, i32) res" where
  "defense_score sheet key =
     bind_res (ok_or (as_i64 (json_index (json_index sheet ''abilities'') key)) ''hero_defense_invalid'') (\<lambda>n.
     ok_or (i32_of_i64 n) ''hero_defense_invalid'')"

definition or_else :: "'a option \<Rightarrow> 'a option \<Rightarrow> 'a option" where
  "or_else x y = (case x of None \<Rightarrow> y | Some v \<Rightarrow> Some v)"

definition base_speed_of :: "catalog \<Rightarrow> json \<Rightarrow> (string, u64) res" where
  "base_speed_of cat sheet =
     bind_res (case find (\<lambda>r. Some (ra_id r) = as_str (json_index sheet ''race'')) (ca_races cat) of
         None \<Rightarrow> Ok None
       | Some r \<Rightarrow> if 0 \<le> ra_speed r then Ok (Some (nat (ra_speed r))) else Err ''hero_defense_invalid'') (\<lambda>racial.
     Ok (case or_else racial (or_else (as_u64 (json_index sheet ''baseSpeedFt'')) (as_u64 (json_index sheet ''speedFt''))) of
           None \<Rightarrow> 30 | Some v \<Rightarrow> v))"

text \<open>The statistics, before they are written to the sheet.\<close>

definition sheet_defense :: "catalog \<Rightarrow> json \<Rightarrow> (string, defense_stats option) res" where
  "sheet_defense cat sheet =
     bind_res (ok_or (as_str (json_index sheet ''heroClass'')) ''hero_defense_invalid'') (\<lambda>cls.
     bind_res (ok_or (as_array (json_index sheet ''inventory'')) ''hero_defense_invalid'') (\<lambda>items.
     bind_res (owned_items items) (\<lambda>owned.
     bind_res (defense_score sheet ''str'') (\<lambda>strength.
     bind_res (defense_score sheet ''dex'') (\<lambda>dexterity.
     bind_res (defense_score sheet ''con'') (\<lambda>constitution.
     bind_res (defense_score sheet ''wis'') (\<lambda>wisdom.
     let input = \<lparr>di_class_id = cls, di_strength = strength, di_dexterity = dexterity,
           di_constitution = constitution, di_wisdom = wisdom, di_owned = owned\<rparr>
     in case json_get sheet ''defense'' of
          Some raw \<Rightarrow>
            bind_res (ok_or (defense_choice_of raw) ''hero_defense_invalid'') (\<lambda>choice.
            bind_res (derive_defense cat input choice) (\<lambda>st. Ok (Some st)))
        | None \<Rightarrow>
            if has_owned_body_armor cat input
            then bind_res (starting_choice cat input) (\<lambda>st. Ok (Some st))
            else Ok None)))))))"

text \<open>\<open>speed_penalty_ft as u64\<close> reinterprets a negative penalty, which \<open>saturating_sub\<close> then takes to zero.\<close>

definition u64_of_i32 :: "i32 \<Rightarrow> u64" where
  "u64_of_i32 n = nat (n mod 18446744073709551616)"

definition normalize_defense :: "catalog \<Rightarrow> json \<Rightarrow> (string, defense_stats option \<times> json) res" where
  "normalize_defense cat sheet =
     bind_res (sheet_defense cat sheet) (\<lambda>found.
     case found of
       None \<Rightarrow> Ok (None, sheet)
     | Some st \<Rightarrow>
         bind_res (reject_if (\<not> (1 \<le> dst_ac st \<and> dst_ac st \<le> 40)) ''hero_defense_invalid'') (\<lambda>_.
         bind_res (base_speed_of cat sheet) (\<lambda>base_speed.
         bind_res (reject_if (\<not> (1 \<le> base_speed \<and> base_speed \<le> 120)) ''hero_defense_invalid'') (\<lambda>_.
         bind_res (json_set ''ac'' (JInt (dst_ac st)) sheet) (\<lambda>s1.
         bind_res (json_set ''defense'' (defense_choice_value (dst_choice st)) s1) (\<lambda>s2.
         bind_res (json_set ''baseSpeedFt'' (JInt (int base_speed)) s2) (\<lambda>s3.
         bind_res (json_set ''speedFt'' (JInt (int (base_speed - u64_of_i32 (dst_speed_penalty_ft st)))) s3) (\<lambda>s4.
         Ok (Some st, s4)))))))))"

definition normalize_for_read :: "sheet_env \<Rightarrow> json \<Rightarrow> (string, defense_stats option \<times> json) res" where
  "normalize_for_read env sheet =
     bind_res (normalize_defense (se_catalog env) sheet) (\<lambda>(result, candidate).
     if \<not> within_character_budget env candidate \<and> json_get sheet ''defense'' = None then Ok (None, sheet)
     else Ok (result, candidate))"

end
