(* ===== verification/Demo_Hero.thy ===== *)
theory Demo_Hero
  imports Character_Document
begin

text \<open>
  A small catalog and the sheet of a fighter, on which the properties of characters are instantiated.
\<close>

definition demo_catalog :: catalog where
  "demo_catalog = \<lparr>ca_races = [], ca_classes = [\<lparr>cl_id = ''fighter'', cl_ruleset_id = [], cl_name_key = [], cl_name_en = ''Fighter'',
       cl_name_ru = [], cl_hit_die = 10, cl_primary_ability = [''str''], cl_saving_throw_proficiencies = [''str'', ''con''],
       cl_armor_proficiencies = [''light'', ''shield''], cl_weapon_proficiencies = [''simple'', ''martial''],
       cl_tool_proficiencies = [], cl_starting_gold = None, cl_subclass_at_level = Some 3, cl_source_url = [],
       cl_source_page = 0, cl_srd_section = []\<rparr>],
     ca_spells = [],
     ca_equipment = \<lparr>eb_weapons = [\<lparr>we_id = ''longsword'', we_ruleset_id = [], we_name_key = [], we_name_en = [],
         we_name_ru = [], we_category = ''martial_melee'', we_cost = \<lparr>cost_gp = Some 15, cost_sp = None, cost_cp = None\<rparr>,
         we_damage = \<lparr>wd_dice = ''1d8'', wd_damage_type = ''slashing'', wd_versatile_dice = Some ''1d10''\<rparr>,
         we_properties = [''versatile''], we_mastery = None, we_range_ft = \<lparr>wr_normal = None, wr_long = None\<rparr>,
         we_special_rules = None, we_source_url = [], we_source_page = 0, we_srd_section = []\<rparr>],
       eb_armor = [\<lparr>am_id = ''leather'', am_ruleset_id = [], am_name_key = [], am_name_en = [], am_name_ru = [],
         am_category = ''light'', am_cost = \<lparr>cost_gp = Some 10, cost_sp = None, cost_cp = None\<rparr>, am_ac_base = 11,
         am_ac_dex_bonus_cap = None, am_stealth_disadvantage = False, am_str_req = None, am_don_time = None,
         am_doff_time = None, am_source_url = [], am_source_page = 0, am_srd_section = []\<rparr>],
       eb_adventuring_gear = []\<rparr>\<rparr>"

definition demo_uuids :: uuid_codec where
  "demo_uuids = \<lparr>uuid_text = (\<lambda>i. replicate i (CHR ''x'')), uuid_parse = (\<lambda>s. Some (length s))\<rparr>"

lemma demo_uuids_ok: "uuid_codec_ok demo_uuids"
  by (simp add: uuid_codec_ok_def demo_uuids_def)

definition demo_env :: sheet_env where
  "demo_env = \<lparr>se_uuids = demo_uuids, se_catalog = demo_catalog, se_media_of = (\<lambda>_. None), se_json_len = (\<lambda>_. 0)\<rparr>"

definition demo_sheet :: json where
  "demo_sheet = JObj [(''name'', JStr ''Mira''), (''heroClass'', JStr ''fighter''), (''level'', JInt 1),
     (''hpMax'', JInt 12), (''hp'', JInt 9), (''ac'', JInt 10), (''notes'', JStr ''a scar''),
     (''abilities'', JObj [(''str'', JInt 16), (''dex'', JInt 14), (''con'', JInt 14), (''int'', JInt 8), (''wis'', JInt 10),
        (''cha'', JInt 10)]),
     (''inventory'', JArr [
        JObj [(''id'', JStr ''fighter-leather''), (''name'', JStr ''Leather''), (''count'', JInt 1)],
        JObj [(''id'', JStr ''fighter-longsword''), (''name'', JStr ''Longsword''), (''count'', JInt 1)]])]"

lemma demo_sheet_object: "is_object demo_sheet"
  by (simp add: demo_sheet_def)

end
