(* ===== verification/Campaign_Properties.thy ===== *)
theory Campaign_Properties
  imports Loadout Defense Turn_Phases Party Rest Adventure Demo_Hero
begin

text \<open>
  What the rules outside combat promise: the authored adventure, the party, rests, the phases of a
  turn of play, and the statistics derived from a character sheet.
\<close>

section \<open>The adventure\<close>

text \<open>C18: however a campaign is played, the adventure stays coherent: from its initial state, over any
  sequence of accepted actions and defense results, the invariant of the story holds, facts once learned are
  never forgotten along the way, and a closed adventure accepts nothing any more.\<close>

theorem adventure_stays_coherent:
  assumes "reachable_by (\<lambda>s. s = new_adventure) adventure_step s" "adventure_step\<^sup>*\<^sup>* s t"
  shows "adventure_ok t \<and> as_facts s \<subseteq> as_facts t \<and> (as_closed s \<longrightarrow> t = s)"
proof -
  have ok: "adventure_ok s" using tale.reachable_inv [OF assms(1)] .
  have "t = s" if "as_closed s"
    using assms(2) closed_final [OF ok that] by (metis converse_rtranclpE)
  then show ?thesis using tale.steps_inv [OF assms(2) ok] adventure_steps_facts [OF assms(2)] by blast
qed

theorem adventure_stays_coherent_witness: "adventure_ok new_adventure"
  using adventure_stays_coherent [of new_adventure new_adventure] by (simp add: reachable_by.intros)

text \<open>C19: the reward is paid exactly once: along any play from a state that has not been rewarded, the gold
  handed out is ten pieces if the reward has been granted by then and none otherwise.\<close>

theorem reward_is_paid_once:
  assumes "adventure_run s g t" "RewardGranted \<notin> as_facts s"
  shows "g = (if RewardGranted \<in> as_facts t then 10 else 0)"
  using adventure_run_reward [OF assms] .

theorem reward_is_paid_once_witness: "\<exists>g t. adventure_run new_adventure g t \<and> as_location t = Quay \<and> g = 0"
proof -
  let ?m = "apply_action new_adventure (MoveTo Quay)"
  have "(case ?m of Ok tr \<Rightarrow> as_location (tr_state tr) = Quay \<and> RewardGranted \<notin> as_facts (tr_state tr) | _ \<Rightarrow> False)"
    by code_simp
  then obtain tr where tr: "?m = Ok tr" "as_location (tr_state tr) = Quay" "RewardGranted \<notin> as_facts (tr_state tr)"
    by (cases ?m) simp_all
  have run: "adventure_run new_adventure (0 + tr_gold_reward tr) (tr_state tr)"
    using run_act [OF run_start tr(1)] .
  have "RewardGranted \<notin> as_facts new_adventure" by code_simp
  from reward_is_paid_once [OF run this] tr run show ?thesis by auto
qed

text \<open>C20: the adventure can always be finished: from every coherent state some sequence of legal actions
  and defense results closes it.\<close>

theorem adventure_is_never_stuck:
  assumes "adventure_ok s"
  shows "\<exists>t. adventure_step\<^sup>*\<^sup>* s t \<and> as_closed t"
  using adventure_can_finish [OF assms] .

theorem adventure_is_never_stuck_witness: "\<exists>t. adventure_step\<^sup>*\<^sup>* new_adventure t \<and> as_closed t"
proof (rule adventure_is_never_stuck)
  show "adventure_ok new_adventure" by (rule tale.reachable_inv) (simp add: reachable_by.intros)
qed

section \<open>The party\<close>

text \<open>C21: a party never loses its shape: whatever joins are tried on a new party, accepted or refused, it has
  one host, at most four members, distinct members and distinct characters, and every member keeps the one
  character it brought.\<close>

theorem party_keeps_its_shape:
  assumes "reachable_by party_start party_step p" "party_step\<^sup>*\<^sup>* p q" "member_owns p m c"
  shows "party_ok q \<and> authorize_member q m c = Ok () \<and> (\<forall>c'. authorize_member q m c' = Ok () \<longrightarrow> c' = c)
     \<and> (\<forall>m'. authorize_member q m' c = Ok () \<longrightarrow> m' = m)"
proof -
  have ok: "party_ok q" using party.steps_inv [OF assms(2) party.reachable_inv [OF assms(1)]] .
  have own: "member_owns q m c" using party_steps_keep [OF assms(2,3)] by simp
  with ok member_owns_unique [OF ok own] show ?thesis by (simp add: authorize_member_Ok)
qed

theorem party_keeps_its_shape_witness:
  "\<exists>q. join_party 3 4 \<lparr>pr_host_member_id = 1, pr_members = [\<lparr>pm_member_id = 1, pm_character_id = 2, pm_role = Host\<rparr>]\<rparr> = (Ok (), q)
     \<and> authorize_member q 1 2 = Ok ()"
proof -
  let ?p = "\<lparr>pr_host_member_id = 1, pr_members = [\<lparr>pm_member_id = 1, pm_character_id = 2, pm_role = Host\<rparr>]\<rparr>"
  have "new_party 1 2 = Ok ?p" by code_simp
  then have "party_start ?p" unfolding party_start_def by blast
  then have r: "reachable_by party_start party_step ?p" by (rule reachable_by.intros)
  have "succeeds (\<lambda>_. True) (join_party 3 4 ?p)" by code_simp
  then obtain u q where q: "join_party 3 4 ?p = (Ok u, q)" by (rule succeedsE)
  then have "party_step ?p q" unfolding party_step_def by blast
  then have "party_step\<^sup>*\<^sup>* ?p q" by (rule r_into_rtranclp)
  moreover have "member_owns ?p 1 2" by code_simp
  moreover have "u = ()" by (rule unit_eq)
  ultimately show ?thesis using party_keeps_its_shape [OF r] q by blast
qed

section \<open>Rests\<close>

text \<open>C22: a rest that is granted was allowed (safe, out of combat, conscious, long rests sixteen hours apart,
  hit dice in stock) and does what it says: a short rest spends exactly the dice asked for and heals at least
  one point each up to the maximum, a long rest restores hit points, hit dice and spell slots, waiting only
  passes time; and it takes the stated number of minutes. A refusal rolls nothing, and nothing panics.\<close>

theorem rest_does_what_it_says:
  assumes "resolve_rest cat rr st intent rng = (res, rng')" "ri_max_hp st \<le> i32_max"
  shows "res \<noteq> Panic \<and> (\<forall>e. res = Err e \<longrightarrow> rng' = rng)
     \<and> (\<forall>out. res = Ok out \<longrightarrow> rest_allowed cat st intent (ro_duration_minutes out) (ro_elapsed_seconds out)
           \<and> rest_result st intent out)"
  using resolve_rest_cases [OF assms] by blast

definition demo_rest :: rest_input where
  "demo_rest = \<lparr>ri_class_id = ''fighter'', ri_level = 3, ri_hp = 10, ri_max_hp = 28, ri_constitution_modifier = 2,
     ri_elapsed_seconds = 100000,
     ri_resources = \<lparr>rr_hit_dice_remaining = 3, rr_last_long_rest_completed = Some 20000, rr_spell_slots = []\<rparr>,
     ri_safe = True, ri_combat_active = False\<rparr>"

theorem rest_does_what_it_says_witness:
  "\<exists>out g. resolve_rest demo_catalog (\<lambda>n g. (1 + int g mod n, g + 1)) demo_rest Long (from_seed (\<lambda>s. s) 4) = (Ok out, g)
     \<and> ro_hp out = 28"
proof -
  let ?m = "resolve_rest demo_catalog (\<lambda>n g. (1 + int g mod n, g + 1)) demo_rest Long (from_seed (\<lambda>s. s) 4)"
  have "succeeds (\<lambda>_. True) ?m" by code_simp
  then obtain out g where run: "?m = (Ok out, g)" by (rule succeedsE)
  have "ri_max_hp demo_rest = 28" by (simp add: demo_rest_def)
  with rest_does_what_it_says [OF run] run show ?thesis by (auto simp: rest_result_def)
qed

section \<open>The phases of a turn\<close>

text \<open>C23: a turn of play runs its four phases in their order: a run of the machine from a new turn that meets
  no error has announced a prefix of validate, resolve, narrate, persist, and the turn is complete exactly
  when it has announced all four; so a second completion is impossible.\<close>

theorem turn_runs_its_phases_in_order:
  assumes "advance_all ps new_turn = (Ok (), s)"
  shows "ps = take (length ps) [Validate, Resolve, Narrate, Persist] \<and> (ts_complete s \<longleftrightarrow> length ps = 4)"
proof -
  from advance_all_from [OF assms] have n: "turn_progress s = length ps" and ranks: "map phase_rank ps = [0..<length ps]"
    by (simp_all add: new_turn_def turn_ok_def turn_progress_def)
  have le: "length ps \<le> 4" using n phase_rank_le [of "ts_phase s"] by (simp add: turn_progress_def split: if_splits)
  have "map phase_rank (take (length ps) [Validate, Resolve, Narrate, Persist]) = take (length ps) [0..<4]"
    unfolding take_map [symmetric] by (simp add: upt_rec numeral_eq_Suc)
  also have "\<dots> = map phase_rank ps" using le ranks by simp
  finally have "take (length ps) [Validate, Resolve, Narrate, Persist] = ps"
    by (rule map_injective) (simp add: inj_def)
  moreover have "ts_complete s \<longleftrightarrow> length ps = 4"
    using n phase_rank_le [of "ts_phase s"] advance_all_ok [OF assms new_turn_ok] by (cases "ts_phase s") (auto simp: turn_progress_def turn_ok_def split: if_splits)
  ultimately show ?thesis by simp
qed

theorem turn_runs_its_phases_in_order_witness:
  "\<exists>s. advance_all [Validate, Resolve] new_turn = (Ok (), s) \<and> \<not> ts_complete s"
proof -
  have "succeeds (\<lambda>_. True) (advance_all [Validate, Resolve] new_turn)" by code_simp
  then obtain u s where run: "advance_all [Validate, Resolve] new_turn = (Ok u, s)" by (rule succeedsE)
  have "u = ()" by (rule unit_eq)
  note run = run [unfolded this]
  have "ts_complete s \<longleftrightarrow> length [Validate, Resolve] = 4" using turn_runs_its_phases_in_order [OF run] by (rule conjunct2)
  with run show ?thesis by (intro exI [of _ s]) simp
qed

section \<open>The character sheet\<close>





definition slots_at :: "string \<Rightarrow> u8 \<Rightarrow> u8 \<Rightarrow> u8" where
  "slots_at cls level l = (case table_get (slot_capacity cls level) l of None \<Rightarrow> 0 | Some c \<Rightarrow> c)"

lemma row_slots_below: "l < k \<Longrightarrow> table_get (row_slots k cs) l = None"
  by (induction k cs rule: row_slots.induct) (auto simp: table_get_def)

lemma row_slots_get:
  "table_get (row_slots k cs) l = (if k \<le> l \<and> l < k + length cs \<and> 0 < cs ! (l - k) then Some (cs ! (l - k)) else None)"
proof (induction k cs rule: row_slots.induct)
  case (2 k c cs)
  show ?case
  proof (cases "l = k")
    case True
    then show ?thesis using row_slots_below [of l "k + 1" cs] by (simp add: table_get_def)
  next
    case False
    then have "table_get (row_slots k (c # cs)) l = table_get (row_slots (k + 1) cs) l" by (simp add: table_get_def)
    also have "\<dots> = (if k + 1 \<le> l \<and> l < k + 1 + length cs \<and> 0 < cs ! (l - (k + 1)) then Some (cs ! (l - (k + 1))) else None)"
      using 2 by (cases "0 < c") simp_all
    also have "\<dots> = (if k \<le> l \<and> l < k + length (c # cs) \<and> 0 < (c # cs) ! (l - k) then Some ((c # cs) ! (l - k)) else None)"
      using False by (cases "k < l") (auto simp: nth_Cons' Suc_diff_Suc)
    finally show ?thesis .
  qed
qed (simp add: table_get_def)

lemma full_slots_step: "n < 19 \<Longrightarrow> j < 9 \<Longrightarrow> full_slots ! n ! j \<le> full_slots ! Suc n ! j"
proof -
  have "\<forall>n\<in>set [0..<19]. \<forall>j\<in>set [0..<9]. full_slots ! n ! j \<le> full_slots ! Suc n ! j" by code_simp
  then show "n < 19 \<Longrightarrow> j < 9 \<Longrightarrow> full_slots ! n ! j \<le> full_slots ! Suc n ! j" by simp
qed

lemma full_slots_mono: "a \<le> b \<Longrightarrow> b < 20 \<Longrightarrow> j < 9 \<Longrightarrow> full_slots ! a ! j \<le> full_slots ! b ! j"
  by (induction b rule: nat_induct_at_least) (auto intro: le_trans [OF _ full_slots_step])

text \<open>C26: the spell slots of a class are sane at every level: only slot levels one to nine, each listed once
  with one to four slots, none outside levels one to twenty; and for every class but the warlock, whose
  slots move up, a higher level never has fewer slots of any level.\<close>

theorem spell_slots_grow:
  "(\<forall>l c. (l, c) \<in> set (slot_capacity cls level) \<longrightarrow> 1 \<le> l \<and> l \<le> 9 \<and> 1 \<le> c \<and> c \<le> 4)
   \<and> distinct (map fst (slot_capacity cls level)) \<and> (level = 0 \<or> 20 < level \<longrightarrow> slot_capacity cls level = [])
   \<and> (cls \<noteq> ''warlock'' \<longrightarrow> level \<le> higher \<longrightarrow> higher \<le> 20 \<longrightarrow> slots_at cls level l \<le> slots_at cls higher l)"
proof -
  have row: "(case table_get (row_slots 1 (full_slots ! a)) l of None \<Rightarrow> 0 | Some c \<Rightarrow> c)
      \<le> (case table_get (row_slots 1 (full_slots ! b)) l of None \<Rightarrow> 0 | Some c \<Rightarrow> c)" if "a \<le> b" "b < 20" for a b
  proof (cases "1 \<le> l \<and> l < 10")
    case True
    then have "l - 1 < 9" by linarith
    from full_slots_mono [OF that this] have "full_slots ! a ! (l - 1) \<le> full_slots ! b ! (l - 1)" .
    then show ?thesis using full_slots_row [of a] full_slots_row [of b] that True by (simp add: row_slots_get)
  qed (use full_slots_row [of a] full_slots_row [of b] that in \<open>auto simp: row_slots_get\<close>)
  have "slots_at cls level l \<le> slots_at cls higher l"
    if h: "cls \<noteq> ''warlock''" "level \<le> higher" "higher \<le> 20" "0 < level"
  proof -
    have "level - 1 \<le> higher - 1" "higher - 1 < 20" "(level + 1) div 2 - 1 \<le> (higher + 1) div 2 - 1"
      "(higher + 1) div 2 - 1 < 20" using h by auto
    then show ?thesis using h row unfolding slots_at_def slot_capacity_def by (auto simp: table_get_def [of "[]"])
  qed
  moreover have "slots_at cls 0 l = 0" by (simp add: slots_at_def slot_capacity_def table_get_def)
  ultimately have "cls \<noteq> ''warlock'' \<longrightarrow> level \<le> higher \<longrightarrow> higher \<le> 20 \<longrightarrow> slots_at cls level l \<le> slots_at cls higher l"
    by (cases "level = 0") auto
  moreover have "\<forall>l c. (l, c) \<in> set (slot_capacity cls level) \<longrightarrow> 1 \<le> l \<and> l \<le> 9 \<and> 1 \<le> c \<and> c \<le> 4"
    using slot_capacity_bounds by blast
  moreover have "level = 0 \<or> 20 < level \<longrightarrow> slot_capacity cls level = []" by (auto simp: slot_capacity_def)
  ultimately show ?thesis using slot_capacity_ok [of cls level] by (simp only: table_ok_def simp_thms)
qed

theorem spell_slots_grow_witness: "slots_at ''wizard'' 3 2 \<le> slots_at ''wizard'' 9 2"
  using spell_slots_grow [of "''wizard''" 3 9 2] by simp

end
