(* ===== verification/Adventure_View.thy ===== *)
theory Adventure_View
  imports Adventure Geometry
begin

text \<open>
  The public view of the authored adventure (\<^verbatim>\<open>crates/app-application/src/models/adventure.rs\<close>):
  which actions, goals, portraits and pictures a client may see. It is computed from the state alone.
\<close>

record public_npc =
  pn_id :: string
  pn_portrait_asset_id :: string

record adventure_projection =
  ap_map_skin_asset_id :: "string option"
  ap_scene_asset_id :: "string option"
  ap_map :: "battle_map option"
  ap_state :: adventure_state
  ap_available_actions :: "adv_action list"
  ap_public_goals :: "adv_action list"
  ap_public_npcs :: "public_npc list"

definition visited :: "adventure_state \<Rightarrow> location \<Rightarrow> bool" where
  "visited s l \<longleftrightarrow> as_location s = l \<or> MoveTo l \<in> set (as_history s)"

definition public_npcs :: "adventure_state \<Rightarrow> public_npc list" where
  "public_npcs s =
     (if as_package_id s \<noteq> bell_adventure_id then []
      else
        let met = [(''mila'', True), (''agata'', True),
              (''leon'', visited s Shrine \<or> WardUnderstood \<in> as_facts s),
              (''varden'', visited s Warehouse),
              (''tikhon'', TikhonLocated \<in> as_facts s \<or> TikhonRescued \<in> as_facts s),
              (''savely'', RosterAvailable \<in> as_facts s \<or> EchoAcknowledged \<in> as_facts s)]
        in map (\<lambda>(i, _). \<lparr>pn_id = i, pn_portrait_asset_id = ''npc.bell.'' @ i @ ''.v2''\<rparr>)
             (filter snd met))"

fun location_key :: "location \<Rightarrow> string" where
  "location_key Town = ''town''"
| "location_key Quay = ''quay''"
| "location_key Shrine = ''shrine''"
| "location_key Warehouse = ''warehouse''"
| "location_key Archive = ''archive''"
| "location_key Belfry = ''belfry''"

fun is_goal :: "adv_action \<Rightarrow> bool" where
  "is_goal (MoveTo _) = False"
| "is_goal Finish = False"
| "is_goal _ = True"

definition adventure_view :: "adventure_state \<Rightarrow> adventure_projection" where
  "adventure_view s = \<lparr>
     ap_map_skin_asset_id = (if as_package_id s = bell_adventure_id \<and> as_location s = Archive
        then Some ''map.bell_archive.v2'' else None),
     ap_scene_asset_id = (if as_package_id s = bell_adventure_id
        then Some (''scene.bell.'' @ location_key (as_location s) @ ''.v2'') else None),
     ap_map = (if as_location s = Archive then Some bell_archive_map else None),
     ap_state = s,
     ap_available_actions = available_actions s,
     ap_public_goals = filter is_goal (available_actions s),
     ap_public_npcs = public_npcs s\<rparr>"

lemma goals_performable:
  assumes "a \<in> set (ap_public_goals (adventure_view s))"
  shows "is_goal a \<and> (\<exists>tr. apply_action s a = Ok tr)"
  using assms by (auto simp: adventure_view_def apply_action_def reject_if_def split: prod.splits)

end
