(* ===== verification/Encounter.thy ===== *)
theory Encounter
  imports Resolver Adventure_View
begin

text \<open>
  The encounter of the application layer (\<^verbatim>\<open>crates/app-application/src/models/combat.rs\<close> and
  \<^verbatim>\<open>combat/projection.rs\<close>, \<^verbatim>\<open>automation.rs\<close>, \<^verbatim>\<open>authored.rs\<close>): the stored projection of a fight,
  its translation to the engine and back, the monsters acting on their own, and the authored defense
  of the archive.
\<close>

section \<open>The projection\<close>

definition combat_projection_version :: u16 where "combat_projection_version = 1"

datatype opponent_archetype = WaterEcho | Goblin | Skeleton | Zombie | Wolf | Bandit | Orc | GiantRat

datatype authored_encounter_kind = BellArchiveDefense

record authored_encounter =
  ae_map_skin_asset_id :: "string option"
  ae_kind :: authored_encounter_kind
  ae_map :: battle_map
  ae_outcome :: "defense_outcome option"

record combat_campaign_scope =
  cs_campaign_id :: uuid
  cs_session_id :: uuid
  cs_character_id :: uuid
  cs_revision :: u64

record combat_snapshot =
  sn_active :: bool
  sn_round :: u32
  sn_current_combatant :: "combatant_id option"
  sn_initiative :: "initiative_entry list"
  sn_combatants :: "combatant list"

record combat_projection =
  cj_appearances :: "(uuid, opponent_archetype) table"
  cj_authored :: "authored_encounter option"
  cj_adventure :: "adventure_projection option"
  cj_campaign_scope :: "combat_campaign_scope option"
  cj_schema_version :: u16
  cj_encounter_id :: uuid
  cj_revision :: u64
  cj_snapshot :: combat_snapshot
  cj_events :: "result_events list"

definition empty_snapshot :: combat_snapshot where
  "empty_snapshot = \<lparr>sn_active = False, sn_round = 0, sn_current_combatant = None, sn_initiative = [],
     sn_combatants = []\<rparr>"

definition empty_projection :: "uuid \<Rightarrow> u64 \<Rightarrow> combat_projection" where
  "empty_projection encounter_id revision = \<lparr>cj_appearances = [], cj_authored = None, cj_adventure = None,
     cj_campaign_scope = None, cj_schema_version = combat_projection_version, cj_encounter_id = encounter_id,
     cj_revision = revision, cj_snapshot = empty_snapshot, cj_events = []\<rparr>"

definition on_snapshot :: "(combat_snapshot \<Rightarrow> combat_snapshot) \<Rightarrow> combat_projection \<Rightarrow> combat_projection" where
  "on_snapshot f p = p\<lparr>cj_snapshot := f (cj_snapshot p)\<rparr>"

section \<open>To the engine and back\<close>

definition round_seconds :: u64 where "round_seconds = 6"

definition elapsed_seconds :: "u32 \<Rightarrow> combat_snapshot \<Rightarrow> u64" where
  "elapsed_seconds previous_round sn =
     (if sn_round sn > previous_round then (sn_round sn - previous_round) * round_seconds
      else if \<not> sn_active sn then round_seconds else 0)"

definition collect_combatants :: "combatant list \<Rightarrow> (combatant_id, combatant) table" where
  "collect_combatants cs = foldl (\<lambda>t c. table_put (c_id c) c t) [] cs"

definition resolver_state :: "combat_snapshot \<Rightarrow> ((combatant_id, combatant) table \<times> initiative_order) option" where
  "resolver_state sn =
     (let combatants = collect_combatants (sn_combatants sn);
          ids = set (map ie_id (sn_initiative sn))
      in if length combatants \<noteq> length (sn_combatants sn)
            \<or> card ids \<noteq> length (sn_initiative sn)
            \<or> card ids \<noteq> length combatants
            \<or> (\<exists>i\<in>ids. table_get combatants i = None) then None
         else
           case sn_current_combatant sn of
             None \<Rightarrow> None
           | Some current \<Rightarrow>
               map_option (Pair combatants) (restore_order (sn_initiative sn) current (sn_round sn)))"

text \<open>The index inside \<open>order.current()\<close> is \<open>Panic\<close> when it is out of range.\<close>

definition current_id :: "initiative_order \<Rightarrow> ('e, combatant_id option) res" where
  "current_id ord =
     (if order_is_empty ord then Ok None
      else bind_res (unwrap (order_current ord)) (\<lambda>e. Ok (Some (ie_id e))))"

definition replace_resolved_state ::
  "combat_projection \<Rightarrow> (combatant_id, combatant) table \<Rightarrow> initiative_order \<Rightarrow> result_events \<Rightarrow>
   ('e, combat_projection) res" where
  "replace_resolved_state p combatants ord events =
     bind_res (current_id ord) (\<lambda>current.
     Ok (p\<lparr>cj_revision := u64_add (cj_revision p) 1,
           cj_snapshot := (cj_snapshot p)\<lparr>
             sn_combatants := List.map_filter (\<lambda>e. table_get combatants (ie_id e)) (sn_initiative (cj_snapshot p)),
             sn_round := io_round ord,
             sn_current_combatant := current,
             sn_initiative := io_entries ord\<rparr>,
           cj_events := [events]\<rparr>))"

section \<open>Monsters act on their own\<close>

definition standing_enemy :: "combatant \<Rightarrow> bool" where
  "standing_enemy a \<longleftrightarrow> c_character_id a = None \<and> c_current_hp a > 0 \<and> \<not> c_is_dead a"

definition any_actor :: "(combatant \<Rightarrow> bool) \<Rightarrow> 'g resolver \<Rightarrow> bool" where
  "any_actor p r \<longleftrightarrow> list_ex p (table_values (rs_combatants r))"

text \<open>The loop of \<open>settle_npcs_until\<close>, with the rounds its range still allows.\<close>

fun settle_loop ::
  "'g sampler \<Rightarrow> u32 option \<Rightarrow> nat \<Rightarrow> result_events list \<Rightarrow> 'g resolver \<Rightarrow>
   (string, result_events list) res \<times> 'g resolver" where
  "settle_loop rr stop 0 evs r = (Err ''combat_npc_cycle_invalid'', r)"
| "settle_loop rr stop (Suc n) evs r =
     (if (case stop of None \<Rightarrow> False | Some limit \<Rightarrow> io_round (rs_order r) \<ge> limit) then (Ok evs, r)
      else if \<not> any_actor standing_hero r \<or> \<not> any_actor standing_enemy r then (Ok evs, r)
      else
        try_state (unwrap (order_current (rs_order r))) r (\<lambda>e.
        try_state (unwrap (actor_of r (ie_id e))) r (\<lambda>a.
        if c_character_id a \<noteq> None then (Ok evs, r)
        else
          and_then (err_as ''combat_npc_action_rejected'' (resolve rr (NpcTurn (ie_id e)) r)) (\<lambda>ev s.
          settle_loop rr stop n (evs @ [ev]) s))))"

definition settle_npcs_until ::
  "'g sampler \<Rightarrow> u32 option \<Rightarrow> result_events list \<Rightarrow> 'g resolver \<Rightarrow>
   (string, result_events list) res \<times> 'g resolver" where
  "settle_npcs_until rr stop evs r =
     (if \<not> any_actor (\<lambda>a. c_character_id a \<noteq> None) r then (Ok evs, r)
      else settle_loop rr stop (order_len (rs_order r) + 1) evs r)"

definition settle_npcs ::
  "'g sampler \<Rightarrow> result_events list \<Rightarrow> 'g resolver \<Rightarrow> (string, result_events list) res \<times> 'g resolver" where
  "settle_npcs rr evs r = settle_npcs_until rr None evs r"

definition finish_if_resolved :: "combat_projection \<Rightarrow> combat_projection" where
  "finish_if_resolved p =
     (let cs = sn_combatants (cj_snapshot p) in
      if \<not> list_ex (\<lambda>a. c_character_id a \<noteq> None) cs then p
      else if \<not> list_ex standing_hero cs \<or> \<not> list_ex standing_enemy cs
      then on_snapshot (\<lambda>sn. sn\<lparr>sn_active := False, sn_current_combatant := None\<rparr>) p
      else p)"

end
