(* ===== verification/Monster_Turns.thy ===== *)
theory Monster_Turns
  imports Encounter Shortest_Path
begin

text \<open>
  Why the monsters always hand the turn back: an automatic turn raises no hero, so the pointer of the
  order, which moves on with each of them, meets a standing hero within one round. The loop of
  \<open>settle_npcs_until\<close> is therefore long enough, and its error for an endless cycle is never returned.
\<close>

section \<open>Nobody is raised\<close>

definition standing_at :: "'g resolver \<Rightarrow> combatant_id \<Rightarrow> bool" where
  "standing_at r j \<longleftrightarrow> (\<exists>a. actor_of r j = Some a \<and> standing_hero a)"

definition unrisen :: "'g resolver \<Rightarrow> 'g resolver \<Rightarrow> bool" where
  "unrisen r s \<longleftrightarrow> rs_order s = rs_order r \<and> (\<forall>j. standing_at s j \<longrightarrow> standing_at r j)"

interpretation downed: evolution unrisen
  by unfold_locales (auto simp: unrisen_def)

definition slot :: "'g resolver \<Rightarrow> nat \<Rightarrow> combatant_id" where
  "slot r k = ie_id (io_entries (rs_order r) ! ((io_current_index (rs_order r) + k) mod order_len (rs_order r)))"

text \<open>The pointer moved on by \<open>m\<close>, and nobody stands in the places it left behind.\<close>

definition passed :: "'g resolver \<Rightarrow> 'g resolver \<Rightarrow> nat \<Rightarrow> bool" where
  "passed r s m \<longleftrightarrow>
     io_entries (rs_order s) = io_entries (rs_order r)
     \<and> io_current_index (rs_order s) = (io_current_index (rs_order r) + m) mod order_len (rs_order r)
     \<and> (\<forall>k<m. \<not> standing_at s (slot r k))
     \<and> (\<forall>j. standing_at s j \<longrightarrow> standing_at r j)"

definition hero_up :: "'g resolver \<Rightarrow> bool" where
  "hero_up r \<longleftrightarrow> (\<exists>e a. order_current (rs_order r) = Some e \<and> actor_of r (ie_id e) = Some a \<and> c_character_id a \<noteq> None)"

lemma slot_0: "order_ok (rs_order r) \<Longrightarrow> order_current (rs_order r) = Some e \<Longrightarrow> slot r 0 = ie_id e"
  by (simp add: slot_def order_ok_def order_current_def order_len_def split: if_splits)

lemma passed_slot: "passed r s m \<Longrightarrow> slot s j = slot r (m + j)"
  by (simp add: passed_def slot_def order_len_def mod_simps add.assoc)

lemma passed_refl: "order_ok (rs_order r) \<Longrightarrow> passed r r 0"
  by (simp add: passed_def order_ok_def order_len_def)

lemma passed_trans:
  assumes "passed r s m" "passed s t n"
  shows "passed r t (m + n)"
proof -
  have "\<not> standing_at t (slot r k)" if "k < m + n" for k
  proof (cases "k < m")
    case False
    then have "slot r k = slot s (k - m)" using passed_slot [OF assms(1), of "k - m"] by simp
    with assms(2) False that show ?thesis by (simp add: passed_def)
  qed (use assms in \<open>auto simp: passed_def\<close>)
  with assms show ?thesis by (auto simp: passed_def order_len_def mod_simps add.assoc)
qed

lemma passed_unrisen: "order_ok (rs_order r) \<Longrightarrow> unrisen r s \<Longrightarrow> passed r s 0"
  by (auto simp: passed_def unrisen_def order_ok_def order_len_def)

lemma standing_upd:
  "standing_at (upd_actor i f r) j \<longleftrightarrow>
     (if j = i then \<exists>a. actor_of r i = Some a \<and> standing_hero (f a) else standing_at r j)"
  by (auto simp: standing_at_def)

lemma passed_advance:
  assumes "order_ok (rs_order r)" "order_current (rs_order r) = Some e" "\<not> standing_at r (ie_id e)"
  shows "passed r (advance_turn r) 1"
  using assms cyclic.pos_adv [OF assms(1)] slot_0 [OF assms(1,2)]
  by (auto simp: passed_def advance_turn_def standing_at_def actor_of_def)

lemma passed_all:
  assumes "passed r s m" "order_len (rs_order r) \<le> m" "order_ok (rs_order r)"
    and "j \<in> set (map ie_id (io_entries (rs_order r)))"
  shows "\<not> standing_at s j"
proof -
  obtain i where i: "i < order_len (rs_order r)" "j = ie_id (io_entries (rs_order r) ! i)"
    using assms(4) by (auto simp: order_len_def in_set_conv_nth)
  obtain k where "k < order_len (rs_order r)" "(io_current_index (rs_order r) + k) mod order_len (rs_order r) = i"
    using cyclic.full_cycle(3) [OF assms(3) i(1)] cyclic.pos_steps [OF assms(3)] by auto
  with assms(1,2) i(2) show ?thesis by (auto simp: passed_def slot_def)
qed

section \<open>Starting a turn\<close>

lemma hero_up_upd: "hero_up r \<Longrightarrow> (\<And>a. c_character_id (f a) = c_character_id a) \<Longrightarrow> hero_up (upd_actor i f r)"
  by (auto simp: hero_up_def)

lemma begin_turn_pass:
  assumes "resolver_ok r" "begin_turn_loop rr n ev r = (res, s)"
  shows "boundary_reached s \<or> hero_up s \<or> (\<exists>m. passed r s m)"
  using assms
proof (induction n arbitrary: ev r)
  case 0
  then show ?case using passed_refl [OF resolver_okD(4)] by auto
next
  case (Suc n)
  show ?case
  proof (cases "boundary_reached r")
    case True
    with Suc.prems show ?thesis by auto
  next
    case no_bound: False
    obtain e a where e: "order_current (rs_order r) = Some e" and a: "actor_of r (ie_id e) = Some a"
      using current_actor [OF Suc.prems(1)] .
    have ok_o: "order_ok (rs_order r)" using resolver_okD(4) [OF Suc.prems(1)] .
    have step: ?thesis if t: "begin_turn_loop rr n ev1 (advance_turn t) = (res, s)" "resolver_evolves r t"
      "unrisen r t" "\<not> standing_at t (ie_id e)" for ev1 t
    proof -
      have ord: "rs_order t = rs_order r" using t(3) by (simp add: unrisen_def)
      have "passed r t 0" using passed_unrisen [OF ok_o t(3)] .
      moreover have "passed t (advance_turn t) 1" using ok_o e t(4) ord by (intro passed_advance) auto
      ultimately have p: "passed r (advance_turn t) 1" using passed_trans by fastforce
      have "resolver_ok (advance_turn t)"
        by (rule resolver_evolves_ok [OF engine.trans [OF t(2) advance_evolves] Suc.prems(1)])
      from Suc.IH [OF this t(1)] show ?thesis using passed_trans [OF p] by blast
    qed
    show ?thesis
    proof (cases "c_withdrawn a")
      case True
      then have "begin_turn_loop rr n ev (advance_turn r) = (res, s)" using Suc.prems(2) no_bound e a by simp
      then show ?thesis
        by (rule step) (use a True in \<open>auto simp: engine.refl downed.refl standing_at_def standing_hero_def\<close>)
    next
      case False
      obtain ev1 a1 t where td: "turn_death_save rr (ie_id e) a ev r = (ev1, a1, t)" by (metis prod_cases3)
      note d = turn_death_save_evolves [OF td a]
      show ?thesis
      proof (cases "c_current_hp a1 > 0 \<and> \<not> c_is_dead a1")
        case True
        with Suc.prems(2) no_bound e a False td have
          s: "s = upd_actor (ie_id e) (\<lambda>x. x\<lparr>c_budget := refresh_for_new_turn (c_budget x) (c_speed_ft x)\<rparr>) t"
          by simp
        show ?thesis
        proof (cases "c_character_id a = None")
          case True
          then have "t = r" using td by (simp add: turn_death_save_def)
          then have "unrisen r s" by (auto simp: unrisen_def s standing_upd standing_hero_def standing_at_def split: if_splits)
          then show ?thesis using passed_unrisen [OF ok_o] by blast
        next
          case False
          then have "hero_up t" using e d(2,3,4) evolves_fields(2) [OF d(3)] by (auto simp: hero_up_def)
          then show ?thesis by (simp add: s hero_up_upd)
        qed
      next
        case down: False
        have "begin_turn_loop rr n ev1 (advance_turn t) = (res, s)"
          using Suc.prems(2) no_bound e a False td down by auto
        moreover have "\<not> standing_at t (ie_id e)" using d(2) down by (auto simp: standing_at_def standing_hero_def)
        moreover have "unrisen r t"
          unfolding unrisen_def using d(4,5) \<open>\<not> standing_at t (ie_id e)\<close> unfolding standing_at_def by metis
        ultimately show ?thesis using step d(1) by blast
      qed
    qed
  qed
qed

section \<open>The turn of a monster\<close>

lemma move_keeps: "resolve_move i dest r = (Ok ev, s) \<Longrightarrow> rs_order s = rs_order r \<and> standing_at s = standing_at r"
  by (erule resolve_move_Ok) (auto simp: standing_at_def standing_hero_def fun_eq_iff)

lemma approach_keeps:
  assumes "approach i target ev r = (Ok ev', s)"
  shows "rs_order s = rs_order r \<and> standing_at s = standing_at r"
  using assms
proof (induction "movement_left r i" arbitrary: r ev rule: less_induct)
  case less
  from less.prems show ?case
  proof (cases rule: approach_Ok_cases)
    case (walk a t cell mv r1)
    have "movement_left r1 i < movement_left r i"
      by (rule approach_decreases [OF walk(1) _ walk(4,5)]) (use walk(3) in blast)
    with less.hyps [OF _ walk(6)] move_keeps [OF walk(5)] show ?thesis by simp
  qed simp
qed

lemma approach_unrisen: "approach i target ev r = (Ok ev', s) \<Longrightarrow> unrisen r s"
  by (drule approach_keeps) (simp add: unrisen_def)

lemma weapon_unrisen:
  assumes run: "resolve_weapon_attack rr i target w mode two_handed r = (Ok ev, s)"
    and rr: "sampler_ok rr" and ok: "resolver_ok r" and up: "standing_at r target"
    and a: "actor_of r i = Some a" "c_character_id a = None"
  shows "unrisen r s"
  unfolding unrisen_def
proof (intro conjI allI impI)
  note eff = resolve_weapon_attack_cases(3,4) [OF rr ok run]
  from eff(1) obtain m adv r1 lo where
    e: "attack_effect i target m adv r r1 ev" "s = upd_actor i (\<lambda>x. x\<lparr>c_loadout := Some lo\<rparr>) r1"
    by (auto simp: weapon_effect_def)
  show "rs_order s = rs_order r" using e by (simp add: attack_effect_def)
  fix j assume j: "standing_at s j"
  show "standing_at r j"
  proof (cases "j = i \<or> j = target")
    case True
    then show ?thesis
    proof
      assume "j = i"
      with j a show ?thesis
        using evolved_actor [OF eff(2) a(1)] evolves_fields(2) by (fastforce simp: standing_at_def standing_hero_def)
    qed (use up in simp)
  next
    case False
    with j e show ?thesis by (simp add: standing_upd attack_effect_def standing_at_def)
  qed
qed

text \<open>The part of the turn before its end.\<close>

lemma npc_turn_cases:
  assumes run: "resolve rr (NpcTurn i) r = (Ok ev, s)"
    and rr: "sampler_ok rr" and ok: "resolver_ok r"
  obtains t fin where "unrisen r t" "resolver_evolves r t" "resolve_end_turn rr i t = (Ok fin, s)"
    "require_current r i = Ok ()"
proof -
  have "resolve_npc_turn rr i r = (Ok ev, s)" using run by (simp add: resolve.simps split: if_splits)
  then obtain a ev1 t fin where a: "actor_of r i = Some a" "c_character_id a = None" "require_current r i = Ok ()"
    and first: "(case (if c_current_hp a > 0 \<and> \<not> c_is_dead a \<and> \<not> has_condition a Unconscious
              then npc_target r (c_position a) else None) of
          None \<Rightarrow> (Ok no_events, r)
        | Some target \<Rightarrow>
            and_then (approach i target no_events r) (\<lambda>ev r1.
            try_state (unwrap (actor_of r1 i)) r1 (\<lambda>a1.
            try_state (unwrap (actor_of r1 target)) r1 (\<lambda>t1.
            if distance_ft (c_position a1) (c_position t1) \<le> 5 \<and> ab_action (c_budget a1)
               \<and> clear_between r1 (c_position a1) (c_position t1)
            then and_then (resolve_weapon_attack rr i target None DefaultMode False r1)
                   (\<lambda>hit r2. (Ok (append_events ev hit), r2))
            else (Ok ev, r1))))) = (Ok ev1, t)"
    and last: "resolve_end_turn rr i t = (Ok fin, s)"
    by (auto simp: resolve_npc_turn_def run_Ok)
  have "unrisen r t \<and> resolver_evolves r t"
  proof (cases "if c_current_hp a > 0 \<and> \<not> c_is_dead a \<and> \<not> has_condition a Unconscious
              then npc_target r (c_position a) else None")
    case None
    with first show ?thesis by (simp add: downed.refl engine.refl)
  next
    case (Some target)
    then have target: "npc_target r (c_position a) = Some target" by (metis option.distinct(1))
    with npc_target_present [OF ok] have up: "standing_at r target" by (auto simp: standing_at_def)
    from first Some obtain ev2 r1 a1 t1 where
      app: "approach i target no_events r = (Ok ev2, r1)" "actor_of r1 i = Some a1" "actor_of r1 target = Some t1"
      and rest: "t = r1 \<or> (\<exists>hit. resolve_weapon_attack rr i target None DefaultMode False r1 = (Ok hit, t))"
      by (auto simp: run_Ok split: if_splits)
    have e1: "resolver_evolves r r1"
      using approach_safe [OF ok, of i target no_events] app(1) a(1) up by (auto simp: safe_def standing_at_def)
    note u1 = approach_unrisen [OF app(1)]
    have ok1: "resolver_ok r1" by (rule resolver_evolves_ok [OF e1 ok])
    have a1: "c_character_id a1 = None"
      using evolved_actor [OF e1 a(1)] app(2) a(2) evolves_fields(2) by fastforce
    have up1: "standing_at r1 target" using approach_keeps [OF app(1)] up by simp
    from rest show ?thesis
    proof
      assume "\<exists>hit. resolve_weapon_attack rr i target None DefaultMode False r1 = (Ok hit, t)"
      then obtain hit where hit: "resolve_weapon_attack rr i target None DefaultMode False r1 = (Ok hit, t)" by blast
      from weapon_unrisen [OF hit rr ok1 up1 app(2) a1] resolve_weapon_attack_cases(4) [OF rr ok1 hit] u1 e1
      show ?thesis by (blast intro: downed.trans engine.trans)
    qed (use u1 e1 in simp)
  qed
  with that last a(3) show ?thesis by blast
qed

lemma npc_turn_pass:
  assumes run: "resolve rr (NpcTurn i) r = (Ok ev, s)" and rr: "sampler_ok rr" and ok: "resolver_ok r"
    and e: "order_current (rs_order r) = Some e" "actor_of r (ie_id e) = Some a" "c_character_id a = None"
  shows "boundary_reached s \<or> hero_up s \<or> (\<exists>m\<ge>1. passed r s m)"
proof -
  obtain t fin where t: "unrisen r t" "resolver_evolves r t" "resolve_end_turn rr i t = (Ok fin, s)"
    using npc_turn_cases [OF run rr ok] by metis
  have ok_o: "order_ok (rs_order r)" using resolver_okD(4) [OF ok] .
  have ord: "rs_order t = rs_order r" using t(1) by (simp add: unrisen_def)
  have begin_next: "begin_current_turn rr (advance_turn t) = (Ok fin, s)"
    using t(3) by (auto simp: resolve_end_turn_def run_Ok)
  have "\<not> standing_at t (ie_id e)"
    using evolved_actor [OF t(2) e(2)] e(3) evolves_fields(2) by (fastforce simp: standing_at_def standing_hero_def)
  with ok_o e(1) ord have "passed t (advance_turn t) 1" by (intro passed_advance) auto
  with passed_unrisen [OF ok_o t(1)] have p: "passed r (advance_turn t) 1" using passed_trans by fastforce
  have okt: "resolver_ok (advance_turn t)" by (rule advance_ok [OF resolver_evolves_ok [OF t(2) ok]])
  from begin_turn_pass [OF okt begin_next [unfolded begin_current_turn_def]]
  show ?thesis using passed_trans [OF p] by (metis le_add1)
qed

section \<open>A monster with a weapon in hand is never refused\<close>

text \<open>The default weapon can be used on a neighbour, whatever was spent before.\<close>

definition melee_armed :: "combatant \<Rightarrow> bool" where
  "melee_armed a \<longleftrightarrow> (\<exists>lo p. c_loadout a = Some lo
     \<and> find (\<lambda>p. wp_weapon_id p = lo_default_weapon lo) (lo_attacks lo) = Some p
     \<and> (lo_default_weapon lo \<noteq> ''unarmed'' \<longrightarrow> 0 < owned_count lo (lo_default_weapon lo))
     \<and> \<not> wp_ranged p \<and> \<not> wp_ammunition p \<and> 5 \<le> wp_reach_ft p \<and> \<not> (lo_shield lo \<and> wp_two_handed p))"

definition in_field :: "position \<Rightarrow> bool" where
  "in_field p \<longleftrightarrow> in_i32 (pos_x p) \<and> in_i32 (pos_y p)"

definition field_ready :: "'g resolver \<Rightarrow> bool" where
  "field_ready r \<longleftrightarrow> (\<forall>j a. actor_of r j = Some a \<longrightarrow>
     in_field (c_position a) \<and> (c_character_id a = None \<longrightarrow> melee_armed a \<and> \<not> c_withdrawn a))"

lemma sat_step: "in_i32 x \<Longrightarrow> \<bar>d\<bar> \<le> 1 \<Longrightarrow> \<bar>x - i32_saturating_add x d\<bar> \<le> 1"
  by (auto simp: in_i32_def i32_saturating_add_def sat32_def)

lemma distance_ft_step: "\<bar>pos_x p - pos_x q\<bar> \<le> 1 \<Longrightarrow> \<bar>pos_y p - pos_y q\<bar> \<le> 1 \<Longrightarrow> distance_ft p q \<le> 5"
  by (auto simp: distance_ft_def chebyshev_def abs_diff_def i32_saturating_mul_def sat32_def min_def max_def)

lemma walkable_in_field: "valid_map m \<Longrightarrow> walkable m p \<Longrightarrow> in_field p"
  using inside_small [of m p] by (auto simp: walkable_def in_field_def in_i32_def)

lemma next_in_open_step:
  assumes "next_in_open r i p q = Some cell"
  shows "cell \<notin> occupied r i \<and> (\<exists>(x, y)\<in>set offsets.
     cell = at (i32_saturating_add (pos_x p) x) (i32_saturating_add (pos_y p) y))"
proof -
  note m = min_by_key_mem [OF assms [unfolded next_in_open_def]]
  from m have free: "\<not> (\<exists>other\<in>set (table_values (rs_combatants r)). c_id other \<noteq> i \<and> \<not> c_withdrawn other
                   \<and> c_current_hp other > 0 \<and> c_position other = cell)"
    and c: "cell \<in> (\<lambda>(x, y). at (i32_saturating_add (pos_x p) x) (i32_saturating_add (pos_y p) y)) ` set offsets"
    by simp_all
  from free have "cell \<notin> occupied r i" by (auto simp: occupied_def)
  with c show ?thesis by auto
qed

lemma next_step_free:
  assumes "next_step r i p q = Ok (Some cell)" "in_field p"
  shows "cell \<notin> occupied r i \<and> in_field cell \<and> (\<exists>cost. move_cost r i p cell = Ok cost \<and> cost \<le> 5)"
proof (cases "rs_map r")
  case (Some m)
  then have "next_on_map m (occupied r i) p q = Ok (Some cell)" using assms(1) by (simp add: next_step_def)
  note n = next_on_map_step [OF this]
  then have "find_path m p cell (occupied r i) = (Ok (Some [cell]) :: (validation_error, position list option) res)"
    using neighbors_ne by (intro find_path_neighbor) auto
  moreover have "in_field cell" using n neighbors_walkable walkable_in_field by blast
  ultimately show ?thesis using n Some by (simp add: move_cost_def i32_mul_def wrap32_id in_i32_def)
next
  case None
  with assms(1) have "next_in_open r i p q = Some cell" by (simp add: next_step_def)
  from next_in_open_step [OF this] obtain x y where xy: "(x, y) \<in> set offsets"
    "cell = at (i32_saturating_add (pos_x p) x) (i32_saturating_add (pos_y p) y)"
    and free: "cell \<notin> occupied r i" by blast
  have "distance_ft p cell \<le> 5"
    using xy assms(2) sat_step [of "pos_x p" x] sat_step [of "pos_y p" y]
    by (intro distance_ft_step) (auto simp: set_offsets in_field_def)
  moreover have "in_field cell" by (simp add: xy(2) in_field_def i32_saturating_add_def)
  ultimately show ?thesis using free None by (simp add: move_cost_def)
qed

lemma field_readyD:
  assumes "field_ready r" "actor_of r i = Some a"
  shows "in_field (c_position a)" "c_character_id a = None \<Longrightarrow> melee_armed a \<and> \<not> c_withdrawn a"
  using assms by (auto simp: field_ready_def)

lemma move_succeeds:
  assumes "require_current r i = Ok ()" "actor_of r i = Some a" "can_act a" "\<not> ab_movement_ft (c_budget a) < 5"
    "next_step r i (c_position a) q = Ok (Some cell)" "in_field (c_position a)"
  shows "\<exists>mv s. resolve_move i cell r = (Ok mv, s)"
  using next_step_free [OF assms(5,6)] assms(1-4)
  by (auto simp: resolve_move_def require_conscious_def consume_movement_ft_def reject_if_def Let_def)

lemma move_ready:
  assumes "resolve_move i cell r = (Ok mv, s)" "in_field cell" "field_ready r"
  shows "field_ready s"
  using assms by (auto elim!: resolve_move_Ok simp: field_ready_def melee_armed_def split: if_splits)

lemma move_actor:
  assumes "resolve_move i cell r = (Ok mv, s)" "actor_of r i = Some a" "can_act a"
  shows "\<exists>b. actor_of s i = Some b \<and> can_act b" "require_current s i = require_current r i"
    "actor_of s target = None \<longleftrightarrow> actor_of r target = None"
  using assms by (auto elim!: resolve_move_Ok simp: can_act_def has_condition_def require_current_def split: option.splits if_splits)

lemma next_step_total: "\<exists>x. next_step r i p q = Ok x"
proof -
  have "\<exists>vs. res_values (map (\<lambda>g. bind_res (find_path m p g occ) (\<lambda>route. Ok (g, route))) gs)
      = (Ok vs :: (validation_error, _) res)" for m occ and gs :: "position list"
  proof (induction gs)
    case (Cons g gs)
    obtain x where "(find_path m p g occ :: (validation_error, _) res) = Ok x" using find_path_total by blast
    with Cons show ?case by auto
  qed simp
  then show ?thesis unfolding next_step_def next_on_map_def Let_def
    by (auto split: option.splits) (metis bind_res_simps(1))
qed

lemma approach_succeeds:
  assumes "field_ready r" "require_current r i = Ok ()" "actor_of r i = Some a" "can_act a" "actor_of r target \<noteq> None"
  shows "\<exists>ev' s. approach i target ev r = (Ok ev', s) \<and> field_ready s \<and> require_current s i = Ok ()
     \<and> (\<exists>b. actor_of s i = Some b \<and> can_act b)"
  using assms
proof (induction "movement_left r i" arbitrary: r ev a rule: less_induct)
  case less
  obtain t where t: "actor_of r target = Some t" using less.prems(5) by blast
  show ?case
  proof (cases "distance_ft (c_position a) (c_position t) \<le> 5 \<and> clear_between r (c_position a) (c_position t)
          \<or> ab_movement_ft (c_budget a) < 5")
    case True
    with less.prems t show ?thesis by (subst approach.simps) auto
  next
    case False
    obtain x where x: "next_step r i (c_position a) (c_position t) = Ok x" using next_step_total by blast
    show ?thesis
    proof (cases x)
      case None
      with less.prems t x show ?thesis by (subst approach.simps) auto
    next
      case (Some cell)
      note f = field_readyD(1) [OF less.prems(1,3)]
      obtain mv s where mv: "resolve_move i cell r = (Ok mv, s)"
        using move_succeeds [OF less.prems(2-4) _ x [unfolded Some] f] False by blast
      have lt: "movement_left s i < movement_left r i"
        by (rule approach_decreases [OF less.prems(3) _ x [unfolded Some] mv]) (use False in blast)
      have "field_ready s" by (rule move_ready [OF mv _ less.prems(1)]) (use next_step_free [OF x [unfolded Some] f] in blast)
      moreover note move_actor [OF mv less.prems(3,4)]
      ultimately obtain ev' s' where "approach i target (append_events ev mv) s = (Ok ev', s')" "field_ready s'"
        "require_current s' i = Ok ()" "\<exists>b. actor_of s' i = Some b \<and> can_act b"
        using less.hyps [OF lt] less.prems(2,5) by metis
      moreover have "approach i target ev r = approach i target (append_events ev mv) s"
        using less.prems(3) t False x Some mv by (subst approach.simps) auto
      ultimately show ?thesis by simp
    qed
  qed
qed

lemma melee_armed_weapon:
  assumes "melee_armed a" "distance_ft (c_position a) (c_position v) \<le> 5"
  obtains lo p where "c_loadout a = Some lo" "weapon_choice_check a v None DefaultMode False = Ok (p, Melee)"
    "wp_weapon_id p = lo_default_weapon lo" "\<not> wp_ammunition p"
proof -
  from assms(1) obtain lo p where w: "c_loadout a = Some lo"
    "find (\<lambda>p. wp_weapon_id p = lo_default_weapon lo) (lo_attacks lo) = Some p"
    "lo_default_weapon lo \<noteq> ''unarmed'' \<longrightarrow> 0 < owned_count lo (lo_default_weapon lo)"
    "\<not> wp_ranged p" "\<not> wp_ammunition p" "5 \<le> wp_reach_ft p" "\<not> (lo_shield lo \<and> wp_two_handed p)"
    by (auto simp: melee_armed_def)
  moreover have "wp_weapon_id p = lo_default_weapon lo" using w(2) by (auto simp: find_Some_iff)
  moreover have "weapon_choice_check a v None DefaultMode False = Ok (p, Melee)"
    using w assms(2)
    by (auto simp: weapon_choice_check_def reject_if_def effective_mode_def is_ranged_mode_def mode_unavailable_def Let_def)
  ultimately show ?thesis using that by blast
qed

lemma attack_succeeds:
  assumes "sampler_ok rr" "require_current r i = Ok ()" "actor_of r i = Some a" "can_act a" "i \<noteq> target"
    "actor_of r target = Some v" "\<not> invalid_victim v" "ab_action (c_budget a)"
  shows "\<exists>ev s. resolve_attack rr i target m expr dt adv r = (Ok ev, s)"
proof -
  obtain e where e: "order_current (rs_order r) = Some e" "ie_id e = i"
    using assms(2) by (auto simp: require_current_Ok)
  let ?r = "set_budget i ((c_budget a)\<lparr>ab_action := False\<rparr>) r"
  have "resolve_attack rr i target m expr dt adv r = attack_phase2 rr i target m expr dt adv ?r"
    using assms e by (simp add: resolve_attack_def reject_if_def require_conscious_def spend_action_def)
  moreover obtain res s where run: "attack_phase2 rr i target m expr dt adv ?r = (res, s)" by fastforce
  moreover have "\<exists>ev. res = Ok ev"
    using assms by (rule_tac attack_phase2_spec [OF assms(1) _ _ _ run])
      (auto simp: valid_victim_strikeable)
  ultimately show ?thesis by auto
qed

lemma weapon_succeeds:
  assumes rr: "sampler_ok rr" and ok: "resolver_ok r" and f: "field_ready r"
    and cur: "require_current r i = Ok ()" and a: "actor_of r i = Some a" "can_act a" "c_character_id a = None"
      "ab_action (c_budget a)"
    and v: "actor_of r target = Some v" "standing_hero v"
    and near: "distance_ft (c_position a) (c_position v) \<le> 5" "clear_between r (c_position a) (c_position v)"
  shows "\<exists>ev s. resolve_weapon_attack rr i target None DefaultMode False r = (Ok ev, s) \<and> field_ready s"
proof -
  have ne: "i \<noteq> target" using a(1,3) v by (auto simp: standing_hero_def)
  have valid: "\<not> invalid_victim v" using v(2) by (auto simp: invalid_victim_def standing_hero_def)
  have target: "weapon_target_check r i target = Ok (a, v)"
    using a v ne near cur valid by (simp add: weapon_target_check_Ok)
  have "melee_armed a" using field_readyD(2) [OF f a(1,3)] by blast
  then obtain lo p where w: "c_loadout a = Some lo" "weapon_choice_check a v None DefaultMode False = Ok (p, Melee)"
    "wp_weapon_id p = lo_default_weapon lo" "\<not> wp_ammunition p"
    using near(1) by (rule melee_armed_weapon)
  let ?m = "weapon_modifier r i a v p (is_ranged_mode Melee)"
  obtain ev t where att: "resolve_attack rr i target (wp_attack_bonus p) (wp_damage p) (wp_damage_type p) ?m r = (Ok ev, t)"
    using attack_succeeds [OF rr cur a(1,2) ne v(1) valid a(4)] by blast
  note eff = resolve_attack_cases(3) [OF rr ok att refl]
  have at: "actor_of t i = Some (a\<lparr>c_budget := (c_budget a)\<lparr>ab_action := False\<rparr>\<rparr>)"
    by (rule attack_effect_attacker [OF eff a(1)])
  let ?s = "upd_actor i (\<lambda>x. x\<lparr>c_loadout := Some (spend_weapon p Melee lo)\<rparr>) t"
  have "resolve_weapon_attack rr i target None DefaultMode False r = (Ok ev, ?s)"
    by (simp add: resolve_weapon_attack_def target w(1,2) att at)
  moreover have "field_ready ?s"
    unfolding field_ready_def
  proof (intro allI impI)
    fix j b assume b: "actor_of ?s j = Some b"
    have gear: "\<exists>c. actor_of r j = Some c \<and> c_position b = c_position c \<and> c_character_id b = c_character_id c
        \<and> c_withdrawn b = c_withdrawn c \<and> (melee_armed c \<longrightarrow> melee_armed b)"
    proof (cases "j = i")
      case True
      have same: "spend_weapon p Melee lo = lo" using w(3,4) by (simp add: spend_weapon_def)
      show ?thesis using b at a(1) True w(1) by (auto simp: same melee_armed_def)
    next
      case ji: False
      show ?thesis
      proof (cases "j = target")
        case True
        with b ji eff show ?thesis
          by (auto simp: attack_effect_def melee_armed_def evolves_fields)
      next
        case False
        with b ji eff show ?thesis by (auto simp: attack_effect_def)
      qed
    qed
    then show "in_field (c_position b) \<and> (c_character_id b = None \<longrightarrow> melee_armed b \<and> \<not> c_withdrawn b)"
      using f unfolding field_ready_def by metis
  qed
  ultimately show ?thesis by blast
qed

text \<open>Starting turns moves nobody and takes nothing from anybody's pack.\<close>

definition same_gear :: "'g resolver \<Rightarrow> 'g resolver \<Rightarrow> bool" where
  "same_gear r s \<longleftrightarrow> (\<forall>j b. actor_of s j = Some b \<longrightarrow> (\<exists>a. actor_of r j = Some a
     \<and> c_position b = c_position a \<and> c_loadout b = c_loadout a \<and> c_character_id b = c_character_id a
     \<and> c_withdrawn b = c_withdrawn a))"

interpretation gear: evolution same_gear
  by unfold_locales (auto simp: same_gear_def, metis)

lemma same_gear_ready: "same_gear r s \<Longrightarrow> field_ready r \<Longrightarrow> field_ready s"
  unfolding same_gear_def field_ready_def melee_armed_def by metis

lemma death_save_gear:
  "c_position (fst (snd (resolve_death_save rr c g))) = c_position c"
  "c_loadout (fst (snd (resolve_death_save rr c g))) = c_loadout c"
  "c_character_id (fst (snd (resolve_death_save rr c g))) = c_character_id c"
  "c_withdrawn (fst (snd (resolve_death_save rr c g))) = c_withdrawn c"
  by (simp_all add: resolve_death_save_def apply_healing_def remove_condition_def Let_def split: prod.splits)

lemma same_gear_upd:
  "(\<And>a. actor_of r i = Some a \<Longrightarrow> c_position (f a) = c_position a \<and> c_loadout (f a) = c_loadout a
      \<and> c_character_id (f a) = c_character_id a \<and> c_withdrawn (f a) = c_withdrawn a) \<Longrightarrow> same_gear r (upd_actor i f r)"
  by (auto simp: same_gear_def)

lemma turn_death_save_gear:
  assumes "turn_death_save rr i a ev r = (ev1, a1, r1)" "actor_of r i = Some a"
  shows "same_gear r r1"
proof (cases "c_character_id a = None")
  case True
  with assms show ?thesis by (simp add: turn_death_save_def gear.refl)
next
  case False
  obtain d c g where s: "resolve_death_save rr a (rs_rng r) = (d, c, g)" by (metis prod_cases3)
  have "r1 = upd_actor i (\<lambda>_. c) (r\<lparr>rs_rng := g\<rparr>)" using assms(1) False s by (auto simp: turn_death_save_def)
  then show ?thesis using assms(2) death_save_gear [of rr a "rs_rng r"] s by (auto simp: same_gear_def)
qed

lemma begin_turn_gear:
  "begin_turn_loop rr n ev r = (res, s) \<Longrightarrow> same_gear r s"
proof (induction n arbitrary: ev r)
  case (Suc n)
  have adv: "same_gear t (advance_turn t)" for t :: "'a resolver" by (simp add: same_gear_def)
  show ?case
  proof (cases "boundary_reached r \<or> order_current (rs_order r) = None
      \<or> actor_of r (ie_id (the (order_current (rs_order r)))) = None")
    case True
    then have "s = r" using Suc.prems
      by (cases "order_current (rs_order r)"; cases "boundary_reached r") auto
    then show ?thesis by (simp add: gear.refl)
  next
    case False
    then obtain e a where e: "order_current (rs_order r) = Some e" "actor_of r (ie_id e) = Some a" by auto
    obtain ev1 a1 t where td: "turn_death_save rr (ie_id e) a ev r = (ev1, a1, t)" by (metis prod_cases3)
    have t: "same_gear r t" by (rule turn_death_save_gear [OF td e(2)])
    show ?thesis
    proof (cases "c_withdrawn a")
      case True
      with Suc.prems False e have "begin_turn_loop rr n ev (advance_turn r) = (res, s)" by simp
      from gear.trans [OF adv Suc.IH [OF this]] show ?thesis .
    next
      case present: False
      show ?thesis
      proof (cases "c_current_hp a1 > 0 \<and> \<not> c_is_dead a1")
        case True
        with Suc.prems False e present td have
          "s = upd_actor (ie_id e) (\<lambda>x. x\<lparr>c_budget := refresh_for_new_turn (c_budget x) (c_speed_ft x)\<rparr>) t" by simp
        with gear.trans [OF t same_gear_upd] show ?thesis by simp
      next
        case down: False
        with Suc.prems False e present td have "begin_turn_loop rr n ev1 (advance_turn t) = (res, s)" by auto
        from gear.trans [OF gear.trans [OF t adv] Suc.IH [OF this]] show ?thesis .
      qed
    qed
  qed
qed (simp add: gear.refl)

lemma end_turn_succeeds:
  assumes "resolver_ok r" "require_current r i = Ok ()" "field_ready r"
  shows "\<exists>ev s. resolve_end_turn rr i r = (Ok ev, s) \<and> field_ready s"
proof -
  obtain res s where run: "begin_current_turn rr (advance_turn r) = (res, s)" by fastforce
  have "\<exists>ev. res = Ok ev" using begin_current_turn_cases(1) [OF advance_ok [OF assms(1)] run] .
  moreover have "same_gear (advance_turn r) s"
    by (rule begin_turn_gear [OF run [unfolded begin_current_turn_def]])
  moreover have "field_ready (advance_turn r)" using assms(3) by (simp add: field_ready_def)
  ultimately show ?thesis using assms(2) run same_gear_ready by (auto simp: resolve_end_turn_def)
qed

lemma require_current_evolves:
  assumes "resolver_evolves r s" "rs_order s = rs_order r" "require_current r i = Ok ()"
  shows "require_current s i = Ok ()"
  using assms evolved_actor_back [OF assms(1)] evolves_fields(8) by (fastforce simp: require_current_Ok)

lemma npc_turn_succeeds:
  assumes rr: "sampler_ok rr" and ok: "resolver_ok r" and f: "field_ready r"
    and e: "order_current (rs_order r) = Some e" "actor_of r (ie_id e) = Some a" "c_character_id a = None"
  shows "\<exists>ev s. resolve rr (NpcTurn (ie_id e)) r = (Ok ev, s) \<and> field_ready s"
proof -
  let ?i = "ie_id e"
  note arms = field_readyD(2) [OF f e(2,3)]
  have cur: "require_current r ?i = Ok ()" using e arms by (simp add: require_current_Ok)
  have lo: "c_loadout a \<noteq> None" using arms by (auto simp: melee_armed_def)
  have ne: "\<not> order_is_empty (rs_order r)" using e(1) by (auto simp: order_current_def order_is_empty_def split: if_splits)
  let ?pick = "if c_current_hp a > 0 \<and> \<not> c_is_dead a \<and> \<not> has_condition a Unconscious
              then npc_target r (c_position a) else None"
  let ?fight = "\<lambda>target. and_then (approach ?i target no_events r) (\<lambda>ev r1.
            try_state (unwrap (actor_of r1 ?i)) r1 (\<lambda>a1.
            try_state (unwrap (actor_of r1 target)) r1 (\<lambda>t1.
            if distance_ft (c_position a1) (c_position t1) \<le> 5 \<and> ab_action (c_budget a1)
               \<and> clear_between r1 (c_position a1) (c_position t1)
            then and_then (resolve_weapon_attack rr ?i target None DefaultMode False r1)
                   (\<lambda>hit r2. (Ok (append_events ev hit), r2))
            else (Ok ev, r1))))"
  have first: "\<exists>ev t. (case ?pick of None \<Rightarrow> (Ok no_events, r) | Some target \<Rightarrow> ?fight target) = (Ok ev, t)
      \<and> resolver_ok t \<and> field_ready t \<and> require_current t ?i = Ok ()"
  proof (cases ?pick)
    case None
    with ok f cur show ?thesis by simp
  next
    case (Some target)
    then have act: "can_act a" and target: "npc_target r (c_position a) = Some target"
      using arms by (auto simp: can_act_def split: if_splits)
    obtain v0 where v0: "actor_of r target = Some v0" "standing_hero v0" using npc_target_present [OF ok target] by blast
    obtain ev r1 a1 where app: "approach ?i target no_events r = (Ok ev, r1)" "field_ready r1"
      "require_current r1 ?i = Ok ()" "actor_of r1 ?i = Some a1" "can_act a1"
      using approach_succeeds [OF f cur e(2) act] v0(1) by blast
    have e1: "resolver_evolves r r1"
      using approach_safe [OF ok, of ?i target no_events] app(1) e(2) v0(1) by (simp add: safe_def)
    have ok1: "resolver_ok r1" by (rule resolver_evolves_ok [OF e1 ok])
    have npc: "c_character_id a1 = None" using evolved_actor [OF e1 e(2)] app(4) e(3) evolves_fields(2) by fastforce
    obtain v where v: "actor_of r1 target = Some v" "standing_hero v"
      using approach_keeps [OF app(1)] v0 by (metis standing_at_def)
    show ?thesis
    proof (cases "distance_ft (c_position a1) (c_position v) \<le> 5 \<and> ab_action (c_budget a1)
               \<and> clear_between r1 (c_position a1) (c_position v)")
      case True
      then obtain hit r2 where hit: "resolve_weapon_attack rr ?i target None DefaultMode False r1 = (Ok hit, r2)" "field_ready r2"
        using weapon_succeeds [OF rr ok1 app(2-5) npc _ v] by blast
      note e2 = resolve_weapon_attack_cases(4) [OF rr ok1 hit(1)]
      have "rs_order r2 = rs_order r1"
        using weapon_unrisen [OF hit(1) rr ok1 _ app(4) npc] v by (auto simp: standing_at_def unrisen_def)
      with require_current_evolves [OF e2 _ app(3)] have "require_current r2 ?i = Ok ()" by simp
      with True hit app(1,4) v(1) resolver_evolves_ok [OF e2 ok1] show ?thesis unfolding Some by simp
    next
      case False
      have "?fight target = (Ok ev, r1)"
        unfolding app(1) and_then_simps app(4) v(1) unwrap_simps try_state_simps using False by (simp only: if_False)
      with ok1 app(2,3) show ?thesis unfolding Some by simp
    qed
  qed
  then obtain ev t where t: "(case ?pick of None \<Rightarrow> (Ok no_events, r) | Some target \<Rightarrow> ?fight target) = (Ok ev, t)"
    "resolver_ok t" "field_ready t" "require_current t ?i = Ok ()" by blast
  obtain fin s where fin: "resolve_end_turn rr ?i t = (Ok fin, s)" "field_ready s"
    using end_turn_succeeds [OF t(2,4,3)] by blast
  have "resolve_npc_turn rr ?i r = (Ok (append_events ev fin), s)"
    unfolding resolve_npc_turn_def cur try_state_simps e(2) ok_or_simps
    using lo e(3) by (simp add: reject_if_def t(1) fin(1))
  with ne fin(2) show ?thesis by (simp add: resolve.simps)
qed

section \<open>The loop\<close>

definition stop_reached :: "u32 option \<Rightarrow> 'g resolver \<Rightarrow> bool" where
  "stop_reached stop r \<longleftrightarrow> (case stop of None \<Rightarrow> False | Some limit \<Rightarrow> io_round (rs_order r) \<ge> limit)"

definition handed_back :: "u32 option \<Rightarrow> 'g resolver \<Rightarrow> bool" where
  "handed_back stop r \<longleftrightarrow>
     stop_reached stop r \<or> \<not> any_actor standing_hero r \<or> \<not> any_actor standing_enemy r \<or> hero_up r"

lemma any_actor_iff: "resolver_ok r \<Longrightarrow> any_actor p r \<longleftrightarrow> (\<exists>j a. actor_of r j = Some a \<and> p a)"
  unfolding any_actor_def list_ex_iff using actors_in_roster by blast

lemma boundary_handed_back:
  "resolver_ok r \<Longrightarrow> rs_stop_round r = stop \<Longrightarrow> boundary_reached r \<Longrightarrow> handed_back stop r"
  by (auto simp: boundary_reached_def handed_back_def stop_reached_def any_actor_def list_ex_iff)

text \<open>Everybody has a place in the order.\<close>

definition all_ranked :: "'g resolver \<Rightarrow> bool" where
  "all_ranked r \<longleftrightarrow> set (map fst (rs_combatants r)) \<subseteq> set (map ie_id (io_entries (rs_order r)))"

lemma all_ranked_evolves: "resolver_evolves r s \<Longrightarrow> all_ranked r \<Longrightarrow> all_ranked s"
  by (simp add: all_ranked_def resolver_evolves_def pointwise_def)

lemma passed_everybody:
  assumes "passed r s m" "order_len (rs_order r) \<le> m" "resolver_ok r" "resolver_ok s" "all_ranked s"
  shows "\<not> any_actor standing_hero s"
proof
  assume "any_actor standing_hero s"
  then obtain j a where a: "actor_of s j = Some a" "standing_hero a" using any_actor_iff [OF assms(4)] by blast
  then have "j \<in> set (map fst (rs_combatants s))"
    using table_get_None [of "rs_combatants s" j] by (auto simp: actor_of_def)
  with assms(1,5) have "j \<in> set (map ie_id (io_entries (rs_order r)))" by (auto simp: all_ranked_def passed_def)
  from passed_all [OF assms(1,2) resolver_okD(4) [OF assms(3)] this] a show False by (auto simp: standing_at_def)
qed

text \<open>The head of the loop after \<open>k\<close> automatic turns, counted from the resolver \<open>r0\<close>.\<close>

lemma settle_loop_ends:
  assumes rr: "sampler_ok rr" and ok0: "resolver_ok r0" and ranked: "all_ranked r0" and stop: "rs_stop_round r0 = stop"
    and "resolver_evolves r0 r" "n + k = order_len (rs_order r0) + 1" "k \<le> order_len (rs_order r0)"
    and "handed_back stop r \<or> (\<exists>m\<ge>k. passed r0 r m)"
    and "settle_loop rr stop n evs r = (res, s)"
  shows "res \<noteq> Panic \<and> res \<noteq> Err ''combat_npc_cycle_invalid'' \<and> resolver_evolves r0 s
     \<and> (\<forall>evs'. res = Ok evs' \<longrightarrow> handed_back stop s)
     \<and> (field_ready r \<longrightarrow> (\<exists>evs'. res = Ok evs') \<and> field_ready s)"
  using assms(5-)
proof (induction n arbitrary: k evs r)
  case (Suc n)
  note evo = Suc.prems(1)
  have ok: "resolver_ok r" by (rule resolver_evolves_ok [OF evo ok0])
  obtain e a where e: "order_current (rs_order r) = Some e" "actor_of r (ie_id e) = Some a"
    using current_actor [OF ok] .
  show ?case
  proof (cases "handed_back stop r")
    case True
    then have "res = Ok evs \<and> s = r"
      using Suc.prems(5) e by (auto simp: handed_back_def stop_reached_def hero_up_def split: option.splits if_splits)
    with True evo show ?thesis by simp
  next
    case False
    then obtain m where m: "k \<le> m" "passed r0 r m" using Suc.prems(4) by blast
    have "m < order_len (rs_order r0)"
      using passed_everybody [OF m(2) _ ok0 ok all_ranked_evolves [OF evo ranked]] False
      by (force simp: handed_back_def)
    with m(1) have k: "Suc k \<le> order_len (rs_order r0)" by simp
    have npc: "c_character_id a = None" using False e by (auto simp: handed_back_def hero_up_def)
    have run: "and_then (err_as ''combat_npc_action_rejected'' (resolve rr (NpcTurn (ie_id e)) r)) (\<lambda>ev s.
          settle_loop rr stop n (evs @ [ev]) s) = (res, s)"
      using Suc.prems(5) False e npc by (auto simp: handed_back_def stop_reached_def split: option.splits)
    obtain p t where turn: "resolve rr (NpcTurn (ie_id e)) r = (p, t)" by fastforce
    have safe: "p \<noteq> Panic" "resolver_evolves r t"
      using resolve_safe [OF rr ok, of "NpcTurn (ie_id e)"] turn by (simp_all add: safe_def)
    have armed: "(\<exists>ev. p = Ok ev) \<and> field_ready t" if "field_ready r"
      using npc_turn_succeeds [OF rr ok that e npc] turn by auto
    show ?thesis
    proof (cases p)
      case (Ok ev)
      have evo': "resolver_evolves r0 t" by (rule engine.trans [OF evo safe(2)])
      have okt: "resolver_ok t" by (rule resolver_evolves_ok [OF evo' ok0])
      have stop': "rs_stop_round t = stop" using evo' stop by (simp add: resolver_evolves_def)
      from npc_turn_pass [OF turn [unfolded Ok] rr ok e npc]
      have "handed_back stop t \<or> (\<exists>m\<ge>Suc k. passed r0 t m)"
      proof (elim disjE exE conjE)
        fix m' assume "1 \<le> m'" "passed r t m'"
        with passed_trans [OF m(2)] m(1) have "Suc k \<le> m + m'" "passed r0 t (m + m')" by auto
        then show ?thesis by blast
      qed (use boundary_handed_back [OF okt stop'] in \<open>auto simp: handed_back_def\<close>)
      moreover have "settle_loop rr stop n (evs @ [ev]) t = (res, s)" using run turn Ok by simp
      ultimately show ?thesis using Suc.IH [OF evo' _ k] Suc.prems(2) armed by simp
    qed (use run turn safe evo armed in \<open>auto intro: engine.trans\<close>)
  qed
qed simp

lemma settle_loop_errors:
  "settle_loop rr stop n evs r = (Err e, s) \<Longrightarrow> e = ''combat_npc_cycle_invalid'' \<or> e = ''combat_npc_action_rejected''"
proof (induction n arbitrary: evs r)
  case (Suc n)
  then show ?case
    by (auto simp: try_state_def and_then_def err_as_def split: if_splits res.splits prod.splits option.splits)
qed simp

end
