(* ===== verification/Authored_Combat.thy ===== *)
theory Authored_Combat
  imports Encounter
begin

text \<open>
  The authored defense of the archive (\<^verbatim>\<open>crates/app-application/src/combat/authored.rs\<close>): its two
  water echoes, the outcome of the fight, what it leaves of a defeated hero, and the way out. The ids
  of the echoes, drawn by \<open>Uuid::new_v4\<close>, are arguments.
\<close>

definition echo_pulse :: weapon_attack_profile where
  "echo_pulse = \<lparr>wp_weapon_id = ''echo-pulse'', wp_attack_bonus = 3,
     wp_damage = \<lparr>de_count = 1, de_die = D4, de_modifier = 1\<rparr>, wp_damage_type = Bludgeoning,
     wp_reach_ft = 5, wp_normal_range_ft = 5, wp_long_range_ft = 5, wp_ranged = False, wp_thrown = False,
     wp_ammunition = False, wp_two_handed = False, wp_versatile_damage = None, wp_heavy_disadvantage = False\<rparr>"

definition water_echo :: "combatant_id \<Rightarrow> nat \<Rightarrow> position \<Rightarrow> combatant" where
  "water_echo i index pos =
     (new_combatant i (''Water echo '' @ show_nat (index + 1)) 6 6 11)\<lparr>
        c_display_name_key := Some (''authored.water_echo_'' @ show_nat (index + 1)),
        c_position := pos,
        c_speed_ft := 15,
        c_budget := fresh_budget 15,
        c_loadout := Some \<lparr>lo_default_weapon = ''echo-pulse'', lo_attacks = [echo_pulse],
           lo_quantities = [(''echo-pulse'', 1)], lo_arrows = 0, lo_shield = False\<rparr>\<rparr>"

definition bell_defense :: "combatant_id \<Rightarrow> combatant_id \<Rightarrow> uuid \<Rightarrow> combat_projection" where
  "bell_defense first second encounter_id =
     (let actors = [water_echo first 0 (at 9 1), water_echo second 1 (at 9 5)]
      in \<lparr>cj_appearances = foldl (\<lambda>t a. table_put (c_id a) WaterEcho t) [] actors,
          cj_authored = Some \<lparr>ae_map_skin_asset_id = Some ''map.bell_archive.v2'', ae_kind = BellArchiveDefense,
             ae_map = bell_archive_map, ae_outcome = None\<rparr>,
          cj_adventure = None,
          cj_campaign_scope = None,
          cj_schema_version = combat_projection_version,
          cj_encounter_id = encounter_id,
          cj_revision = 0,
          cj_snapshot = \<lparr>sn_active = True, sn_round = 1, sn_current_combatant = None,
             sn_initiative = map (\<lambda>a. \<lparr>ie_id = c_id a, ie_roll = 0, ie_dex_tiebreak = 0\<rparr>) actors,
             sn_combatants = actors\<rparr>,
          cj_events = []\<rparr>)"

definition defense_result :: "combat_projection \<Rightarrow> bool \<Rightarrow> defense_outcome option" where
  "defense_result p retreat =
     (let cs = sn_combatants (cj_snapshot p);
          living = list_ex standing_hero cs;
          enemies = list_ex standing_enemy cs
      in if \<not> living then Some Defeated
         else if retreat then Some Retreated
         else if \<not> enemies \<or> sn_round (cj_snapshot p) \<ge> 4 then Some Held
         else if \<not> sn_active (cj_snapshot p) then Some Retreated
         else None)"

definition finalize_defense :: "combat_projection \<Rightarrow> bool \<Rightarrow> defense_outcome option \<times> combat_projection" where
  "finalize_defense p retreat =
     (case cj_authored p of
        None \<Rightarrow> (None, p)
      | Some authored \<Rightarrow>
          (case ae_outcome authored of
             Some outcome \<Rightarrow> (Some outcome, p)
           | None \<Rightarrow>
               (case defense_result p retreat of
                  None \<Rightarrow> (None, p)
                | Some outcome \<Rightarrow>
                    (Some outcome,
                     (on_snapshot (\<lambda>sn. sn\<lparr>sn_active := False, sn_current_combatant := None\<rparr>) p)
                       \<lparr>cj_authored := Some (authored\<lparr>ae_outcome := Some outcome\<rparr>)\<rparr>))))"

definition present_hero :: "combatant \<Rightarrow> bool" where
  "present_hero a \<longleftrightarrow> c_character_id a \<noteq> None \<and> \<not> c_withdrawn a"

definition downed_hero :: "combatant \<Rightarrow> bool" where
  "downed_hero a \<longleftrightarrow> present_hero a \<and> c_current_hp a = 0 \<and> \<not> c_is_dead a"

definition recover_defeated_hero :: "combat_projection \<Rightarrow> (string, unit) res \<times> combat_projection" where
  "recover_defeated_hero p =
     (let cs = sn_combatants (cj_snapshot p);
          healed = map (\<lambda>a. if downed_hero a then apply_healing a 1 else a) cs;
          logged = map (\<lambda>a. no_events\<lparr>ev_healing := [\<lparr>ha_target = c_id a, ha_amount = 1,
                     ha_new_hp = c_current_hp (apply_healing a 1)\<rparr>]\<rparr>) (filter downed_hero cs)
      in if \<not> list_ex present_hero cs then (Err ''authored_hero_missing'', p)
         else (Ok (), (on_snapshot (\<lambda>sn. sn\<lparr>sn_combatants := healed\<rparr>) p)\<lparr>cj_events := cj_events p @ logged\<rparr>))"

definition prepare_end :: "combat_projection \<Rightarrow> (string, unit) res \<times> combat_projection" where
  "prepare_end p =
     (case cj_authored p of
        None \<Rightarrow> (Ok (), p)
      | Some authored \<Rightarrow>
          let cs = sn_combatants (cj_snapshot p) in
          if ae_outcome authored \<noteq> None \<or> sn_round (cj_snapshot p) \<ge> 4
             \<or> \<not> list_ex standing_enemy cs \<or> \<not> list_ex standing_hero cs then (Ok (), p)
          else
            try_state (ok_or (sn_current_combatant (cj_snapshot p)) ''authored_exit_required'') p (\<lambda>current.
            try_state (ok_or (find (\<lambda>a. c_id a = current) cs) ''authored_exit_required'') p (\<lambda>a.
            try_state (reject_if (c_character_id a = None \<or> c_position a \<notin> set (bm_exits (ae_map authored))
                 \<or> \<not> ab_action (c_budget a)) ''authored_exit_required'') p (\<lambda>_.
            let (paid, b) = consume_action (c_budget a) Action;
                q = on_snapshot (\<lambda>sn. sn\<lparr>sn_combatants :=
                      modify_first (\<lambda>x. c_id x = current) (\<lambda>x. x\<lparr>c_budget := b\<rparr>) cs\<rparr>) p
            in try_state (map_err (\<lambda>_. ''authored_exit_required'') paid) q (\<lambda>_. (Ok (), q))))))"

end
