(* ===== verification/Combat_Service.thy ===== *)
theory Combat_Service
  imports Authored_Combat
begin

text \<open>
  The combat use cases (\<^verbatim>\<open>crates/app-application/src/combat/commands.rs\<close> and \<^verbatim>\<open>resolve.rs\<close>): a player's
  command becomes an action of the engine, the monsters answer, and the result is committed under a
  revision and a request id. The repository is an argument of \<open>execute_combat\<close>: one function per method
  of \<open>CombatRepository\<close> over a state of its own. So are the random generator (its sampler \<open>rr\<close> and its
  seeding \<open>sf\<close>) and the JSON encoding of a request.
\<close>

section \<open>Commands\<close>

datatype combat_action_command =
    CmdRetreat combatant_id
  | CmdSpell combatant_id string "combatant_id list" u8
  | CmdWeaponAttack combatant_id combatant_id "string option" weapon_mode bool
  | CmdAttack combatant_id combatant_id i32 dice_expr damage_type
  | CmdCast combatant_id
  | CmdMove combatant_id position
  | CmdEndTurn combatant_id

record resolve_combat_command =
  rc_request_id :: string
  rc_encounter_id :: uuid
  rc_expected_revision :: u64
  rc_rng_seed :: u64
  rc_action :: combat_action_command

fun engine_action :: "combat_action_command \<Rightarrow> combat_action" where
  "engine_action (CmdRetreat i) = Retreat i"
| "engine_action (CmdSpell i spell_id targets slot_level) = Spell i spell_id targets slot_level"
| "engine_action (CmdWeaponAttack i target weapon_id mode two_handed) = WeaponAttack i target weapon_id mode two_handed"
| "engine_action (CmdAttack i target m expr dt) = Attack i target m expr dt"
| "engine_action (CmdCast i) = Cast i"
| "engine_action (CmdMove i dest) = Move i dest"
| "engine_action (CmdEndTurn i) = EndTurn i"

fun is_retreat :: "combat_action_command \<Rightarrow> bool" where
  "is_retreat (CmdRetreat _) = True"
| "is_retreat _ = False"

datatype resolve_combat_error =
    EncounterNotFound | InvalidState | RequestMismatch | StaleRevision u64 u64
  | Rejected validation_error | Persistence

section \<open>One command\<close>

definition encounter_stop :: "combat_projection \<Rightarrow> u32 option" where
  "encounter_stop p = map_option (\<lambda>_. 4) (cj_authored p)"

text \<open>The engine of a stored projection.\<close>

definition open_engine ::
  "(u64 \<Rightarrow> 'g) \<Rightarrow> combat_projection \<Rightarrow> u64 \<Rightarrow> (resolve_combat_error, 'g resolver) res" where
  "open_engine sf p seed =
     bind_res (ok_or (resolver_state (cj_snapshot p)) InvalidState) (\<lambda>(combatants, ord).
     let r = new_resolver combatants ord (from_seed sf seed) in
     bind_res (case cj_authored p of
                 None \<Rightarrow> Ok r
               | Some authored \<Rightarrow>
                   let (res, r1) = set_map r (ae_map authored)
                   in bind_res (map_err (\<lambda>_. InvalidState) res) (\<lambda>_. Ok r1)) (\<lambda>r1.
     Ok (set_turn_boundary r1 (encounter_stop p) (cj_authored p \<noteq> None))))"

text \<open>What is stored of the engine after a command.\<close>

definition close_engine ::
  "combat_projection \<Rightarrow> 'g resolver \<Rightarrow> result_events list \<Rightarrow> bool \<Rightarrow> (resolve_combat_error, combat_projection) res" where
  "close_engine p r evs retreat =
     bind_res (replace_resolved_state p (rs_combatants r) (rs_order r) no_events) (\<lambda>q.
     Ok (snd (finalize_defense (finish_if_resolved (q\<lparr>cj_events := evs\<rparr>)) retreat)))"

definition prepare_action ::
  "'g sampler \<Rightarrow> (u64 \<Rightarrow> 'g) \<Rightarrow> combat_projection \<Rightarrow> combat_action_command \<Rightarrow> u64 \<Rightarrow>
   (resolve_combat_error, combat_projection) res" where
  "prepare_action rr sf p command seed =
     bind_res (reject_if (\<not> sn_active (cj_snapshot p)) InvalidState) (\<lambda>_.
     bind_res (open_engine sf p seed) (\<lambda>r.
     let (first, r1) = resolve rr (engine_action command) r in
     bind_res (map_err Rejected first) (\<lambda>ev.
     let (settled, r2) = settle_npcs_until rr (encounter_stop p) [ev] r1 in
     bind_res (map_err (\<lambda>_. InvalidState) settled) (\<lambda>evs.
     close_engine p r2 evs (is_retreat command)))))"

section \<open>Participants come and go\<close>

text \<open>The free cell a returning hero is moved to: on the map, and in the open.\<close>

definition free_cell_on_map :: "battle_map \<Rightarrow> position set \<Rightarrow> position \<Rightarrow> position option" where
  "free_cell_on_map m taken origin =
     min_by_key (\<lambda>p. (distance_ft origin p, pos_x p, pos_y p))
       (filter (\<lambda>p. p \<notin> set (bm_blocked m) \<and> p \<notin> taken)
         (concat (map (\<lambda>x. map (\<lambda>y. at (int x) (int y)) [0..<bm_height m]) [0..<bm_width m])))"

definition free_cell_in_open :: "position set \<Rightarrow> position \<Rightarrow> position option" where
  "free_cell_in_open taken origin =
     find (\<lambda>p. p \<notin> taken)
       (map (\<lambda>(x, y). at (i32_saturating_add (pos_x origin) x) (i32_saturating_add (pos_y origin) y))
         (concat (map (\<lambda>n. let r = (if int n \<le> i32_max then int n else i32_max)
                           in [(r, 0), (i32_neg r, 0), (0, r), (0, i32_neg r)])
            [1..<Suc (card taken + 1)])))"

definition free_cell :: "authored_encounter option \<Rightarrow> position set \<Rightarrow> position \<Rightarrow> position option" where
  "free_cell authored taken origin =
     (case authored of
        Some a \<Rightarrow> free_cell_on_map (ae_map a) taken origin
      | None \<Rightarrow> free_cell_in_open taken origin)"

text \<open>The loop over the combatants; it returns them, and whether any changed.\<close>

fun reconcile_loop ::
  "authored_encounter option \<Rightarrow> uuid set \<Rightarrow> combatant list \<Rightarrow> position set \<Rightarrow>
   (resolve_combat_error, combatant list \<times> bool) res" where
  "reconcile_loop authored present [] taken = Ok ([], False)"
| "reconcile_loop authored present (a # rest) taken =
     (case c_character_id a of
        None \<Rightarrow> bind_res (reconcile_loop authored present rest taken) (\<lambda>(as, ch). Ok (a # as, ch))
      | Some owner \<Rightarrow>
          let withdrawn = (owner \<notin> present) in
          if c_withdrawn a = withdrawn
          then bind_res (reconcile_loop authored present rest taken) (\<lambda>(as, ch). Ok (a # as, ch))
          else if \<not> withdrawn \<and> c_current_hp a > 0 \<and> \<not> c_is_dead a
          then
            bind_res (if c_position a \<in> taken then ok_or (free_cell authored taken (c_position a)) InvalidState
                      else Ok (c_position a)) (\<lambda>cell.
            bind_res (reconcile_loop authored present rest (insert cell taken)) (\<lambda>(as, ch).
            Ok (a\<lparr>c_position := cell, c_withdrawn := withdrawn\<rparr> # as, True)))
          else bind_res (reconcile_loop authored present rest taken) (\<lambda>(as, ch).
            Ok (a\<lparr>c_withdrawn := withdrawn\<rparr> # as, True)))"

text \<open>The part after the loop: if the turn was that of someone who left, the next participant starts.\<close>

definition resume_encounter ::
  "'g sampler \<Rightarrow> (u64 \<Rightarrow> 'g) \<Rightarrow> combat_projection \<Rightarrow> u64 \<Rightarrow> (resolve_combat_error, combat_projection) res" where
  "resume_encounter rr sf p seed =
     bind_res (open_engine sf p seed) (\<lambda>r.
     bind_res (unwrap (order_current (rs_order r))) (\<lambda>e.
     bind_res (unwrap (actor_of r (ie_id e))) (\<lambda>a.
     if \<not> c_withdrawn a then close_engine p r [] False
     else
       let (begun, r1) = begin_current_turn rr r in
       bind_res (map_err (\<lambda>_. InvalidState) begun) (\<lambda>ev.
       let (settled, r2) = settle_npcs_until rr (encounter_stop p) [ev] r1 in
       bind_res (map_err (\<lambda>_. InvalidState) settled) (\<lambda>evs.
       close_engine p r2 evs False)))))"

definition taken_cells :: "combat_projection \<Rightarrow> uuid set \<Rightarrow> position set" where
  "taken_cells p present =
     set (map c_position (filter (\<lambda>a. \<not> c_withdrawn a \<and> c_current_hp a > 0 \<and> \<not> c_is_dead a
           \<and> (case c_character_id a of None \<Rightarrow> True | Some i \<Rightarrow> i \<in> present)) (sn_combatants (cj_snapshot p))))"

definition reconcile_participants ::
  "'g sampler \<Rightarrow> (u64 \<Rightarrow> 'g) \<Rightarrow> combat_projection \<Rightarrow> uuid set \<Rightarrow> u64 \<Rightarrow>
   (resolve_combat_error, combat_projection) res" where
  "reconcile_participants rr sf p present seed =
     bind_res (reject_if (case cj_campaign_scope p of None \<Rightarrow> False | Some sc \<Rightarrow> cs_character_id sc \<notin> present)
        InvalidState) (\<lambda>_.
     bind_res (reconcile_loop (cj_authored p) present (sn_combatants (cj_snapshot p)) (taken_cells p present))
       (\<lambda>(actors, changed).
     let q = on_snapshot (\<lambda>sn. sn\<lparr>sn_combatants := actors\<rparr>) p in
     if \<not> changed then Ok q else resume_encounter rr sf q seed))"

section \<open>One request, against a repository\<close>

text \<open>\<open>RepositoryError\<close> (\<^verbatim>\<open>ports/repositories.rs\<close>).\<close>

datatype repository_error =
    Operation string string | NotFound | RevisionConflict u64 u64 | Conflict u64 u64

fun map_repository_error :: "repository_error \<Rightarrow> resolve_combat_error" where
  "map_repository_error (RevisionConflict wanted actual) = StaleRevision wanted actual"
| "map_repository_error (Operation operation code) =
     (if code = ''combat_request_mismatch'' then RequestMismatch else Persistence)"
| "map_repository_error _ = Persistence"

fun validation_code :: "validation_error \<Rightarrow> string" where
  "validation_code Obstructed = ''combat_obstructed''"
| "validation_code OutOfRange = ''combat_out_of_range''"
| "validation_code ExitRequired = ''combat_exit_required''"
| "validation_code SpellUnavailable = ''combat_spell_unavailable''"
| "validation_code SpellSlotUnavailable = ''combat_slot_unavailable''"
| "validation_code Incapacitated = ''combat_incapacitated''"
| "validation_code WeaponUnavailable = ''combat_weapon_unavailable''"
| "validation_code AmmunitionExhausted = ''combat_ammunition_exhausted''"
| "validation_code HandsOccupied = ''combat_hands_occupied''"
| "validation_code NotYourTurn = ''combat_not_your_turn''"
| "validation_code InvalidTarget = ''combat_target_invalid''"
| "validation_code TargetNotFound = ''combat_target_invalid''"
| "validation_code (ActionEconomy _) = ''combat_budget_unavailable''"
| "validation_code ActionExhausted = ''combat_budget_unavailable''"
| "validation_code _ = ''hero_combat_rejected''"

text \<open>\<open>ResolveCombatResult\<close>, and \<open>CombatActionCommit\<close>, which has the same fields.\<close>

record resolve_combat_result =
  rr_projection :: combat_projection
  rr_duplicate :: bool

text \<open>The signature leaves the seed out: a retry comes with another one.\<close>

type_synonym combat_request = "uuid \<times> u64 \<times> combat_action_command"

definition request_of :: "resolve_combat_command \<Rightarrow> combat_request" where
  "request_of c = (rc_encounter_id c, rc_expected_revision c, rc_action c)"

text \<open>
  The methods of \<open>CombatRepository\<close> the use case calls, over a state of their own: other requests may
  commit between two calls, so that reading may find another state than the last call left.
\<close>

type_synonym 'w find_action =
  "uuid \<Rightarrow> string \<Rightarrow> string \<Rightarrow> 'w \<Rightarrow> (repository_error, combat_projection option) res \<times> 'w"
type_synonym 'w get_encounter =
  "uuid \<Rightarrow> 'w \<Rightarrow> (repository_error, combat_projection option) res \<times> 'w"
type_synonym 'w commit_action =
  "u64 \<Rightarrow> combat_projection \<Rightarrow> string \<Rightarrow> string \<Rightarrow> 'w \<Rightarrow> (repository_error, resolve_combat_result) res \<times> 'w"

definition map_failure :: "('e \<Rightarrow> 'f) \<Rightarrow> ('e, 'a) res \<times> 's \<Rightarrow> ('f, 'a) res \<times> 's" where
  "map_failure f m = (map_err f (fst m), snd m)"

text \<open>The block that answers with the recorded projection, and goes on with \<open>k\<close> without one.\<close>

definition replay_or ::
  "'w find_action \<Rightarrow> resolve_combat_command \<Rightarrow> string \<Rightarrow>
   ('w \<Rightarrow> (resolve_combat_error, resolve_combat_result) res \<times> 'w) \<Rightarrow>
   'w \<Rightarrow> (resolve_combat_error, resolve_combat_result) res \<times> 'w" where
  "replay_or find_action c signature k w =
     and_then (map_failure map_repository_error (find_action (rc_encounter_id c) (rc_request_id c) signature w))
       (\<lambda>found w1. case found of
          Some p \<Rightarrow> (Ok \<lparr>rr_projection = p, rr_duplicate = True\<rparr>, w1)
        | None \<Rightarrow> k w1)"

definition execute_combat ::
  "'w find_action \<Rightarrow> 'w get_encounter \<Rightarrow> 'w commit_action \<Rightarrow> (combat_request \<Rightarrow> string) \<Rightarrow>
   'g sampler \<Rightarrow> (u64 \<Rightarrow> 'g) \<Rightarrow> resolve_combat_command \<Rightarrow>
   'w \<Rightarrow> (resolve_combat_error, resolve_combat_result) res \<times> 'w" where
  "execute_combat find_action get commit_action to_json rr sf c w0 =
     try_state (reject_if (all_blank (rc_request_id c) \<or> 256 < length (rc_request_id c)) InvalidState) w0 (\<lambda>_.
     let signature = to_json (request_of c) in
     replay_or find_action c signature (\<lambda>w1.
     and_then (map_failure (\<lambda>_. Persistence) (get (rc_encounter_id c) w1)) (\<lambda>current w2.
     case current of
       None \<Rightarrow> replay_or find_action c signature (\<lambda>w3. (Err EncounterNotFound, w3)) w2
     | Some p \<Rightarrow>
         if cj_revision p \<noteq> rc_expected_revision c then
           replay_or find_action c signature
             (\<lambda>w3. (Err (StaleRevision (rc_expected_revision c) (cj_revision p)), w3)) w2
         else
           try_state (prepare_action rr sf p (rc_action c) (rc_rng_seed c)) w2 (\<lambda>prepared.
           map_failure map_repository_error
             (commit_action (rc_expected_revision c) prepared (rc_request_id c) signature w2)))) w0)"

end
