(* ===== verification/Encounter_State.thy ===== *)
theory Encounter_State
  imports Monster_Turns Combat_Service
begin

text \<open>
  The stored encounter and the engine: what makes a projection well formed, what the engine opened from
  it looks like, and what is stored back. These lemmas carry the properties of the combat use cases.
\<close>

section \<open>Well-formed projections\<close>

definition encounter_ok :: "combat_projection \<Rightarrow> bool" where
  "encounter_ok p \<longleftrightarrow>
     distinct (map c_id (sn_combatants (cj_snapshot p)))
     \<and> (\<forall>a\<in>set (sn_combatants (cj_snapshot p)). actor_ok a)
     \<and> distinct (map ie_id (sn_initiative (cj_snapshot p)))
     \<and> set (map ie_id (sn_initiative (cj_snapshot p))) = set (map c_id (sn_combatants (cj_snapshot p)))
     \<and> sn_round (cj_snapshot p) < 4294967296
     \<and> (\<forall>ae. cj_authored p = Some ae \<longrightarrow> valid_map (ae_map ae)
          \<and> (sn_active (cj_snapshot p) \<longrightarrow> ae_outcome ae = None))"

lemma collect_from:
  "table_ok t \<Longrightarrow> table_ok (foldl (\<lambda>t c. table_put (c_id c) c t) t cs)
     \<and> set (map fst (foldl (\<lambda>t c. table_put (c_id c) c t) t cs)) = set (map fst t) \<union> set (map c_id cs)"
proof (induction cs arbitrary: t)
  case (Cons c cs)
  from Cons.IH [OF table_ok_put [OF Cons.prems]] show ?case
    by (auto simp: table_put_def dom_update)
qed simp

lemma update_new: "k \<notin> fst ` set t \<Longrightarrow> AList.update k v t = t @ [(k, v)]"
  by (induction t) auto

lemma collect_distinct:
  "set (map fst t) \<inter> set (map c_id cs) = {} \<Longrightarrow> distinct (map c_id cs) \<Longrightarrow>
     foldl (\<lambda>t c. table_put (c_id c) c t) t cs = t @ map (\<lambda>c. (c_id c, c)) cs"
proof (induction cs arbitrary: t)
  case (Cons c cs)
  then have "table_put (c_id c) c t = t @ [(c_id c, c)]"
    by (auto simp: table_put_def update_new)
  with Cons show ?case by auto
qed simp

lemma collect_combatants_distinct:
  "distinct (map c_id cs) \<Longrightarrow> collect_combatants cs = map (\<lambda>c. (c_id c, c)) cs"
  using collect_distinct [of "[]" cs] by (simp add: collect_combatants_def)

lemma table_get_collected:
  "distinct (map c_id cs) \<Longrightarrow> table_get (map (\<lambda>c. (c_id c, c)) cs) i = Some a \<longleftrightarrow> a \<in> set cs \<and> c_id a = i"
  by (auto simp: table_get_def map_of_eq_Some_iff comp_def)

section \<open>Opening\<close>

lemma open_engine_cases:
  assumes run: "open_engine sf p seed = Ok r"
    and actors: "\<forall>a\<in>set (sn_combatants (cj_snapshot p)). actor_ok a" and rnd: "sn_round (cj_snapshot p) < 4294967296"
  shows "resolver_ok r" "all_ranked r" "rs_stop_round r = encounter_stop p"
    "distinct (map c_id (sn_combatants (cj_snapshot p)))"
    "rs_combatants r = map (\<lambda>c. (c_id c, c)) (sn_combatants (cj_snapshot p))"
    "io_entries (rs_order r) = sn_initiative (cj_snapshot p)"
    "distinct (map ie_id (sn_initiative (cj_snapshot p)))"
    "set (map ie_id (sn_initiative (cj_snapshot p))) = set (map c_id (sn_combatants (cj_snapshot p)))"
    "cj_authored p = Some ae \<Longrightarrow> valid_map (ae_map ae) \<and> rs_map r = Some (ae_map ae)"
    "rs_rescue_downed_party r \<longleftrightarrow> cj_authored p \<noteq> None"
proof -
  let ?sn = "cj_snapshot p" and ?cs = "sn_combatants (cj_snapshot p)"
  from run obtain t ord r1 where st: "resolver_state ?sn = Some (t, ord)"
    and map: "(case cj_authored p of None \<Rightarrow> Ok (new_resolver t ord (from_seed sf seed))
               | Some authored \<Rightarrow>
                   let (res, r1) = set_map (new_resolver t ord (from_seed sf seed)) (ae_map authored)
                   in bind_res (map_err (\<lambda>_. InvalidState) res) (\<lambda>_. Ok r1)) = Ok r1"
    and r: "r = set_turn_boundary r1 (encounter_stop p) (cj_authored p \<noteq> None)"
    by (auto simp: open_engine_def bind_res_Ok Let_def)
  have c: "table_ok (collect_combatants ?cs)" "set (map fst (collect_combatants ?cs)) = set (map c_id ?cs)"
    using collect_from [of "[]" ?cs] by (simp_all add: collect_combatants_def table_ok_def)
  from st obtain current where s: "length (collect_combatants ?cs) = length ?cs"
    "card (set (map ie_id (sn_initiative ?sn))) = length (sn_initiative ?sn)"
    "card (set (map ie_id (sn_initiative ?sn))) = length ?cs"
    "\<forall>i\<in>set (map ie_id (sn_initiative ?sn)). table_get (collect_combatants ?cs) i \<noteq> None"
    "t = collect_combatants ?cs" "restore_order (sn_initiative ?sn) current (sn_round ?sn) = Some ord"
    by (auto simp: resolver_state_def Let_def split: if_splits option.splits)
  have "card (set (map c_id ?cs)) = length ?cs"
    using c s(1) distinct_card [of "map fst (collect_combatants ?cs)"] by (simp add: table_ok_def)
  then show d: "distinct (map c_id ?cs)" by (intro card_distinct) simp
  note col = collect_combatants_distinct [OF d]
  show dist: "distinct (map ie_id (sn_initiative ?sn))" using s(2) by (intro card_distinct) simp
  have "set (map ie_id (sn_initiative ?sn)) \<subseteq> set (map c_id ?cs)"
    using s(4) c(2) table_get_None [of "collect_combatants ?cs"] by blast
  moreover have "card (set (map ie_id (sn_initiative ?sn))) = card (set (map c_id ?cs))"
    using s(3) \<open>card (set (map c_id ?cs)) = length ?cs\<close> by simp
  ultimately show ids: "set (map ie_id (sn_initiative ?sn)) = set (map c_id ?cs)"
    by (intro card_subset_eq) simp_all
  have fields: "rs_combatants r1 = t" "rs_order r1 = ord"
    and maps: "\<And>ae. cj_authored p = Some ae \<Longrightarrow> valid_map (ae_map ae) \<and> rs_map r1 = Some (ae_map ae)"
      "cj_authored p = None \<Longrightarrow> rs_map r1 = None"
    using map by (auto simp: set_map_def new_resolver_def split: option.splits if_splits)
  show tab: "rs_combatants r = map (\<lambda>c. (c_id c, c)) ?cs" using r fields s(5) col by (simp add: set_turn_boundary_def)
  have ord: "rs_order r = ord" "rs_map r = rs_map r1" using r fields by (simp_all add: set_turn_boundary_def)
  show ents: "io_entries (rs_order r) = sn_initiative ?sn"
    unfolding ord(1) using s(6) by (auto simp: restore_order_def split: if_splits option.splits)
  show "rs_stop_round r = encounter_stop p" "rs_rescue_downed_party r \<longleftrightarrow> cj_authored p \<noteq> None"
    using r by (simp_all add: set_turn_boundary_def)
  show "cj_authored p = Some ae \<Longrightarrow> valid_map (ae_map ae) \<and> rs_map r = Some (ae_map ae)" using maps ord by simp
  show "all_ranked r" using ids by (auto simp: all_ranked_def tab ents comp_def)
  show "resolver_ok r"
    unfolding resolver_ok_def
  proof (intro conjI)
    show "table_ok (rs_combatants r)" using d by (simp add: tab table_ok_def comp_def)
    show "\<forall>(k, a)\<in>set (rs_combatants r). c_id a = k \<and> actor_ok a" using actors by (auto simp: tab)
    show "order_ok (rs_order r)" using order_ok_restore [OF s(6) rnd] ord by simp
    show "\<forall>e\<in>set (io_entries (rs_order r)). ie_id e \<in> set (map fst (rs_combatants r))"
      using ids by (auto simp: tab ents comp_def)
    show "case rs_map r of None \<Rightarrow> True | Some m \<Rightarrow> valid_map m"
      using maps ord by (cases "cj_authored p") auto
  qed
qed

section \<open>Closing\<close>

text \<open>What no command changes of an encounter.\<close>

definition same_encounter :: "combat_projection \<Rightarrow> combat_projection \<Rightarrow> bool" where
  "same_encounter p q \<longleftrightarrow>
     cj_encounter_id q = cj_encounter_id p \<and> cj_campaign_scope q = cj_campaign_scope p
     \<and> cj_appearances q = cj_appearances p \<and> cj_schema_version q = cj_schema_version p
     \<and> cj_adventure q = cj_adventure p
     \<and> sn_initiative (cj_snapshot q) = sn_initiative (cj_snapshot p)
     \<and> map_option (\<lambda>ae. ae\<lparr>ae_outcome := None\<rparr>) (cj_authored q)
         = map_option (\<lambda>ae. ae\<lparr>ae_outcome := None\<rparr>) (cj_authored p)"

text \<open>The end of a fight changes whether it is active, and the recorded outcome.\<close>

definition concluded :: "combat_projection \<Rightarrow> combat_projection \<Rightarrow> bool" where
  "concluded p q \<longleftrightarrow>
     same_encounter p q \<and> cj_revision q = cj_revision p \<and> cj_events q = cj_events p
     \<and> sn_combatants (cj_snapshot q) = sn_combatants (cj_snapshot p)
     \<and> sn_round (cj_snapshot q) = sn_round (cj_snapshot p)
     \<and> (q = p \<or> \<not> sn_active (cj_snapshot q))"

lemma concluded_trans: "concluded p q \<Longrightarrow> concluded q r \<Longrightarrow> concluded p r"
  by (auto simp: concluded_def same_encounter_def)

lemma finish_if_resolved_concluded: "concluded p (finish_if_resolved p)"
  by (simp add: concluded_def same_encounter_def finish_if_resolved_def on_snapshot_def Let_def)

lemma finalize_concluded: "concluded p (snd (finalize_defense p retreat))"
  by (auto simp: concluded_def same_encounter_def finalize_defense_def on_snapshot_def split: option.splits)

lemma finish_if_resolved_active:
  assumes "sn_active (cj_snapshot (finish_if_resolved p))"
    "\<exists>a\<in>set (sn_combatants (cj_snapshot p)). c_character_id a \<noteq> None"
  shows "\<exists>a\<in>set (sn_combatants (cj_snapshot p)). standing_hero a"
    "\<exists>a\<in>set (sn_combatants (cj_snapshot p)). standing_enemy a"
  using assms by (auto simp: finish_if_resolved_def on_snapshot_def list_ex_iff Let_def split: if_splits)

lemma finalize_active:
  assumes "sn_active (cj_snapshot (snd (finalize_defense p retreat)))" "cj_authored p = Some ae" "ae_outcome ae = None"
  shows "\<not> retreat \<and> sn_round (cj_snapshot p) < 4 \<and> snd (finalize_defense p retreat) = p"
  using assms
  by (auto simp: finalize_defense_def defense_result_def on_snapshot_def Let_def split: option.splits if_splits)

text \<open>The combatants as they are stored: in the order of initiative.\<close>

lemma stored_combatants:
  assumes "resolver_ok r" "io_entries (rs_order r) = es"
  shows "map c_id (List.map_filter (\<lambda>e. table_get (rs_combatants r) (ie_id e)) es) = map ie_id es"
    and "set (List.map_filter (\<lambda>e. table_get (rs_combatants r) (ie_id e)) es)
       = {a. \<exists>e\<in>set es. actor_of r (ie_id e) = Some a}"
proof -
  have "\<exists>a. table_get (rs_combatants r) (ie_id e) = Some a \<and> c_id a = ie_id e" if "e \<in> set es" for e
    using that assms(2) resolver_okD(2,5) [OF assms(1)] table_get_keys [of "ie_id e" "rs_combatants r"]
    by (fastforce simp: actor_of_def)
  then show "map c_id (List.map_filter (\<lambda>e. table_get (rs_combatants r) (ie_id e)) es) = map ie_id es"
    by (induction es) (fastforce simp: List.map_filter_def)+
qed (auto simp: set_map_filter actor_of_def)

text \<open>What the authored defense has come to, read off the combatants.\<close>

definition defense_verdict :: "bool \<Rightarrow> combatant list \<Rightarrow> u32 \<Rightarrow> defense_outcome option" where
  "defense_verdict retreat cs rnd =
     (if \<not> list_ex standing_hero cs then Some Defeated
      else if retreat then Some Retreated
      else if \<not> list_ex standing_enemy cs \<or> 4 \<le> rnd then Some Held
      else None)"

lemma conclude_verdict:
  assumes "cj_authored p = Some ae" "ae_outcome ae = None" "sn_active (cj_snapshot p)"
    and "q = snd (finalize_defense (finish_if_resolved p) retreat)"
    and "v = defense_verdict retreat (sn_combatants (cj_snapshot p)) (sn_round (cj_snapshot p))"
  shows "cj_authored q = Some (ae\<lparr>ae_outcome := v\<rparr>)" "sn_active (cj_snapshot q) \<longleftrightarrow> v = None"
proof -
  have "\<not> list_ex (\<lambda>a. c_character_id a \<noteq> None) cs \<Longrightarrow> \<not> list_ex standing_hero cs" for cs
    by (auto simp: list_ex_iff standing_hero_def)
  then show "cj_authored q = Some (ae\<lparr>ae_outcome := v\<rparr>)" "sn_active (cj_snapshot q) \<longleftrightarrow> v = None"
    using assms by (auto simp: finish_if_resolved_def finalize_defense_def defense_result_def defense_verdict_def
        on_snapshot_def Let_def)
qed

text \<open>What is stored after the engine \<open>r\<close> has worked on the encounter \<open>p\<close>.\<close>

definition stored_from :: "combat_projection \<Rightarrow> 'g resolver \<Rightarrow> result_events list \<Rightarrow> bool \<Rightarrow> combat_projection \<Rightarrow> bool" where
  "stored_from p r evs retreat q \<longleftrightarrow>
     encounter_ok q \<and> same_encounter p q \<and> cj_revision q = u64_add (cj_revision p) 1 \<and> cj_events q = evs
     \<and> set (sn_combatants (cj_snapshot q)) = {a. \<exists>e\<in>set (sn_initiative (cj_snapshot p)). actor_of r (ie_id e) = Some a}
     \<and> sn_round (cj_snapshot q) = io_round (rs_order r)
     \<and> (sn_active (cj_snapshot q) \<longrightarrow> sn_active (cj_snapshot p)
       \<and> map_option ie_id (order_current (rs_order r)) = sn_current_combatant (cj_snapshot q)
       \<and> ((\<exists>a\<in>set (sn_combatants (cj_snapshot q)). c_character_id a \<noteq> None) \<longrightarrow>
            (\<exists>a\<in>set (sn_combatants (cj_snapshot q)). standing_hero a)
            \<and> (\<exists>a\<in>set (sn_combatants (cj_snapshot q)). standing_enemy a))
       \<and> (cj_authored p \<noteq> None \<longrightarrow> \<not> retreat \<and> sn_round (cj_snapshot q) < 4))
     \<and> (sn_active (cj_snapshot p) \<longrightarrow> (\<forall>ae. cj_authored p = Some ae \<longrightarrow>
          (let v = defense_verdict retreat (sn_combatants (cj_snapshot q)) (sn_round (cj_snapshot q))
           in cj_authored q = Some (ae\<lparr>ae_outcome := v\<rparr>) \<and> (sn_active (cj_snapshot q) \<longleftrightarrow> v = None))))"

lemma close_engine_cases:
  assumes ok: "resolver_ok r" and ents: "io_entries (rs_order r) = sn_initiative (cj_snapshot p)"
    and dist: "distinct (map ie_id (sn_initiative (cj_snapshot p)))"
    and maps: "\<And>ae. cj_authored p = Some ae \<Longrightarrow> valid_map (ae_map ae) \<and> (sn_active (cj_snapshot p) \<longrightarrow> ae_outcome ae = None)"
  shows "\<exists>q. close_engine p r evs retreat = Ok q \<and> stored_from p r evs retreat q"
proof -
  obtain e where e: "order_current (rs_order r) = Some e" using current_actor [OF ok] by metis
  then have "\<not> order_is_empty (rs_order r)" by (auto simp: order_current_def order_is_empty_def split: if_splits)
  then have cur: "current_id (rs_order r) = (Ok (Some (ie_id e)) :: (resolve_combat_error, _) res)"
    using e by (simp add: current_id_def)
  define p1 where "p1 = p\<lparr>cj_revision := u64_add (cj_revision p) 1,
     cj_snapshot := (cj_snapshot p)\<lparr>
       sn_combatants := List.map_filter (\<lambda>e. table_get (rs_combatants r) (ie_id e)) (sn_initiative (cj_snapshot p)),
       sn_round := io_round (rs_order r), sn_current_combatant := Some (ie_id e),
       sn_initiative := io_entries (rs_order r)\<rparr>, cj_events := evs\<rparr>"
  define q1 where "q1 = finish_if_resolved p1"
  define q where "q = snd (finalize_defense q1 retreat)"
  have run: "close_engine p r evs retreat = Ok q"
    using cur by (simp add: close_engine_def replace_resolved_state_def q_def q1_def p1_def)
  have con1: "concluded p1 q1" unfolding q1_def by (rule finish_if_resolved_concluded)
  have con2: "concluded q1 q" unfolding q_def by (rule finalize_concluded)
  have con: "concluded p1 q" by (rule concluded_trans [OF con1 con2])
  have same: "same_encounter p q" using con ents by (auto simp: concluded_def same_encounter_def p1_def)
  have cs: "sn_combatants (cj_snapshot q) = List.map_filter (\<lambda>e. table_get (rs_combatants r) (ie_id e)) (sn_initiative (cj_snapshot p))"
    "sn_round (cj_snapshot q) = io_round (rs_order r)"
    "sn_initiative (cj_snapshot q) = sn_initiative (cj_snapshot p)"
    using con same by (simp_all add: concluded_def same_encounter_def p1_def)
  note stored = stored_combatants [OF ok ents]
  have auth: "valid_map (ae_map ae)" if "cj_authored q = Some ae" for ae
  proof -
    from same that obtain ae0 where "cj_authored p = Some ae0" "ae\<lparr>ae_outcome := None\<rparr> = ae0\<lparr>ae_outcome := None\<rparr>"
      by (cases "cj_authored p") (auto simp: same_encounter_def)
    with maps [of ae0] show ?thesis by (cases ae; cases ae0) simp
  qed
  have active: "q = p1 \<and> sn_active (cj_snapshot p)
       \<and> map_option ie_id (order_current (rs_order r)) = sn_current_combatant (cj_snapshot q)
       \<and> ((\<exists>a\<in>set (sn_combatants (cj_snapshot q)). c_character_id a \<noteq> None) \<longrightarrow>
            (\<exists>a\<in>set (sn_combatants (cj_snapshot q)). standing_hero a)
            \<and> (\<exists>a\<in>set (sn_combatants (cj_snapshot q)). standing_enemy a))
       \<and> (cj_authored p \<noteq> None \<longrightarrow> \<not> retreat \<and> sn_round (cj_snapshot q) < 4)"
    if a: "sn_active (cj_snapshot q)"
  proof -
    have q1: "q = q1" using con2 a by (auto simp: concluded_def)
    then have p1: "q1 = p1" using con1 a by (auto simp: concluded_def)
    have "sn_active (cj_snapshot p)" "sn_current_combatant (cj_snapshot q) = Some (ie_id e)" "cj_authored p1 = cj_authored p"
      using a unfolding q1 p1 by (simp_all add: p1_def)
    moreover have "sn_active (cj_snapshot (finish_if_resolved p1))" using a q1 q1_def by simp
    moreover have "sn_active (cj_snapshot (snd (finalize_defense p1 retreat)))" using a q_def p1 by simp
    ultimately show ?thesis
      using finish_if_resolved_active [of p1] finalize_active [of p1 retreat] maps e q1 p1 by auto
  qed
  have qok: "encounter_ok q"
    unfolding encounter_ok_def cs stored(1)
  proof (intro conjI)
    show "\<forall>a\<in>set (List.map_filter (\<lambda>e. table_get (rs_combatants r) (ie_id e)) (sn_initiative (cj_snapshot p))). actor_ok a"
      unfolding stored(2) using resolver_okD(3) [OF ok] by blast
    show "io_round (rs_order r) < 4294967296" using resolver_okD(4) [OF ok] by (simp add: order_ok_def)
    have "set (map c_id (List.map_filter (\<lambda>e. table_get (rs_combatants r) (ie_id e)) (sn_initiative (cj_snapshot p))))
        = set (map ie_id (sn_initiative (cj_snapshot p)))" by (simp only: stored(1))
    then show "set (map ie_id (sn_initiative (cj_snapshot p)))
        = set (map ie_id (sn_initiative (cj_snapshot p)))" by simp
    show "\<forall>ae. cj_authored q = Some ae \<longrightarrow> valid_map (ae_map ae) \<and> (sn_active (cj_snapshot q) \<longrightarrow> ae_outcome ae = None)"
      using auth active maps by (auto simp: p1_def)
  qed (use dist in auto)
  have verdict: "let v = defense_verdict retreat (sn_combatants (cj_snapshot q)) (sn_round (cj_snapshot q))
           in cj_authored q = Some (ae\<lparr>ae_outcome := v\<rparr>) \<and> (sn_active (cj_snapshot q) \<longleftrightarrow> v = None)"
    if "sn_active (cj_snapshot p)" "cj_authored p = Some ae" for ae
  proof -
    have eqs: "sn_combatants (cj_snapshot q) = sn_combatants (cj_snapshot p1)" "sn_round (cj_snapshot q) = sn_round (cj_snapshot p1)"
      using con by (simp_all add: concluded_def)
    have p1: "cj_authored p1 = Some ae" "ae_outcome ae = None" "sn_active (cj_snapshot p1)"
      using that maps by (simp_all add: p1_def)
    have "q = snd (finalize_defense (finish_if_resolved p1) retreat)" by (simp add: q_def q1_def)
    from conclude_verdict [OF p1 this refl] show ?thesis unfolding Let_def eqs by blast
  qed
  have base: "cj_revision q = u64_add (cj_revision p) 1" "cj_events q = evs"
    using con by (simp_all add: concluded_def p1_def)
  have comb: "set (sn_combatants (cj_snapshot q)) = {a. \<exists>e\<in>set (sn_initiative (cj_snapshot p)). actor_of r (ie_id e) = Some a}"
    unfolding cs(1) by (rule stored(2))
  have "stored_from p r evs retreat q"
    unfolding stored_from_def using qok same base comb cs(2) active verdict by blast
  with run show ?thesis by blast
qed

section \<open>A whole command\<close>

lemma settle_npcs_until_cases:
  assumes rr: "sampler_ok rr" and ok: "resolver_ok r" and ranked: "all_ranked r" and stop: "rs_stop_round r = stop"
    and run: "settle_npcs_until rr stop evs r = (res, s)"
  shows "res \<noteq> Panic \<and> res \<noteq> Err ''combat_npc_cycle_invalid'' \<and> resolver_evolves r s
     \<and> (\<forall>evs'. res = Ok evs' \<longrightarrow> handed_back stop s)
     \<and> (field_ready r \<longrightarrow> (\<exists>evs'. res = Ok evs') \<and> field_ready s)"
proof (cases "any_actor (\<lambda>a. c_character_id a \<noteq> None) r")
  case True
  with run have "settle_loop rr stop (order_len (rs_order r) + 1) evs r = (res, s)" by (simp add: settle_npcs_until_def)
  from settle_loop_ends [OF rr ok ranked stop engine.refl _ _ _ this, of 0] show ?thesis
    using passed_refl [OF resolver_okD(4) [OF ok]] by auto
next
  case False
  with run have "res = Ok evs" "s = r" by (simp_all add: settle_npcs_until_def)
  with False show ?thesis
    by (auto simp: engine.refl handed_back_def any_actor_def list_ex_iff standing_hero_def)
qed

lemma open_engine_no_panic: "open_engine sf p seed \<noteq> Panic"
  by (auto simp: open_engine_def bind_res_Panic Let_def set_map_def split: option.splits if_splits)

lemma prepare_action_cases:
  assumes rr: "sampler_ok rr" and ok: "encounter_ok p" and run: "prepare_action rr sf p command seed = res"
  shows "res \<noteq> Panic"
    and "res = Ok q \<Longrightarrow> \<exists>r s ev r1 evs. sn_active (cj_snapshot p) \<and> open_engine sf p seed = Ok r
      \<and> resolve rr (engine_action command) r = (Ok ev, r1)
      \<and> settle_npcs_until rr (encounter_stop p) [ev] r1 = (Ok evs, s)
      \<and> stored_from p s evs (is_retreat command) q
      \<and> resolver_ok s \<and> resolver_evolves r s \<and> handed_back (encounter_stop p) s"
proof -
  have pre: "\<forall>a\<in>set (sn_combatants (cj_snapshot p)). actor_ok a" "sn_round (cj_snapshot p) < 4294967296"
    using ok by (simp_all add: encounter_ok_def)
  have dist: "distinct (map ie_id (sn_initiative (cj_snapshot p)))" using ok by (simp add: encounter_ok_def)
  have maps: "valid_map (ae_map ae) \<and> (sn_active (cj_snapshot p) \<longrightarrow> ae_outcome ae = None)" if "cj_authored p = Some ae" for ae
    using ok that by (simp add: encounter_ok_def)
  note close = close_engine_cases [OF _ _ dist maps]
  have step: "res1 \<noteq> Panic \<and> resolver_evolves r r1 \<and> (\<forall>ev. res1 = Ok ev \<longrightarrow>
      (\<forall>res2 s. settle_npcs_until rr (encounter_stop p) [ev] r1 = (res2, s) \<longrightarrow>
        res2 \<noteq> Panic \<and> resolver_ok s \<and> resolver_evolves r s \<and> io_entries (rs_order s) = sn_initiative (cj_snapshot p)
        \<and> (\<forall>evs. res2 = Ok evs \<longrightarrow> handed_back (encounter_stop p) s)))"
    if r: "open_engine sf p seed = Ok r" "resolve rr (engine_action command) r = (res1, r1)" for r r1 res1
  proof -
    note o = open_engine_cases [OF r(1) pre]
    have e1: "res1 \<noteq> Panic" "resolver_evolves r r1"
      using resolve_safe [OF rr o(1), of "engine_action command"] r(2) by (simp_all add: safe_def)
    have ok1: "resolver_ok r1" by (rule resolver_evolves_ok [OF e1(2) o(1)])
    have stop: "rs_stop_round r1 = encounter_stop p" using e1(2) o(3) by (simp add: resolver_evolves_def)
    have fin: "res2 \<noteq> Panic \<and> resolver_ok s \<and> resolver_evolves r s \<and> io_entries (rs_order s) = sn_initiative (cj_snapshot p)
        \<and> (\<forall>evs. res2 = Ok evs \<longrightarrow> handed_back (encounter_stop p) s)"
      if "settle_npcs_until rr (encounter_stop p) evs0 r1 = (res2, s)" for evs0 res2 s
    proof -
      note c = settle_npcs_until_cases [OF rr ok1 all_ranked_evolves [OF e1(2) o(2)] stop that]
      then have e2: "resolver_evolves r s" using engine.trans [OF e1(2)] by blast
      then have "io_entries (rs_order s) = sn_initiative (cj_snapshot p)" using o(6) by (simp add: resolver_evolves_def)
      with c e2 resolver_evolves_ok [OF e2 o(1)] show ?thesis by blast
    qed
    with e1 show ?thesis by blast
  qed
  show "res \<noteq> Panic"
  proof
    assume "res = Panic"
    with run open_engine_no_panic obtain r where r: "open_engine sf p seed = Ok r"
      by (auto simp: prepare_action_def bind_res_Panic)
    obtain res1 r1 where r1: "resolve rr (engine_action command) r = (res1, r1)" by fastforce
    from run \<open>res = Panic\<close> r r1 step [OF r r1] obtain ev where ev: "res1 = Ok ev"
      by (auto simp: prepare_action_def bind_res_Panic)
    obtain res2 s where s: "settle_npcs_until rr (encounter_stop p) [ev] r1 = (res2, s)" by fastforce
    from step [OF r r1] ev s have fin: "res2 \<noteq> Panic" "resolver_ok s" "io_entries (rs_order s) = sn_initiative (cj_snapshot p)"
      by blast+
    from close [OF fin(2,3)] have "close_engine p s evs retreat \<noteq> Panic" for evs retreat
      by (metis res.distinct(3))
    with run \<open>res = Panic\<close> r r1 ev s fin(1) show False
      by (auto simp: prepare_action_def bind_res_Panic)
  qed
  assume "res = Ok q"
  with run obtain r where r1: "sn_active (cj_snapshot p)" "open_engine sf p seed = Ok r"
    by (auto simp: prepare_action_def bind_res_Ok)
  obtain res1 t where r2: "resolve rr (engine_action command) r = (res1, t)" by fastforce
  with run r1 \<open>res = Ok q\<close> obtain ev where r3: "res1 = Ok ev" by (auto simp: prepare_action_def bind_res_Ok)
  obtain res2 s where r4: "settle_npcs_until rr (encounter_stop p) [ev] t = (res2, s)" by fastforce
  with run r1 r2 r3 \<open>res = Ok q\<close> obtain evs where r5: "res2 = Ok evs" "close_engine p s evs (is_retreat command) = Ok q"
    by (auto simp: prepare_action_def bind_res_Ok)
  have r: "sn_active (cj_snapshot p)" "open_engine sf p seed = Ok r"
      "resolve rr (engine_action command) r = (Ok ev, t)"
      "settle_npcs_until rr (encounter_stop p) [ev] t = (Ok evs, s)"
      "close_engine p s evs (is_retreat command) = Ok q"
    using r1 r2 r3 r4 r5 by simp_all
  from step [OF r(2,3)] r(4) have fin: "resolver_ok s" "resolver_evolves r s" "handed_back (encounter_stop p) s"
    "io_entries (rs_order s) = sn_initiative (cj_snapshot p)" by blast+
  have "stored_from p s evs (is_retreat command) q" using close [OF fin(1,4)] r(5) by (metis res.inject(1))
  with r fin
  show "\<exists>r s ev r1 evs. sn_active (cj_snapshot p) \<and> open_engine sf p seed = Ok r
      \<and> resolve rr (engine_action command) r = (Ok ev, r1)
      \<and> settle_npcs_until rr (encounter_stop p) [ev] r1 = (Ok evs, s)
      \<and> stored_from p s evs (is_retreat command) q
      \<and> resolver_ok s \<and> resolver_evolves r s \<and> handed_back (encounter_stop p) s"
    by blast
qed


text \<open>Every stored combatant is one of the opened encounter, evolved by the rules; nobody is added or lost.\<close>

lemma stored_from_back:
  assumes ok: "encounter_ok p" and run: "open_engine sf p seed = Ok r"
    and ev: "resolver_evolves r s" and st: "stored_from p s evs retreat q"
  shows "\<forall>b\<in>set (sn_combatants (cj_snapshot q)). \<exists>a\<in>set (sn_combatants (cj_snapshot p)). combatant_evolves a b"
    and "c_id ` set (sn_combatants (cj_snapshot q)) = c_id ` set (sn_combatants (cj_snapshot p))"
proof -
  have pre: "\<forall>a\<in>set (sn_combatants (cj_snapshot p)). actor_ok a" "sn_round (cj_snapshot p) < 4294967296"
    using ok by (simp_all add: encounter_ok_def)
  note o = open_engine_cases [OF run pre] and st' = st [unfolded stored_from_def]
  have bound: "actor_of r i = Some a \<longleftrightarrow> a \<in> set (sn_combatants (cj_snapshot p)) \<and> c_id a = i" for i a
    unfolding actor_of_def o(5) by (rule table_get_collected [OF o(4)])
  show "\<forall>b\<in>set (sn_combatants (cj_snapshot q)). \<exists>a\<in>set (sn_combatants (cj_snapshot p)). combatant_evolves a b"
    using evolved_actor_back [OF ev] bound st' by fastforce
  have "c_id ` set (sn_combatants (cj_snapshot q)) = ie_id ` set (sn_initiative (cj_snapshot q))"
    using st' by (simp add: encounter_ok_def)
  also have "\<dots> = c_id ` set (sn_combatants (cj_snapshot p))"
    using st' ok by (simp add: encounter_ok_def same_encounter_def)
  finally show "c_id ` set (sn_combatants (cj_snapshot q)) = c_id ` set (sn_combatants (cj_snapshot p))" .
qed

text \<open>While heroes take part, an encounter that goes on has been handed to one of them.\<close>

lemma stored_from_hero_up:
  assumes ok: "resolver_ok s" and hb: "handed_back (encounter_stop p) s" and st0: "stored_from p s evs retreat q"
    and ents: "io_entries (rs_order s) = sn_initiative (cj_snapshot p)" and act0: "sn_active (cj_snapshot q)"
    and hero: "\<exists>a\<in>set (sn_combatants (cj_snapshot q)). c_character_id a \<noteq> None"
  shows "(\<exists>a\<in>set (sn_combatants (cj_snapshot q)). sn_current_combatant (cj_snapshot q) = Some (c_id a) \<and> c_character_id a \<noteq> None)
     \<and> (\<exists>a\<in>set (sn_combatants (cj_snapshot q)). standing_hero a)
     \<and> (\<exists>a\<in>set (sn_combatants (cj_snapshot q)). standing_enemy a)
     \<and> (cj_authored p \<noteq> None \<longrightarrow> sn_round (cj_snapshot q) < 4 \<and> \<not> retreat)"
proof -
  note st = st0 [unfolded stored_from_def]
  have act: "map_option ie_id (order_current (rs_order s)) = sn_current_combatant (cj_snapshot q)"
    "\<exists>a\<in>set (sn_combatants (cj_snapshot q)). standing_hero a"
    "\<exists>a\<in>set (sn_combatants (cj_snapshot q)). standing_enemy a"
    "cj_authored p \<noteq> None \<longrightarrow> \<not> retreat \<and> sn_round (cj_snapshot q) < 4"
    and cs: "set (sn_combatants (cj_snapshot q)) = {a. \<exists>e\<in>set (sn_initiative (cj_snapshot p)). actor_of s (ie_id e) = Some a}"
      "sn_round (cj_snapshot q) = io_round (rs_order s)"
    using st act0 hero by blast+
  have "any_actor standing_hero s" "any_actor standing_enemy s"
    using act(2,3) cs(1) any_actor_iff [OF ok] by blast+
  moreover have "\<not> stop_reached (encounter_stop p) s"
    using act cs(2) by (cases "cj_authored p") (simp_all add: stop_reached_def encounter_stop_def)
  ultimately have "hero_up s" using hb by (simp add: handed_back_def)
  then obtain e a where e: "order_current (rs_order s) = Some e" "actor_of s (ie_id e) = Some a" "c_character_id a \<noteq> None"
    by (auto simp: hero_up_def)
  have "a \<in> set (sn_combatants (cj_snapshot q))" using e cs(1) ents order_current_mem by fastforce
  moreover have "sn_current_combatant (cj_snapshot q) = Some (c_id a)"
    using act e resolver_okD(2) [OF ok e(2)] by auto
  ultimately show ?thesis using act hero e(3) by blast
qed

end
