(* ===== verification/Participants.thy ===== *)
theory Participants
  imports Encounter_State
begin

text \<open>
  Heroes who leave a fight and return to it: the loop of \<open>reconcile_participants\<close> decides for each who
  takes part, and gives a returning hero a cell that nobody stands on.
\<close>

section \<open>A free cell\<close>

lemma free_cell_free: "free_cell authored taken origin = Some c \<Longrightarrow> c \<notin> taken"
  using min_by_key_mem
  by (fastforce simp: free_cell_def free_cell_on_map_def free_cell_in_open_def find_Some_iff split: option.splits)

definition open_cells :: "nat \<Rightarrow> position \<Rightarrow> position list" where
  "open_cells n origin =
     map (\<lambda>(x, y). at (i32_saturating_add (pos_x origin) x) (i32_saturating_add (pos_y origin) y))
       (concat (map (\<lambda>n. let r = (if int n \<le> i32_max then int n else i32_max)
                         in [(r, 0), (i32_neg r, 0), (0, r), (0, i32_neg r)]) [1..<Suc n]))"

lemma open_cells_mem:
  assumes "1 \<le> r" "r \<le> n" "int n \<le> i32_max"
  shows "at (i32_saturating_add (pos_x origin) (int r)) (i32_saturating_add (pos_y origin) 0) \<in> set (open_cells n origin)"
    and "at (i32_saturating_add (pos_x origin) (- int r)) (i32_saturating_add (pos_y origin) 0) \<in> set (open_cells n origin)"
proof -
  let ?ring = "\<lambda>n::nat. let r = (if int n \<le> i32_max then int n else i32_max)
                       in [(r, 0), (i32_neg r, 0), (0, r), (0, i32_neg r)]"
  have "r \<in> set [1..<Suc n]" "?ring r = [(int r, 0), (- int r, 0), (0, int r), (0, - int r)]"
    using assms by (auto simp: Let_def i32_neg_def wrap32_id in_i32_def)
  then have "(int r, 0) \<in> set (?ring r) \<and> (- int r, 0) \<in> set (?ring r)" by simp
  with \<open>r \<in> set [1..<Suc n]\<close>
  have "(int r, 0) \<in> set (concat (map ?ring [1..<Suc n]))" "(- int r, 0) \<in> set (concat (map ?ring [1..<Suc n]))"
    unfolding set_concat set_map by blast+
  from this(1) [THEN imageI, of "\<lambda>(x, y). at (i32_saturating_add (pos_x origin) x) (i32_saturating_add (pos_y origin) y)"]
    this(2) [THEN imageI, of "\<lambda>(x, y). at (i32_saturating_add (pos_x origin) x) (i32_saturating_add (pos_y origin) y)"]
  show "at (i32_saturating_add (pos_x origin) (int r)) (i32_saturating_add (pos_y origin) 0) \<in> set (open_cells n origin)"
    "at (i32_saturating_add (pos_x origin) (- int r)) (i32_saturating_add (pos_y origin) 0) \<in> set (open_cells n origin)"
    unfolding open_cells_def set_map prod.case by - assumption+
qed

text \<open>Among as many distinct cells as are taken and one more, one is free.\<close>

lemma free_cell_in_open_exists:
  assumes "finite taken" "int (card taken) < i32_max" "in_i32 (pos_x origin)"
  shows "\<exists>c. free_cell_in_open taken origin = Some c"
proof -
  let ?n = "card taken + 1"
  let ?y = "i32_saturating_add (pos_y origin) 0"
  obtain f where f: "inj_on f {1..?n}" "\<And>r. r \<in> {1..?n} \<Longrightarrow> at (f r) ?y \<in> set (open_cells ?n origin)"
  proof (cases "pos_x origin \<le> 0")
    case True
    have "i32_saturating_add (pos_x origin) (int r) = pos_x origin + int r" if "r \<in> {1..?n}" for r
      using that True assms(2,3) by (auto simp: i32_saturating_add_def sat32_def in_i32_def)
    then have "inj_on (\<lambda>r. i32_saturating_add (pos_x origin) (int r)) {1..?n}" by (auto intro!: inj_onI)
    then show ?thesis by (rule that) (use open_cells_mem(1) assms(2) in auto)
  next
    case False
    have "i32_saturating_add (pos_x origin) (- int r) = pos_x origin - int r" if "r \<in> {1..?n}" for r
      using that False assms(2,3) by (auto simp: i32_saturating_add_def sat32_def in_i32_def)
    then have "inj_on (\<lambda>r. i32_saturating_add (pos_x origin) (- int r)) {1..?n}" by (auto intro!: inj_onI)
    then show ?thesis by (rule that) (use open_cells_mem(2) assms(2) in auto)
  qed
  have "\<not> set (open_cells ?n origin) \<subseteq> taken"
  proof
    assume "set (open_cells ?n origin) \<subseteq> taken"
    with f(2) have "(\<lambda>r. at (f r) ?y) ` {1..?n} \<subseteq> taken" by blast
    moreover have "inj_on (\<lambda>r. at (f r) ?y) {1..?n}" using f(1) by (auto simp: at_def inj_on_def)
    ultimately have "card {1..?n} \<le> card taken" by (metis assms(1) card_inj_on_le)
    then show False by simp
  qed
  moreover have "free_cell_in_open taken origin = find (\<lambda>p. p \<notin> taken) (open_cells ?n origin)"
    by (simp add: free_cell_in_open_def open_cells_def)
  ultimately show ?thesis
    by (cases "find (\<lambda>p. p \<notin> taken) (open_cells ?n origin)") (auto simp: find_None_iff)
qed

section \<open>The loop\<close>

definition upright :: "combatant \<Rightarrow> bool" where
  "upright a \<longleftrightarrow> \<not> c_withdrawn a \<and> c_current_hp a > 0 \<and> \<not> c_is_dead a"

definition staying :: "uuid set \<Rightarrow> combatant \<Rightarrow> bool" where
  "staying present a \<longleftrightarrow> upright a \<and> (case c_character_id a of None \<Rightarrow> True | Some i \<Rightarrow> i \<in> present)"

text \<open>What the loop does to one combatant: only its cell and its absence may change.\<close>

definition reconciled :: "uuid set \<Rightarrow> combatant \<Rightarrow> combatant \<Rightarrow> bool" where
  "reconciled present a b \<longleftrightarrow>
     b = a\<lparr>c_position := c_position b, c_withdrawn := c_withdrawn b\<rparr>
     \<and> (\<forall>owner. c_character_id a = Some owner \<longrightarrow> c_withdrawn b = (owner \<notin> present))
     \<and> (c_character_id a = None \<longrightarrow> b = a)
     \<and> (c_position b \<noteq> c_position a \<longrightarrow> c_withdrawn a \<and> upright b)"

lemma reconcile_step_cases:
  assumes "reconcile_loop authored present (a # rest) taken = Ok (bs, ch)"
  obtains (same) as' ch' where "bs = a # as'" "reconcile_loop authored present rest taken = Ok (as', ch')" "ch = ch'"
      "\<forall>owner. c_character_id a = Some owner \<longrightarrow> c_withdrawn a = (owner \<notin> present)"
    | (moved) as' ch' cell owner where "bs = a\<lparr>c_position := cell, c_withdrawn := False\<rparr> # as'"
      "reconcile_loop authored present rest (insert cell taken) = Ok (as', ch')" "ch" "cell \<notin> taken"
      "c_character_id a = Some owner" "owner \<in> present" "c_withdrawn a" "c_current_hp a > 0" "\<not> c_is_dead a"
    | (marked) as' ch' owner where "bs = a\<lparr>c_withdrawn := (owner \<notin> present)\<rparr> # as'"
      "reconcile_loop authored present rest taken = Ok (as', ch')" "ch" "c_character_id a = Some owner"
      "owner \<notin> present \<or> c_current_hp a \<le> 0 \<or> c_is_dead a" "c_withdrawn a = (owner \<in> present)"
proof (cases "c_character_id a")
  case None
  with assms same show ?thesis by (auto simp: bind_res_Ok)
next
  case (Some owner)
  show ?thesis
  proof (cases "c_withdrawn a = (owner \<notin> present)")
    case True
    with Some assms same show ?thesis by (auto simp: bind_res_Ok)
  next
    case differs: False
    show ?thesis
    proof (cases "owner \<in> present \<and> c_current_hp a > 0 \<and> \<not> c_is_dead a")
      case True
      with Some differs assms obtain cell where cell: "(if c_position a \<in> taken then ok_or (free_cell authored taken (c_position a)) InvalidState
            else Ok (c_position a)) = Ok cell"
        "bind_res (reconcile_loop authored present rest (insert cell taken)) (\<lambda>(as, ch).
            Ok (a\<lparr>c_position := cell, c_withdrawn := False\<rparr> # as, True)) = Ok (bs, ch)"
        by (auto simp: bind_res_Ok)
      have "cell \<notin> taken" using cell(1) free_cell_free by (fastforce split: if_splits)
      with moved cell(2) Some True differs show ?thesis by (auto simp: bind_res_Ok)
    next
      case False
      with Some differs assms have "bind_res (reconcile_loop authored present rest taken) (\<lambda>(as, ch).
            Ok (a\<lparr>c_withdrawn := (owner \<notin> present)\<rparr> # as, True)) = Ok (bs, ch)"
        by (auto simp: Let_def)
      with marked Some differs False show ?thesis by (auto simp: bind_res_Ok not_less)
    qed
  qed
qed

lemma reconcile_loop_each:
  "reconcile_loop authored present as taken = Ok (bs, ch) \<Longrightarrow>
     list_all2 (reconciled present) as bs \<and> (\<not> ch \<longrightarrow> bs = as)"
proof (induction as arbitrary: taken bs ch)
  case (Cons a rest)
  from Cons.prems show ?case
  proof (cases rule: reconcile_step_cases)
    case (same as' ch')
    with Cons.IH [OF same(2)] show ?thesis by (auto simp: reconciled_def)
  next
    case (moved as' ch' cell owner)
    with Cons.IH [OF moved(2)] show ?thesis by (auto simp: reconciled_def upright_def)
  next
    case (marked as' ch' owner)
    with Cons.IH [OF marked(2)] show ?thesis by (auto simp: reconciled_def)
  qed
qed simp

lemma reconcile_loop_cells:
  assumes "reconcile_loop authored present as taken = Ok (bs, ch)"
    and "distinct (map c_position (filter (staying present) as))"
    and "c_position ` set (filter (staying present) as) \<subseteq> taken"
  shows "distinct (map c_position (filter upright bs))
     \<and> c_position ` set (filter upright bs) \<inter> (taken - c_position ` set (filter (staying present) as)) = {}"
  using assms
proof (induction as arbitrary: taken bs ch)
  case (Cons a rest)
  let ?S = "c_position ` set (filter (staying present) rest)"
  have prems: "distinct (map c_position (filter (staying present) rest))" "?S \<subseteq> taken"
    "staying present a \<Longrightarrow> c_position a \<in> taken \<and> c_position a \<notin> ?S"
    using Cons.prems(2,3) by (auto split: if_splits)
  from Cons.prems(1) show ?case
  proof (cases rule: reconcile_step_cases)
    case (same as' ch')
    have "upright a \<longleftrightarrow> staying present a" using same(4) by (auto simp: staying_def upright_def split: option.splits)
    with Cons.IH [OF same(2) prems(1,2)] same(1) prems(3) show ?thesis by (cases "upright a") auto
  next
    case (moved as' ch' cell owner)
    have "?S \<subseteq> insert cell taken" "\<not> staying present a"
      using prems(2) moved(7) by (auto simp: staying_def upright_def)
    moreover have "cell \<notin> ?S" using prems(2) moved(4) by blast
    ultimately have ih: "distinct (map c_position (filter upright as'))"
      "cell \<notin> c_position ` set (filter upright as')" "c_position ` set (filter upright as') \<inter> (taken - ?S) = {}"
      and out: "\<not> staying present a"
      using Cons.IH [OF moved(2) prems(1)] by blast+
    have "filter upright bs = a\<lparr>c_position := cell, c_withdrawn := False\<rparr> # filter upright as'"
      using moved(1,8,9) by (simp add: upright_def)
    with ih out moved(4) show ?thesis by auto
  next
    case (marked as' ch' owner)
    have "\<not> staying present a" "\<not> upright (a\<lparr>c_withdrawn := (owner \<notin> present)\<rparr>)"
      using marked(4-6) by (auto simp: staying_def upright_def)
    with Cons.IH [OF marked(2) prems(1,2)] marked(1) show ?thesis by simp
  qed
qed simp

text \<open>In the open nobody is turned away.\<close>

lemma reconcile_loop_in_open:
  assumes "finite taken" "int (card taken) + int (length as) < i32_max" "\<forall>a\<in>set as. in_i32 (pos_x (c_position a))"
  shows "\<exists>bs ch. reconcile_loop None present as taken = Ok (bs, ch)"
  using assms
proof (induction as arbitrary: taken)
  case (Cons a rest)
  have step: "\<exists>bs ch. reconcile_loop None present rest taken' = Ok (bs, ch)"
    if "finite taken'" "card taken' \<le> card taken + 1" for taken'
    by (rule Cons.IH) (use that Cons.prems in auto)
  have here: "\<exists>bs ch. reconcile_loop None present rest taken = Ok (bs, ch)" using step Cons.prems(1) by simp
  have there: "\<exists>bs ch. reconcile_loop None present rest (insert cell taken) = Ok (bs, ch)" for cell
    by (rule step) (use Cons.prems(1) card_insert_if [of taken cell] in auto)
  obtain cell where cell: "free_cell None taken (c_position a) = Some cell"
    using free_cell_in_open_exists [of taken "c_position a"] Cons.prems by (auto simp: free_cell_def)
  show ?case
  proof (cases "c_character_id a")
    case None
    with here show ?thesis by auto
  next
    case (Some owner)
    obtain bs1 ch1 where "reconcile_loop None present rest taken = Ok (bs1, ch1)" using here by blast
    moreover obtain bs2 ch2 where "reconcile_loop None present rest (insert cell taken) = Ok (bs2, ch2)" using there by blast
    moreover obtain bs3 ch3 where "reconcile_loop None present rest (insert (c_position a) taken) = Ok (bs3, ch3)"
      using there by blast
    ultimately show ?thesis using Some cell by (simp add: Let_def) blast
  qed
qed (simp, blast)

section \<open>The whole use case\<close>

lemma reconciled_same:
  assumes "reconciled present a b"
  shows "c_id b = c_id a" "c_character_id b = c_character_id a" "actor_ok b = actor_ok a"
    "c_current_hp b = c_current_hp a" "c_is_dead b = c_is_dead a"
proof -
  obtain pos w where "b = a\<lparr>c_position := pos, c_withdrawn := w\<rparr>" using assms by (auto simp: reconciled_def)
  then show "c_id b = c_id a" "c_character_id b = c_character_id a" "actor_ok b = actor_ok a"
    "c_current_hp b = c_current_hp a" "c_is_dead b = c_is_dead a"
    by (simp_all add: actor_ok_def vitals_ok_def)
qed

lemma reconciled_list:
  assumes "list_all2 (reconciled present) as bs"
  shows "map c_id bs = map c_id as" "(\<forall>b\<in>set bs. actor_ok b) \<longleftrightarrow> (\<forall>a\<in>set as. actor_ok a)"
    "b \<in> set bs \<Longrightarrow> \<exists>a\<in>set as. reconciled present a b"
  using assms
proof (induction rule: list_all2_induct)
  case (Cons a as b' bs)
  note r = reconciled_same [OF Cons.hyps(1)]
  { case 1 show ?case using Cons r by simp }
  { case 2 show ?case using Cons r by simp }
  { case 3 then show ?case using Cons by auto }
qed simp_all

lemma resume_encounter_cases:
  assumes rr: "sampler_ok rr" and ok: "encounter_ok p" and run: "resume_encounter rr sf p seed = res"
  shows "res \<noteq> Panic"
    and "res = Ok q \<Longrightarrow> \<exists>r s evs. open_engine sf p seed = Ok r \<and> resolver_evolves r s \<and> resolver_ok s
       \<and> stored_from p s evs False q"
proof -
  have pre: "\<forall>a\<in>set (sn_combatants (cj_snapshot p)). actor_ok a" "sn_round (cj_snapshot p) < 4294967296"
    "distinct (map ie_id (sn_initiative (cj_snapshot p)))"
    and maps: "\<And>ae. cj_authored p = Some ae \<Longrightarrow> valid_map (ae_map ae) \<and> (sn_active (cj_snapshot p) \<longrightarrow> ae_outcome ae = None)"
    using ok by (simp_all add: encounter_ok_def)
  note close = close_engine_cases [OF _ _ pre(3) maps]
  have "res \<noteq> Panic \<and> (\<forall>q. res = Ok q \<longrightarrow> (\<exists>r s evs. open_engine sf p seed = Ok r \<and> resolver_evolves r s
      \<and> resolver_ok s \<and> stored_from p s evs False q))"
  proof (cases "open_engine sf p seed")
    case (Ok r)
    note o = open_engine_cases [OF Ok pre(1,2)]
    have fin: ?thesis if "res = close_engine p s evs False" "resolver_evolves r s" for s evs
    proof -
      have "resolver_ok s" "io_entries (rs_order s) = sn_initiative (cj_snapshot p)"
        using resolver_evolves_ok [OF that(2) o(1)] that(2) o(6) by (simp_all add: resolver_evolves_def)
      from close [OF this, of evs False] this(1) that Ok show ?thesis by fastforce
    qed
    obtain e a where e: "order_current (rs_order r) = Some e" "actor_of r (ie_id e) = Some a"
      using current_actor [OF o(1)] .
    show ?thesis
    proof (cases "c_withdrawn a")
      case False
      then have "res = close_engine p r [] False" using run Ok e by (auto simp: resume_encounter_def)
      then show ?thesis by (rule fin [OF _ engine.refl])
    next
      case True
      obtain begun r1 where b: "begin_current_turn rr r = (begun, r1)" by fastforce
      obtain ev where ev: "begun = Ok ev" using begin_current_turn_cases(1) [OF o(1) b] by blast
      obtain res2 s where s: "settle_npcs_until rr (encounter_stop p) [ev] r1 = (res2, s)" by fastforce
      have e1: "resolver_evolves r r1" using begin_current_turn_evolves [of r rr] b by simp
      have stop: "rs_stop_round r1 = encounter_stop p" using e1 o(3) by (simp add: resolver_evolves_def)
      note c = settle_npcs_until_cases [OF rr resolver_evolves_ok [OF e1 o(1)] all_ranked_evolves [OF e1 o(2)] stop s]
      have res: "res = bind_res (map_err (\<lambda>_. InvalidState) res2) (\<lambda>evs. close_engine p s evs False)"
        using run Ok e True b ev s by (auto simp: resume_encounter_def)
      show ?thesis
      proof (cases res2)
        case (Ok evs)
        with res have "res = close_engine p s evs False" by simp
        then show ?thesis by (rule fin) (use c engine.trans [OF e1] in blast)
      qed (use res c in auto)
    qed
  qed (use run open_engine_no_panic in \<open>auto simp: resume_encounter_def\<close>)
  then show "res \<noteq> Panic"
    "res = Ok q \<Longrightarrow> \<exists>r s evs. open_engine sf p seed = Ok r \<and> resolver_evolves r s \<and> resolver_ok s
       \<and> stored_from p s evs False q" by blast+
qed

lemma reconcile_loop_no_panic: "reconcile_loop au present as taken \<noteq> Panic"
  by (induction as arbitrary: taken) (auto simp: bind_res_Panic Let_def split: option.splits)

lemma reconciled_ok:
  assumes ok: "encounter_ok p"
    and run: "reconcile_loop au present (sn_combatants (cj_snapshot p)) taken = Ok (actors, ch)"
  shows "encounter_ok (on_snapshot (\<lambda>sn. sn\<lparr>sn_combatants := actors\<rparr>) p)"
proof -
  have all: "list_all2 (reconciled present) (sn_combatants (cj_snapshot p)) actors"
    using reconcile_loop_each [OF run] by blast
  have "c_id ` set actors = c_id ` set (sn_combatants (cj_snapshot p))"
    using arg_cong [OF reconciled_list(1) [OF all], of set] by simp
  with ok reconciled_list(1,2) [OF all] show ?thesis by (simp add: encounter_ok_def on_snapshot_def)
qed

text \<open>Either nobody came or went, or the engine went on from the reconciled combatants.\<close>

lemma reconcile_cases:
  assumes rr: "sampler_ok rr" and ok: "encounter_ok p"
    and run: "reconcile_participants rr sf p present seed = res"
  shows "res \<noteq> Panic"
    and "res = Ok q \<Longrightarrow> \<exists>actors ch p'. p' = on_snapshot (\<lambda>sn. sn\<lparr>sn_combatants := actors\<rparr>) p \<and> encounter_ok p'
       \<and> reconcile_loop (cj_authored p) present (sn_combatants (cj_snapshot p)) (taken_cells p present) = Ok (actors, ch)
       \<and> (p' = p \<and> q = p \<or> (\<exists>r s evs. open_engine sf p' seed = Ok r \<and> resolver_evolves r s \<and> resolver_ok s
               \<and> stored_from p' s evs False q))"
proof -
  let ?loop = "reconcile_loop (cj_authored p) present (sn_combatants (cj_snapshot p)) (taken_cells p present)"
  let ?p = "\<lambda>actors. on_snapshot (\<lambda>sn. sn\<lparr>sn_combatants := actors\<rparr>) p"
  show "res \<noteq> Panic"
  proof
    assume "res = Panic"
    with run reconcile_loop_no_panic obtain actors where l: "?loop = Ok (actors, True)"
      "resume_encounter rr sf (?p actors) seed = Panic"
      by (auto simp: reconcile_participants_def bind_res_Panic Let_def split: if_splits)
    with resume_encounter_cases(1) [OF rr reconciled_ok [OF ok l(1)]] show False by blast
  qed
  assume "res = Ok q"
  with run obtain actors ch where l: "?loop = Ok (actors, ch)"
    "\<not> ch \<and> q = ?p actors \<or> ch \<and> resume_encounter rr sf (?p actors) seed = Ok q"
    unfolding reconcile_participants_def by (auto simp: bind_res_Ok Let_def split: if_splits)
  note ok' = reconciled_ok [OF ok l(1)]
  have same: "?p actors = p" if "\<not> ch" using reconcile_loop_each [OF l(1)] that by (simp add: on_snapshot_def)
  have "?p actors = p \<and> q = p \<or> (\<exists>r s evs. open_engine sf (?p actors) seed = Ok r \<and> resolver_evolves r s \<and> resolver_ok s
      \<and> stored_from (?p actors) s evs False q)"
  proof (cases ch)
    case True
    with l(2) have "resume_encounter rr sf (?p actors) seed = Ok q" by blast
    from resume_encounter_cases(2) [OF rr ok' refl this] show ?thesis by blast
  qed (use same l(2) in auto)
  with l(1) ok'
  show "\<exists>actors ch p'. p' = ?p actors \<and> encounter_ok p' \<and> ?loop = Ok (actors, ch)
       \<and> (p' = p \<and> q = p \<or> (\<exists>r s evs. open_engine sf p' seed = Ok r \<and> resolver_evolves r s \<and> resolver_ok s
               \<and> stored_from p' s evs False q))"
    by (intro exI [of _ actors] exI [of _ ch] exI [of _ "?p actors"] conjI refl)
qed

end
