(* ===== verification/Encounter_Properties.thy ===== *)
theory Encounter_Properties
  imports Participants Skirmish
begin

text \<open>
  What the combat use cases promise of a stored encounter: the monsters hand the turn back, a command
  leaves a well-formed encounter at a player's turn or ends it, the defense is decided once, heroes who
  leave and return keep the field consistent.
\<close>

section \<open>A stored encounter\<close>

definition demo_encounter :: combat_projection where
  "demo_encounter = (empty_projection 7 3)\<lparr>cj_snapshot := \<lparr>sn_active = True, sn_round = 1,
     sn_current_combatant = Some 1,
     sn_initiative = [\<lparr>ie_id = 1, ie_roll = 15, ie_dex_tiebreak = 2\<rparr>, \<lparr>ie_id = 2, ie_roll = 12, ie_dex_tiebreak = 1\<rparr>,
        \<lparr>ie_id = 3, ie_roll = 8, ie_dex_tiebreak = 0\<rparr>],
     sn_combatants = [demo_cleric, demo_rogue, demo_goblin]\<rparr>\<rparr>"

lemma demo_encounter_ok: "encounter_ok demo_encounter"
  by (simp add: encounter_ok_def demo_encounter_def demo_defs empty_projection_def empty_snapshot_def actor_ok_def
      vitals_ok_def)

section \<open>The monsters\<close>

text \<open>C27: the automatic turns come to an end by themselves: the loop never runs into its bound and never
  panics; it stops at the round limit, when no hero or no enemy stands, or with the turn of a hero; and when
  every monster has a melee weapon in hand it never fails at all.\<close>

theorem monsters_hand_the_turn_back:
  assumes "sampler_ok rr" "resolver_ok r" "all_ranked r" "rs_stop_round r = stop"
    "settle_npcs_until rr stop evs r = (res, s)"
  shows "resolver_ok s \<and> (res = Err ''combat_npc_action_rejected'' \<and> \<not> field_ready r
     \<or> (\<exists>evs'. res = Ok evs')
       \<and> (stop_reached stop s \<or> \<not> any_actor standing_hero s \<or> \<not> any_actor standing_enemy s \<or> hero_up s))"
proof -
  note c = settle_npcs_until_cases [OF assms]
  then have "resolver_ok s" using resolver_evolves_ok assms(2) by blast
  moreover have "e = ''combat_npc_cycle_invalid'' \<or> e = ''combat_npc_action_rejected''" if "res = Err e" for e
    using assms(5) that settle_loop_errors [of rr stop "order_len (rs_order r) + 1" evs r e s]
    by (simp add: settle_npcs_until_def split: if_splits)
  ultimately show ?thesis using c by (cases res) (auto simp: handed_back_def)
qed

theorem monsters_hand_the_turn_back_witness:
  "hero_up (snd (settle_npcs_until demo_rr None [] (demo_fight 2)))"
proof -
  obtain res s where run: "settle_npcs_until demo_rr None [] (demo_fight 2) = (res, s)" by fastforce
  have "all_ranked (demo_fight 2)" "rs_stop_round (demo_fight 2) = None" by code_simp+
  note c = monsters_hand_the_turn_back [OF demo_sampler demo_turns(3) this run]
  have "any_actor standing_hero (snd (settle_npcs_until demo_rr None [] (demo_fight 2)))"
    "any_actor standing_enemy (snd (settle_npcs_until demo_rr None [] (demo_fight 2)))"
    "succeeds (\<lambda>_. True) (settle_npcs_until demo_rr None [] (demo_fight 2))" by code_simp+
  with c run show ?thesis by (auto simp: stop_reached_def succeeds_def)
qed

section \<open>A command\<close>

text \<open>C28: a command never panics, and what it stores is again a well-formed encounter: the same fight under
  the next revision, with the same initiative and the same combatants, each of them evolved by the rules, so
  that the heroes stay bound to their characters.\<close>

theorem command_keeps_encounter:
  assumes "sampler_ok rr" "encounter_ok p" "prepare_action rr sf p command seed = res"
  shows "res \<noteq> Panic \<and> (\<forall>q. res = Ok q \<longrightarrow>
     sn_active (cj_snapshot p) \<and> encounter_ok q \<and> same_encounter p q
     \<and> cj_revision q = u64_add (cj_revision p) 1
     \<and> (\<forall>b\<in>set (sn_combatants (cj_snapshot q)). \<exists>a\<in>set (sn_combatants (cj_snapshot p)). combatant_evolves a b)
     \<and> c_id ` set (sn_combatants (cj_snapshot q)) = c_id ` set (sn_combatants (cj_snapshot p)))"
proof (intro conjI allI impI)
  show "res \<noteq> Panic" by (rule prepare_action_cases(1) [OF assms])
  fix q assume "res = Ok q"
  from prepare_action_cases(2) [OF assms this] obtain r s evs where
    run: "sn_active (cj_snapshot p)" "open_engine sf p seed = Ok r" "stored_from p s evs (is_retreat command) q"
    "resolver_evolves r s" by blast
  note st = run(3) [unfolded stored_from_def]
  show "sn_active (cj_snapshot p)" "encounter_ok q" "same_encounter p q" "cj_revision q = u64_add (cj_revision p) 1"
    using run(1) st by simp_all
  note origin = stored_from_back [OF assms(2) run(2,4,3)]
  show "\<forall>b\<in>set (sn_combatants (cj_snapshot q)). \<exists>a\<in>set (sn_combatants (cj_snapshot p)). combatant_evolves a b"
    by (rule origin)
  show "c_id ` set (sn_combatants (cj_snapshot q)) = c_id ` set (sn_combatants (cj_snapshot p))" by (rule origin)
qed

theorem command_keeps_encounter_witness:
  "\<exists>q. prepare_action demo_rr (\<lambda>x. x) demo_encounter (CmdMove 1 (at 1 0)) 5 = Ok q
     \<and> encounter_ok q \<and> cj_revision q = 4"
proof -
  have "case prepare_action demo_rr (\<lambda>x. x) demo_encounter (CmdMove 1 (at 1 0)) 5 of Ok q \<Rightarrow> True | _ \<Rightarrow> False"
    by code_simp
  then obtain q where q: "prepare_action demo_rr (\<lambda>x. x) demo_encounter (CmdMove 1 (at 1 0)) 5 = Ok q"
    by (auto split: res.splits)
  moreover have "cj_revision demo_encounter = 3" by code_simp
  ultimately show ?thesis
    using command_keeps_encounter [OF demo_sampler demo_encounter_ok q] by (auto simp: u64_add_def)
qed

text \<open>C29: the players never wait for a monster: while heroes take part, a command leaves the encounter
  either over or at the turn of a hero, with a hero and an enemy standing and, in the authored defense,
  before its fourth round and never after a retreat.\<close>

theorem after_a_command_a_hero_is_up:
  assumes "sampler_ok rr" "encounter_ok p" "prepare_action rr sf p command seed = Ok q" "sn_active (cj_snapshot q)"
    "\<exists>a\<in>set (sn_combatants (cj_snapshot q)). c_character_id a \<noteq> None"
  shows "(\<exists>a\<in>set (sn_combatants (cj_snapshot q)). sn_current_combatant (cj_snapshot q) = Some (c_id a) \<and> c_character_id a \<noteq> None)
     \<and> (\<exists>a\<in>set (sn_combatants (cj_snapshot q)). standing_hero a)
     \<and> (\<exists>a\<in>set (sn_combatants (cj_snapshot q)). standing_enemy a)
     \<and> (cj_authored p \<noteq> None \<longrightarrow> sn_round (cj_snapshot q) < 4 \<and> \<not> is_retreat command)"
proof -
  from prepare_action_cases(2) [OF assms(1,2) refl assms(3)] obtain r s evs where
    run: "open_engine sf p seed = Ok r" "stored_from p s evs (is_retreat command) q"
    "resolver_ok s" "resolver_evolves r s" "handed_back (encounter_stop p) s" by blast
  have ents: "io_entries (rs_order s) = sn_initiative (cj_snapshot p)"
    using run(4) open_engine_cases(6) [OF run(1)] assms(2) by (simp add: resolver_evolves_def encounter_ok_def)
  from stored_from_hero_up [OF run(3,5,2) ents assms(4,5)] show ?thesis .
qed

theorem after_a_command_a_hero_is_up_witness:
  "\<exists>q. prepare_action demo_rr (\<lambda>x. x) demo_encounter (CmdEndTurn 1) 5 = Ok q
     \<and> (\<exists>a\<in>set (sn_combatants (cj_snapshot q)). sn_current_combatant (cj_snapshot q) = Some (c_id a)
          \<and> c_character_id a \<noteq> None)"
proof -
  have "case prepare_action demo_rr (\<lambda>x. x) demo_encounter (CmdEndTurn 1) 5 of
      Ok q \<Rightarrow> sn_active (cj_snapshot q) \<and> list_ex (\<lambda>a. c_character_id a \<noteq> None) (sn_combatants (cj_snapshot q)) | _ \<Rightarrow> False"
    by code_simp
  then obtain q where q: "prepare_action demo_rr (\<lambda>x. x) demo_encounter (CmdEndTurn 1) 5 = Ok q"
    "sn_active (cj_snapshot q)" "\<exists>a\<in>set (sn_combatants (cj_snapshot q)). c_character_id a \<noteq> None"
    by (auto simp: list_ex_iff split: res.splits)
  with after_a_command_a_hero_is_up [OF demo_sampler demo_encounter_ok q] show ?thesis by blast
qed

section \<open>The authored defense\<close>

definition demo_archive :: combat_projection where
  "demo_archive = demo_encounter\<lparr>cj_authored := Some \<lparr>ae_map_skin_asset_id = None, ae_kind = BellArchiveDefense,
     ae_map = demo_map\<lparr>bm_exits := [at 1 1]\<rparr>, ae_outcome = None\<rparr>\<rparr>"

lemma demo_archive_ok: "encounter_ok demo_archive"
  using demo_encounter_ok
  by (simp add: encounter_ok_def demo_archive_def demo_map_def valid_map_def inside_def walkable_def at_def)



section \<open>Heroes who leave and return\<close>



text \<open>C32: nobody returns onto an occupied cell: when the upright participants stood on cells of their own,
  they do so after the reconciliation, those who returned included, and only a returning hero was moved; and
  outside the authored defense there is always a free cell for it, so the reconciliation does not fail.\<close>

theorem returning_hero_finds_a_free_cell:
  assumes "distinct (map c_position (filter (staying present) (sn_combatants (cj_snapshot p))))"
    "\<forall>a\<in>set (sn_combatants (cj_snapshot p)). in_i32 (pos_x (c_position a))"
    "int (length (sn_combatants (cj_snapshot p))) * 2 < i32_max"
  shows "(\<forall>bs ch. reconcile_loop (cj_authored p) present (sn_combatants (cj_snapshot p)) (taken_cells p present) = Ok (bs, ch)
            \<longrightarrow> distinct (map c_position (filter upright bs))
              \<and> list_all2 (\<lambda>a b. c_position b = c_position a \<or> c_withdrawn a \<and> upright b) (sn_combatants (cj_snapshot p)) bs)
     \<and> (cj_authored p = None \<longrightarrow>
          (\<exists>bs ch. reconcile_loop None present (sn_combatants (cj_snapshot p)) (taken_cells p present) = Ok (bs, ch)))"
proof (intro conjI allI impI)
  have taken: "taken_cells p present = c_position ` set (filter (staying present) (sn_combatants (cj_snapshot p)))"
    unfolding taken_cells_def staying_def upright_def set_map conj_assoc ..
  fix bs ch
  assume run: "reconcile_loop (cj_authored p) present (sn_combatants (cj_snapshot p)) (taken_cells p present) = Ok (bs, ch)"
  show "distinct (map c_position (filter upright bs))" using reconcile_loop_cells [OF run assms(1)] taken by simp
  have "list_all2 (reconciled present) (sn_combatants (cj_snapshot p)) bs" using reconcile_loop_each [OF run] by blast
  then show "list_all2 (\<lambda>a b. c_position b = c_position a \<or> c_withdrawn a \<and> upright b) (sn_combatants (cj_snapshot p)) bs"
    by (rule list_all2_mono) (auto simp: reconciled_def)
next
  have taken: "taken_cells p present = c_position ` set (filter (staying present) (sn_combatants (cj_snapshot p)))"
    unfolding taken_cells_def staying_def upright_def set_map conj_assoc ..
  have "card (taken_cells p present) \<le> length (sn_combatants (cj_snapshot p))"
    unfolding taken set_map [symmetric] by (rule order_trans [OF card_length]) simp
  then show "\<exists>bs ch. reconcile_loop None present (sn_combatants (cj_snapshot p)) (taken_cells p present) = Ok (bs, ch)"
    by (intro reconcile_loop_in_open) (use assms(2,3) taken in simp_all)
qed


text \<open>The cleric has left, the rogue stands where she stood, and she returns.\<close>

definition demo_rejoin :: combat_projection where
  "demo_rejoin = demo_encounter\<lparr>cj_snapshot := (cj_snapshot demo_encounter)\<lparr>sn_combatants :=
     [demo_cleric\<lparr>c_withdrawn := True\<rparr>, demo_rogue\<lparr>c_position := c_position demo_cleric\<rparr>, demo_goblin]\<rparr>\<rparr>"

theorem returning_hero_finds_a_free_cell_witness:
  "\<exists>bs ch. reconcile_loop None {11, 12} (sn_combatants (cj_snapshot demo_rejoin)) (taken_cells demo_rejoin {11, 12}) = Ok (bs, ch)
     \<and> distinct (map c_position (filter upright bs))"
proof -
  have none: "cj_authored demo_rejoin = None" by (simp add: demo_rejoin_def demo_encounter_def empty_projection_def)
  have "distinct (map c_position (filter (staying {11, 12}) (sn_combatants (cj_snapshot demo_rejoin))))" by code_simp
  moreover have "list_all (\<lambda>a. in_i32 (pos_x (c_position a))) (sn_combatants (cj_snapshot demo_rejoin))"
    "int (length (sn_combatants (cj_snapshot demo_rejoin))) * 2 < i32_max" by code_simp+
  ultimately show ?thesis
    using returning_hero_finds_a_free_cell [of "{11, 12}" demo_rejoin] none by (simp add: list_all_iff) blast
qed

end
