(* ===== verification/Vitality.thy ===== *)
theory Vitality
  imports Json Combatant
begin

text \<open>
  \<^verbatim>\<open>crates/app-application/src/vitality.rs\<close>: the part of a hero's sheet that only the server
  writes: death saves, conditions, death, and the deadline of a natural recovery. The derived
  (de)serialization of the structs involved is written out from their fields and attributes. A function
  with a \<open>&mut Value\<close> returns the new sheet; on an error the sheet keeps its value.
\<close>

section \<open>The record and its JSON form\<close>

record hero_vitality =
  hv_character_id :: uuid
  hv_combatant_id :: combatant_id
  hv_death_saves :: death_saves
  hv_conditions :: "condition list"
  hv_is_dead :: bool
  hv_natural_recovery :: "natural_recovery option"

definition condition_value :: "condition \<Rightarrow> json" where
  "condition_value c = JStr (condition_display c)"

definition all_conditions :: "condition list" where
  "all_conditions = [Prone, Grappled, Frightened, Poisoned, Unconscious, Blinded]"

definition condition_of :: "json \<Rightarrow> condition option" where
  "condition_of j = Option.bind (variant_name j) (\<lambda>s. find (\<lambda>c. condition_display c = s) all_conditions)"

definition death_saves_value :: "death_saves \<Rightarrow> json" where
  "death_saves_value s = JObj [(''successes'', JInt (int (sv_successes s))), (''failures'', JInt (int (sv_failures s))),
     (''stable'', JBool (sv_stable s))]"

definition death_saves_of :: "json \<Rightarrow> death_saves option" where
  "death_saves_of j =
     (case struct_fields False [''successes'', ''failures'', ''stable''] j of
        Some [a, b, c] \<Rightarrow>
          Option.bind (required (unsigned_of 8) a) (\<lambda>successes.
          Option.bind (required (unsigned_of 8) b) (\<lambda>failures.
          Option.bind (required bool_of c) (\<lambda>stable.
          Some \<lparr>sv_successes = successes, sv_failures = failures, sv_stable = stable\<rparr>)))
      | _ \<Rightarrow> None)"

definition natural_recovery_value :: "uuid_codec \<Rightarrow> natural_recovery \<Rightarrow> json" where
  "natural_recovery_value u n = JObj [(''combatant'', JStr (uuid_text u (nr_combatant n))),
     (''started_at_seconds'', JInt (int (nr_started_at_seconds n))),
     (''ready_at_seconds'', JInt (int (nr_ready_at_seconds n)))]"

definition natural_recovery_of :: "uuid_codec \<Rightarrow> json \<Rightarrow> natural_recovery option" where
  "natural_recovery_of u j =
     (case struct_fields True [''combatant'', ''started_at_seconds'', ''ready_at_seconds''] j of
        Some [a, b, c] \<Rightarrow>
          Option.bind (required (uuid_of u) a) (\<lambda>combatant.
          Option.bind (required (unsigned_of 64) b) (\<lambda>started.
          Option.bind (required (unsigned_of 64) c) (\<lambda>ready.
          Some \<lparr>nr_combatant = combatant, nr_started_at_seconds = started, nr_ready_at_seconds = ready\<rparr>)))
      | _ \<Rightarrow> None)"

definition vitality_value :: "uuid_codec \<Rightarrow> hero_vitality \<Rightarrow> json" where
  "vitality_value u v = JObj [
     (''character_id'', JStr (uuid_text u (hv_character_id v))),
     (''combatant_id'', JStr (uuid_text u (hv_combatant_id v))),
     (''death_saves'', death_saves_value (hv_death_saves v)),
     (''conditions'', JArr (map condition_value (hv_conditions v))),
     (''is_dead'', JBool (hv_is_dead v)),
     (''natural_recovery'', json_option (natural_recovery_value u) (hv_natural_recovery v))]"

definition vitality_of :: "uuid_codec \<Rightarrow> json \<Rightarrow> hero_vitality option" where
  "vitality_of u j =
     (case struct_fields True [''character_id'', ''combatant_id'', ''death_saves'', ''conditions'', ''is_dead'',
             ''natural_recovery''] j of
        Some [a, b, c, d, e, f] \<Rightarrow>
          Option.bind (required (uuid_of u) a) (\<lambda>character_id.
          Option.bind (required (uuid_of u) b) (\<lambda>combatant_id.
          Option.bind (required death_saves_of c) (\<lambda>death_saves.
          Option.bind (required (vec_of condition_of) d) (\<lambda>conditions.
          Option.bind (required bool_of e) (\<lambda>is_dead.
          Option.bind (optional (natural_recovery_of u) f) (\<lambda>natural_recovery.
          Some \<lparr>hv_character_id = character_id, hv_combatant_id = combatant_id, hv_death_saves = death_saves,
             hv_conditions = conditions, hv_is_dead = is_dead, hv_natural_recovery = natural_recovery\<rparr>))))))
      | _ \<Rightarrow> None)"

section \<open>Reading\<close>

definition invalid_vitality :: "uuid \<Rightarrow> i64 \<Rightarrow> hero_vitality \<Rightarrow> bool" where
  "invalid_vitality character_id hp state \<longleftrightarrow>
     is_nil character_id
     \<or> hv_character_id state \<noteq> character_id
     \<or> is_nil (hv_combatant_id state)
     \<or> sv_successes (hv_death_saves state) > 2
     \<or> sv_failures (hv_death_saves state) > 3
     \<or> sv_failures (hv_death_saves state) = 3 \<and> \<not> hv_is_dead state
     \<or> hv_is_dead state \<and> (hp \<noteq> 0 \<or> sv_stable (hv_death_saves state))
     \<or> sv_stable (hv_death_saves state)
         \<and> (hp \<noteq> 0 \<or> sv_successes (hv_death_saves state) \<noteq> 0 \<or> sv_failures (hv_death_saves state) \<noteq> 0)
     \<or> hp > 0 \<and> (sv_successes (hv_death_saves state) \<noteq> 0 \<or> sv_failures (hv_death_saves state) \<noteq> 0)
     \<or> card (set (hv_conditions state)) \<noteq> length (hv_conditions state)"

definition invalid_deadline :: "hero_vitality \<Rightarrow> i64 \<Rightarrow> natural_recovery \<Rightarrow> u64 \<Rightarrow> bool" where
  "invalid_deadline state hp deadline duration \<longleftrightarrow>
     \<not> sv_stable (hv_death_saves state) \<or> hv_is_dead state \<or> hp \<noteq> 0
     \<or> nr_combatant deadline \<noteq> hv_combatant_id state
     \<or> duration \<notin> set [3600, 7200, 10800, 14400]
     \<or> nr_ready_at_seconds deadline > i64_max_u64"

definition stored_vitality :: "json \<Rightarrow> json option" where
  "stored_vitality sheet = Option.bind (json_get sheet ''combatResources'') (\<lambda>r. json_get r ''vitality'')"

definition read_vitality :: "uuid_codec \<Rightarrow> json \<Rightarrow> uuid \<Rightarrow> (string, hero_vitality option) res" where
  "read_vitality u sheet character_id =
     (case stored_vitality sheet of
        None \<Rightarrow> Ok None
      | Some raw \<Rightarrow>
          bind_res (ok_or (vitality_of u raw) ''hero_vitality_invalid'') (\<lambda>state.
          bind_res (ok_or (as_i64 (json_index sheet ''hp'')) ''hero_vitality_invalid'') (\<lambda>hp.
          bind_res (ok_or (as_i64 (json_index sheet ''hpMax'')) ''hero_vitality_invalid'') (\<lambda>max_hp.
          bind_res (reject_if (max_hp \<le> 0 \<or> max_hp > i32_max \<or> hp < 0 \<or> hp > max_hp) ''hero_vitality_invalid'') (\<lambda>_.
          bind_res (reject_if (case json_get sheet ''characterId'' of
                None \<Rightarrow> False | Some i \<Rightarrow> uuid_of u i \<noteq> Some character_id)
              ''hero_vitality_identity_mismatch'') (\<lambda>_.
          bind_res (reject_if (invalid_vitality character_id hp state) ''hero_vitality_invalid'') (\<lambda>_.
          case hv_natural_recovery state of
            None \<Rightarrow> Ok (Some state)
          | Some deadline \<Rightarrow>
              bind_res (ok_or (u64_checked_sub (nr_ready_at_seconds deadline) (nr_started_at_seconds deadline))
                 ''hero_vitality_invalid'') (\<lambda>duration.
              bind_res (reject_if (invalid_deadline state hp deadline duration) ''hero_vitality_invalid'') (\<lambda>_.
              Ok (Some state))))))))))"

definition restore_actor :: "uuid_codec \<Rightarrow> json \<Rightarrow> uuid \<Rightarrow> combatant \<Rightarrow> (string, combatant) res" where
  "restore_actor u sheet character_id actor =
     bind_res (reject_if (c_character_id actor \<noteq> Some character_id) ''hero_vitality_identity_mismatch'') (\<lambda>_.
     bind_res (read_vitality u sheet character_id) (\<lambda>found.
     let actor1 = (case found of
           None \<Rightarrow> actor
         | Some state \<Rightarrow> actor\<lparr>c_death_saves := hv_death_saves state, c_is_dead := hv_is_dead state,
             c_conditions := set (hv_conditions state)\<rparr>)
     in Ok (if c_current_hp actor1 = 0 then add_condition Unconscious actor1 else actor1)))"

section \<open>Writing\<close>

definition write_vitality :: "uuid_codec \<Rightarrow> hero_vitality \<Rightarrow> json \<Rightarrow> ('e, json) res" where
  "write_vitality u state sheet =
     bind_res (case json_get sheet ''combatResources'' of
         Some (JObj _) \<Rightarrow> Ok sheet
       | _ \<Rightarrow> json_set ''combatResources'' (JObj []) sheet)
       (json_update ''combatResources'' (json_set ''vitality'' (vitality_value u state)))"

text \<open>The conditions of an actor, sorted by their names.\<close>

definition sorted_conditions :: "condition set \<Rightarrow> condition list" where
  "sorted_conditions cs = filter (\<lambda>c. c \<in> cs) [Blinded, Frightened, Grappled, Poisoned, Prone, Unconscious]"

definition vitality_from :: "uuid \<Rightarrow> combatant \<Rightarrow> hero_vitality option \<Rightarrow> hero_vitality" where
  "vitality_from character_id actor previous =
     (let kept = Option.bind previous hv_natural_recovery;
          recovery = (if c_current_hp actor > 0 \<or> c_is_dead actor \<or> \<not> sv_stable (c_death_saves actor) then None
            else map_option (\<lambda>d. d\<lparr>nr_combatant := c_id actor\<rparr>) kept);
          conditions = (if c_current_hp actor = 0 then insert Unconscious (c_conditions actor) else c_conditions actor)
      in \<lparr>hv_character_id = character_id, hv_combatant_id = c_id actor, hv_death_saves = c_death_saves actor,
          hv_conditions = sorted_conditions conditions, hv_is_dead = c_is_dead actor,
          hv_natural_recovery = recovery\<rparr>)"

definition store_actor :: "uuid_codec \<Rightarrow> combatant \<Rightarrow> json \<Rightarrow> (string, json) res" where
  "store_actor u actor sheet =
     bind_res (ok_or (c_character_id actor) ''hero_vitality_identity_mismatch'') (\<lambda>character_id.
     bind_res (read_vitality u sheet character_id) (\<lambda>previous.
     bind_res (json_set ''hp'' (JInt (c_current_hp actor)) sheet) (\<lambda>c1.
     bind_res (json_set ''characterId'' (JStr (uuid_text u character_id)) c1) (\<lambda>c2.
     bind_res (write_vitality u (vitality_from character_id actor previous) c2) (\<lambda>candidate.
     bind_res (read_vitality u candidate character_id) (\<lambda>_. Ok candidate))))))"

definition clear_after_healing :: "uuid_codec \<Rightarrow> i32 \<Rightarrow> json \<Rightarrow> (string, json) res" where
  "clear_after_healing u hp_after sheet =
     (case stored_vitality sheet of
        None \<Rightarrow> Ok sheet
      | Some _ \<Rightarrow>
          bind_res (ok_or (Option.bind (json_get sheet ''characterId'') (uuid_of u)) ''hero_vitality_identity_mismatch'')
            (\<lambda>character_id.
          bind_res (read_vitality u sheet character_id) (\<lambda>found.
          bind_res (ok_or found ''hero_vitality_invalid'') (\<lambda>state.
          bind_res (ok_or (as_i64 (json_index sheet ''hp'')) ''hero_vitality_invalid'') (\<lambda>hp.
          if hp_after > hp then
            bind_res (reject_if (hv_is_dead state) ''hero_dead'') (\<lambda>_.
            write_vitality u (state\<lparr>hv_death_saves := new_death_saves, hv_natural_recovery := None,
              hv_conditions := filter (\<lambda>c. c \<noteq> Unconscious) (hv_conditions state)\<rparr>) sheet)
          else Ok sheet)))))"

definition schedule_natural_recovery :: "uuid_codec \<Rightarrow> uuid \<Rightarrow> natural_recovery \<Rightarrow> json \<Rightarrow> (string, json) res" where
  "schedule_natural_recovery u character_id deadline sheet =
     bind_res (read_vitality u sheet character_id) (\<lambda>found.
     bind_res (ok_or found ''hero_vitality_invalid'') (\<lambda>state.
     case hv_natural_recovery state of
       Some existing \<Rightarrow> if existing = deadline then Ok sheet else Err ''hero_recovery_already_scheduled''
     | None \<Rightarrow>
         bind_res (write_vitality u (state\<lparr>hv_natural_recovery := Some deadline\<rparr>) sheet) (\<lambda>candidate.
         bind_res (read_vitality u candidate character_id) (\<lambda>_. Ok candidate))))"

definition strip_client_state :: "json \<Rightarrow> json" where
  "strip_client_state sheet =
     (case sheet of
        JObj t \<Rightarrow>
          JObj (table_modify ''combatResources'' (\<lambda>r. case r of JObj v \<Rightarrow> JObj (json_remove ''vitality'' v) | _ \<Rightarrow> r) t)
      | _ \<Rightarrow> sheet)"

section \<open>Reading back what was written\<close>

lemma condition_of_value: "condition_of (condition_value c) = Some c"
  by (cases c) (simp_all add: condition_of_def condition_value_def variant_name_def all_conditions_def)

interpretation conditions: codec condition_value condition_of "\<lambda>_. True"
  by unfold_locales (simp add: condition_of_value)

lemma death_saves_of_value:
  "death_saves_of (death_saves_value s) = (if sv_successes s < 256 \<and> sv_failures s < 256 then Some s else None)"
  by (simp add: death_saves_of_def death_saves_value_def struct_fields_def required_def table_get_def)

lemma natural_recovery_of_value:
  assumes "uuid_codec_ok u"
  shows "natural_recovery_of u (natural_recovery_value u n) =
     (if nr_started_at_seconds n < 2 ^ 64 \<and> nr_ready_at_seconds n < 2 ^ 64 then Some n else None)"
  using assms
  by (simp add: natural_recovery_of_def natural_recovery_value_def struct_fields_def required_def table_get_def)

definition storable :: "hero_vitality \<Rightarrow> bool" where
  "storable v \<longleftrightarrow> sv_successes (hv_death_saves v) < 256 \<and> sv_failures (hv_death_saves v) < 256
     \<and> (\<forall>n. hv_natural_recovery v = Some n \<longrightarrow> nr_started_at_seconds n < 2 ^ 64 \<and> nr_ready_at_seconds n < 2 ^ 64)"

lemma natural_recovery_not_null: "natural_recovery_value u n \<noteq> JNull"
  by (simp add: natural_recovery_value_def)

lemma vitality_of_value:
  assumes "uuid_codec_ok u"
  shows "vitality_of u (vitality_value u v) = (if storable v then Some v else None)"
proof -
  have conds: "vec_of condition_of (JArr (map condition_value (hv_conditions v))) = Some (hv_conditions v)"
    by (rule conditions.vec_dec_enc) (simp add: list_all_iff)
  have "option_of (natural_recovery_of u) (json_option (natural_recovery_value u) (hv_natural_recovery v)) =
      (if \<forall>n. hv_natural_recovery v = Some n \<longrightarrow> nr_started_at_seconds n < 2 ^ 64 \<and> nr_ready_at_seconds n < 2 ^ 64
       then Some (hv_natural_recovery v) else None)"
    using natural_recovery_not_null [of u]
    by (cases "hv_natural_recovery v")
      (simp_all add: json_option_def option_of_def natural_recovery_of_value [OF assms])
  with assms conds show ?thesis
    by (simp add: vitality_of_def vitality_value_def struct_fields_def required_def optional_def table_get_def
        death_saves_of_value storable_def)
qed

interpretation vitalities: codec "vitality_value u" "vitality_of u" "\<lambda>v. uuid_codec_ok u \<and> storable v"
  by unfold_locales (simp add: vitality_of_value)

section \<open>Coherent sheets\<close>

text \<open>What a successful reading guarantees.\<close>

definition coherent_vitality :: "uuid_codec \<Rightarrow> uuid \<Rightarrow> json \<Rightarrow> hero_vitality \<Rightarrow> bool" where
  "coherent_vitality u character_id sheet v \<longleftrightarrow>
     (\<exists>hp max_hp. as_i64 (json_index sheet ''hp'') = Some hp \<and> as_i64 (json_index sheet ''hpMax'') = Some max_hp
       \<and> 0 < max_hp \<and> max_hp \<le> i32_max \<and> 0 \<le> hp \<and> hp \<le> max_hp
       \<and> (\<forall>i. json_get sheet ''characterId'' = Some i \<longrightarrow> uuid_of u i = Some character_id)
       \<and> \<not> invalid_vitality character_id hp v
       \<and> (\<forall>d. hv_natural_recovery v = Some d \<longrightarrow> nr_started_at_seconds d \<le> nr_ready_at_seconds d
            \<and> \<not> invalid_deadline v hp d (nr_ready_at_seconds d - nr_started_at_seconds d)))"

lemma u64_checked_sub_iff: "u64_checked_sub a b = Some d \<longleftrightarrow> b \<le> a \<and> d = a - b"
  by (auto simp: u64_checked_sub_def)

lemma read_vitality_Some:
  "read_vitality u sheet i = Ok (Some v) \<longleftrightarrow>
     (\<exists>raw. stored_vitality sheet = Some raw \<and> vitality_of u raw = Some v \<and> coherent_vitality u i sheet v)"
  unfolding read_vitality_def coherent_vitality_def
  by (cases "hv_natural_recovery v")
    (auto simp: bind_res_Ok not_le not_less u64_checked_sub_iff split: option.splits)

lemma read_vitality_None: "read_vitality u sheet i = Ok None \<longleftrightarrow> stored_vitality sheet = None"
  by (auto simp: read_vitality_def bind_res_Ok split: option.splits)

lemma read_vitality_no_Panic [simp]: "read_vitality u sheet i \<noteq> Panic"
  by (auto simp: read_vitality_def bind_res_Panic split: option.splits)

lemma coherent_cong:
  "(\<And>k. k \<in> {''hp'', ''hpMax'', ''characterId''} \<Longrightarrow> json_get s k = json_get t k) \<Longrightarrow>
     coherent_vitality u i s v = coherent_vitality u i t v"
  by (simp add: coherent_vitality_def json_index_def)

lemma read_vitality_cong:
  assumes "json_get s ''combatResources'' = json_get t ''combatResources''" "json_get s ''hp'' = json_get t ''hp''"
    "json_get s ''hpMax'' = json_get t ''hpMax''" "json_get s ''characterId'' = json_get t ''characterId''"
  shows "read_vitality u s i = read_vitality u t i"
  unfolding read_vitality_def stored_vitality_def json_index_def assms ..

section \<open>Writing\<close>

lemma write_vitality_Ok:
  assumes "write_vitality u v sheet = Ok sheet'"
  shows "stored_vitality sheet' = Some (vitality_value u v)" "is_object sheet'"
    "k \<noteq> ''combatResources'' \<Longrightarrow> json_get sheet' k = json_get sheet k"
    "Option.bind (json_get sheet ''combatResources'') as_object = Some r \<Longrightarrow> l \<noteq> ''vitality'' \<Longrightarrow>
       Option.bind (json_get sheet' ''combatResources'') (\<lambda>r. json_get r l) = table_get r l"
proof -
  obtain s1 r1 where s1: "(case json_get sheet ''combatResources'' of Some (JObj _) \<Rightarrow> Ok sheet
       | _ \<Rightarrow> json_set ''combatResources'' (JObj []) sheet) = (Ok s1 :: ('a, json) res)"
    and r1: "json_set ''vitality'' (vitality_value u v) (json_index s1 ''combatResources'') = (Ok r1 :: ('a, json) res)"
    and s2: "json_set ''combatResources'' r1 s1 = (Ok sheet' :: ('a, json) res)"
    using assms unfolding write_vitality_def json_update_def by (auto simp: bind_res_Ok)
  note s2' = json_set_Ok [OF s2] and r1' = json_set_Ok [OF r1]
  show "stored_vitality sheet' = Some (vitality_value u v)" by (simp add: stored_vitality_def s2' r1')
  show "is_object sheet'" by (rule s2')
  have keep: "json_get s1 k = json_get sheet k" if "k \<noteq> ''combatResources''" for k
    using s1 that by (auto simp: json_set_Ok(1) split: option.splits json.splits)
  then show "k \<noteq> ''combatResources'' \<Longrightarrow> json_get sheet' k = json_get sheet k" by (simp add: s2')
  assume "Option.bind (json_get sheet ''combatResources'') as_object = Some r" "l \<noteq> ''vitality''"
  then have "json_get sheet ''combatResources'' = Some (JObj r)" by (auto simp: bind_eq_Some_conv as_object_iff)
  with s1 have "json_index s1 ''combatResources'' = JObj r" by (simp add: json_index_def)
  with \<open>l \<noteq> ''vitality''\<close> show "Option.bind (json_get sheet' ''combatResources'') (\<lambda>r. json_get r l) = table_get r l"
    by (simp add: s2' r1')
qed

lemma write_vitality_total:
  assumes "is_object sheet"
  shows "\<exists>sheet'. write_vitality u v sheet = (Ok sheet' :: ('e, json) res)"
proof -
  have "\<exists>s1. (case json_get sheet ''combatResources'' of Some (JObj _) \<Rightarrow> Ok sheet
       | _ \<Rightarrow> json_set ''combatResources'' (JObj []) sheet) = (Ok s1 :: ('e, json) res)
     \<and> is_object s1 \<and> is_object (json_index s1 ''combatResources'')" (is "\<exists>s1. ?first = _ \<and> _")
  proof (cases "\<exists>r. json_get sheet ''combatResources'' = Some (JObj r)")
    case True
    with assms show ?thesis by (auto simp: json_index_def)
  next
    case False
    then have "?first = json_set ''combatResources'' (JObj []) sheet" by (auto split: option.splits json.splits)
    moreover obtain s1 where s1: "json_set ''combatResources'' (JObj []) sheet = (Ok s1 :: ('e, json) res)"
      using json_set_object [OF assms] by blast
    ultimately show ?thesis using json_set_Ok(2,3) [OF s1] by simp
  qed
  then obtain s1 where s1: "?first = Ok s1" "is_object s1" "is_object (json_index s1 ''combatResources'')" by blast
  obtain r1 where "json_set ''vitality'' (vitality_value u v) (json_index s1 ''combatResources'') = (Ok r1 :: ('e, json) res)"
    using json_set_object [OF s1(3)] by blast
  moreover obtain s2 where "json_set ''combatResources'' r1 s1 = (Ok s2 :: ('e, json) res)"
    using json_set_object [OF s1(2)] by blast
  ultimately show ?thesis using s1(1) by (simp add: write_vitality_def json_update_def)
qed

lemma sorted_conditions_set [simp]: "set (sorted_conditions cs) = cs"
proof (rule set_eqI)
  show "c \<in> set (sorted_conditions cs) \<longleftrightarrow> c \<in> cs" for c by (cases c) (simp_all add: sorted_conditions_def)
qed

lemma sorted_conditions_distinct [simp]: "distinct (sorted_conditions cs)"
  by (simp add: sorted_conditions_def)

lemma sorted_conditions_sorted: "sorted_wrt (\<lambda>c d. (condition_display c, condition_display d) \<in> lexord {(a, b). byte a < byte b})
    (sorted_conditions cs)"
  by (simp add: sorted_conditions_def byte_def)

section \<open>Storing a combatant\<close>

lemma store_actor_cases:
  assumes u: "uuid_codec_ok u" and run: "store_actor u actor sheet = Ok sheet'"
  obtains i previous where "c_character_id actor = Some i" "read_vitality u sheet i = Ok previous"
    "read_vitality u sheet' i = Ok (Some (vitality_from i actor previous))" "is_object sheet'"
    "\<And>k. k \<noteq> ''combatResources'' \<Longrightarrow> json_get sheet' k =
       (if k = ''hp'' then Some (JInt (c_current_hp actor)) else if k = ''characterId'' then Some (JStr (uuid_text u i))
        else json_get sheet k)"
    "\<And>r l. Option.bind (json_get sheet ''combatResources'') as_object = Some r \<Longrightarrow> l \<noteq> ''vitality'' \<Longrightarrow>
       Option.bind (json_get sheet' ''combatResources'') (\<lambda>r. json_get r l) = table_get r l"
proof -
  obtain i previous c1 c2 found where p: "c_character_id actor = Some i" "read_vitality u sheet i = Ok previous"
    "json_set ''hp'' (JInt (c_current_hp actor)) sheet = (Ok c1 :: (string, json) res)"
    "json_set ''characterId'' (JStr (uuid_text u i)) c1 = (Ok c2 :: (string, json) res)"
    "write_vitality u (vitality_from i actor previous) c2 = (Ok sheet' :: (string, json) res)"
    "read_vitality u sheet' i = Ok found"
    using run by (auto simp: store_actor_def bind_res_Ok)
  note w = write_vitality_Ok [OF p(5)]
  have "found \<noteq> None"
  proof
    assume "found = None"
    with p(6) have "stored_vitality sheet' = None" by (simp only: read_vitality_None)
    with w(1) show False by simp
  qed
  then obtain v where v: "found = Some v" by blast
  with p(6) read_vitality_Some w(1) have "vitality_of u (vitality_value u (vitality_from i actor previous)) = Some v" by force
  then have "v = vitality_from i actor previous" by (simp add: vitality_of_value [OF u] split: if_splits)
  with p(6) v have again: "read_vitality u sheet' i = Ok (Some (vitality_from i actor previous))" by simp
  have get: "json_get c2 k = (if k = ''characterId'' then Some (JStr (uuid_text u i))
       else if k = ''hp'' then Some (JInt (c_current_hp actor)) else json_get sheet k)" for k
    by (simp add: json_set_Ok(1) [OF p(4)] json_set_Ok(1) [OF p(3)])
  show ?thesis
  proof (rule that [OF p(1,2) again w(2)])
    show "json_get sheet' k = (if k = ''hp'' then Some (JInt (c_current_hp actor)) else if k = ''characterId''
        then Some (JStr (uuid_text u i)) else json_get sheet k)" if "k \<noteq> ''combatResources''" for k
      using w(3) [OF that] get by simp
    show "Option.bind (json_get sheet' ''combatResources'') (\<lambda>r. json_get r l) = table_get r l"
      if "Option.bind (json_get sheet ''combatResources'') as_object = Some r" "l \<noteq> ''vitality''" for r l
      by (rule w(4)) (use that get in simp_all)
  qed
qed

text \<open>Vitals the engine keeps are vitals the sheet accepts.\<close>

lemma vitality_from_valid:
  assumes v: "vitals_ok actor" and ids: "\<not> is_nil i" "\<not> is_nil (c_id actor)"
    and prev: "\<And>p. previous = Some p \<Longrightarrow> \<exists>sheet. coherent_vitality u i sheet p"
  shows "\<not> invalid_vitality i (c_current_hp actor) (vitality_from i actor previous)"
    and "hv_natural_recovery (vitality_from i actor previous) = Some d \<Longrightarrow>
       nr_started_at_seconds d \<le> nr_ready_at_seconds d \<and> \<not> invalid_deadline (vitality_from i actor previous) (c_current_hp actor) d
         (nr_ready_at_seconds d - nr_started_at_seconds d)"
    and "storable (vitality_from i actor previous)"
proof -
  have fields: "hv_character_id (vitality_from i actor previous) = i" "hv_combatant_id (vitality_from i actor previous) = c_id actor"
    "hv_death_saves (vitality_from i actor previous) = c_death_saves actor"
    "hv_is_dead (vitality_from i actor previous) = c_is_dead actor"
    by (simp_all add: vitality_from_def Let_def)
  have "distinct (hv_conditions (vitality_from i actor previous))" by (simp add: vitality_from_def Let_def)
  then have "card (set (hv_conditions (vitality_from i actor previous))) = length (hv_conditions (vitality_from i actor previous))"
    by (rule distinct_card)
  with v [unfolded vitals_ok_def] ids le_less_linear [of "c_current_hp actor" 0] show "\<not> invalid_vitality i (c_current_hp actor) (vitality_from i actor previous)"
    unfolding invalid_vitality_def fields de_Morgan_disj de_Morgan_conj not_less not_not by blast
  { fix d assume "hv_natural_recovery (vitality_from i actor previous) = Some d"
    then obtain p d0 where p: "previous = Some p" "hv_natural_recovery p = Some d0" "d = d0\<lparr>nr_combatant := c_id actor\<rparr>"
      "sv_stable (c_death_saves actor)" "\<not> c_is_dead actor" "\<not> c_current_hp actor > 0"
      by (auto simp: vitality_from_def Let_def bind_eq_Some_conv split: if_splits)
    have hp: "c_current_hp actor = 0" using v p(6) by (simp add: vitals_ok_def)
    from prev [OF p(1)] obtain hp0 where "nr_started_at_seconds d0 \<le> nr_ready_at_seconds d0"
      "\<not> invalid_deadline p hp0 d0 (nr_ready_at_seconds d0 - nr_started_at_seconds d0)"
      using p(2) unfolding coherent_vitality_def by blast
    moreover have d: "nr_started_at_seconds d = nr_started_at_seconds d0" "nr_ready_at_seconds d = nr_ready_at_seconds d0"
      "nr_combatant d = c_id actor" by (simp_all add: p(3))
    ultimately have "nr_started_at_seconds d \<le> nr_ready_at_seconds d \<and> \<not> invalid_deadline (vitality_from i actor previous) (c_current_hp actor) d
         (nr_ready_at_seconds d - nr_started_at_seconds d)"
      unfolding invalid_deadline_def fields using p(4,5) hp by metis }
  note deadline = this
  then show "hv_natural_recovery (vitality_from i actor previous) = Some d \<Longrightarrow>
       nr_started_at_seconds d \<le> nr_ready_at_seconds d \<and> \<not> invalid_deadline (vitality_from i actor previous) (c_current_hp actor) d
         (nr_ready_at_seconds d - nr_started_at_seconds d)" .
  have "nr_started_at_seconds d < 2 ^ 64 \<and> nr_ready_at_seconds d < 2 ^ 64"
    if "hv_natural_recovery (vitality_from i actor previous) = Some d" for d
    using deadline [OF that] by (simp add: invalid_deadline_def i64_max_u64_def)
  moreover have "sv_successes (c_death_saves actor) \<le> 2" "sv_failures (c_death_saves actor) \<le> 3"
    using v [unfolded vitals_ok_def] by blast+
  ultimately show "storable (vitality_from i actor previous)" unfolding storable_def fields by simp
qed

lemma store_actor_succeeds:
  assumes u: "uuid_codec_ok u" and v: "vitals_ok actor" and ids: "\<not> is_nil i" "\<not> is_nil (c_id actor)"
    and owner: "c_character_id actor = Some i" and sheet: "is_object sheet" "read_vitality u sheet i = Ok previous"
    and hp: "as_i64 (json_index sheet ''hpMax'') = Some (c_max_hp actor)"
  shows "\<exists>sheet'. store_actor u actor sheet = Ok sheet'"
proof -
  let ?v = "vitality_from i actor previous"
  obtain c1 where c1: "json_set ''hp'' (JInt (c_current_hp actor)) sheet = (Ok c1 :: (string, json) res)"
    using json_set_object [OF sheet(1)] by blast
  obtain c2 where c2: "json_set ''characterId'' (JStr (uuid_text u i)) c1 = (Ok c2 :: (string, json) res)"
    using json_set_object [OF json_set_Ok(2) [OF c1]] by blast
  obtain c3 where c3: "write_vitality u ?v c2 = (Ok c3 :: (string, json) res)"
    using write_vitality_total [OF json_set_Ok(2) [OF c2]] by blast
  note w = write_vitality_Ok [OF c3]
  have get: "json_get c3 k = (if k = ''characterId'' then Some (JStr (uuid_text u i))
       else if k = ''hp'' then Some (JInt (c_current_hp actor)) else json_get sheet k)" if "k \<noteq> ''combatResources''" for k
    by (simp add: w(3) [OF that] json_set_Ok(1) [OF c2] json_set_Ok(1) [OF c1])
  have prev: "\<exists>sheet. coherent_vitality u i sheet p" if "previous = Some p" for p
    using sheet(2) that read_vitality_Some by blast
  note valid = vitality_from_valid [OF v ids prev]
  have range: "0 < c_max_hp actor" "c_max_hp actor \<le> i32_max" "0 \<le> c_current_hp actor" "c_current_hp actor \<le> c_max_hp actor"
    using v [unfolded vitals_ok_def] by linarith+
  have "as_i64 (json_index c3 ''hp'') = Some (c_current_hp actor)" "as_i64 (json_index c3 ''hpMax'') = Some (c_max_hp actor)"
    "\<forall>j. json_get c3 ''characterId'' = Some j \<longrightarrow> uuid_of u j = Some i"
    using range hp u by (simp_all add: json_index_def get)
  with range valid(1,2) have "coherent_vitality u i c3 ?v" unfolding coherent_vitality_def by blast
  moreover have "vitality_of u (vitality_value u ?v) = Some ?v" using valid(3) by (simp add: vitality_of_value [OF u])
  ultimately have "read_vitality u c3 i = Ok (Some ?v)" using w(1) read_vitality_Some by blast
  with owner sheet(2) c1 c2 c3 show ?thesis by (simp add: store_actor_def)
qed

text \<open>And back: vitals read from a sheet are well formed.\<close>

lemma restore_actor_vitals:
  assumes run: "restore_actor u sheet i actor = Ok a"
    and actor: "c_max_hp actor \<le> 1000000000" "0 < c_max_hp actor" "0 \<le> c_current_hp actor" "c_current_hp actor \<le> c_max_hp actor"
      "c_temp_hp actor = 0" "c_death_saves actor = new_death_saves" "\<not> c_is_dead actor"
    and hp: "as_i64 (json_index sheet ''hp'') = Some (c_current_hp actor)"
  shows "vitals_ok a" "\<exists>cs ds dead. a = actor\<lparr>c_conditions := cs, c_death_saves := ds, c_is_dead := dead\<rparr>"
    "\<exists>found. read_vitality u sheet i = Ok found" "c_character_id a = Some i"
proof -
  from run obtain found where f: "read_vitality u sheet i = Ok found" and owner: "c_character_id actor = Some i"
    and a: "a = (let actor1 = (case found of
           None \<Rightarrow> actor
         | Some state \<Rightarrow> actor\<lparr>c_death_saves := hv_death_saves state, c_is_dead := hv_is_dead state,
             c_conditions := set (hv_conditions state)\<rparr>)
     in if c_current_hp actor1 = 0 then add_condition Unconscious actor1 else actor1)"
    by (auto simp: restore_actor_def bind_res_Ok Let_def)
  show "\<exists>found. read_vitality u sheet i = Ok found" using f by blast
  have new: "sv_successes new_death_saves = 0" "sv_failures new_death_saves = 0" "\<not> sv_stable new_death_saves"
    by (simp_all add: new_death_saves_def)
  show "\<exists>cs ds dead. a = actor\<lparr>c_conditions := cs, c_death_saves := ds, c_is_dead := dead\<rparr>"
  proof (cases found)
    case None
    then have "a = actor\<lparr>c_conditions := c_conditions a, c_death_saves := c_death_saves actor, c_is_dead := c_is_dead actor\<rparr>"
      using a by (simp add: Let_def add_condition_def)
    then show ?thesis by blast
  next
    case (Some state)
    then have "a = actor\<lparr>c_conditions := c_conditions a, c_death_saves := hv_death_saves state, c_is_dead := hv_is_dead state\<rparr>"
      using a by (simp add: Let_def add_condition_def)
    then show ?thesis by blast
  qed
  then show "c_character_id a = Some i" using owner by auto
  show "vitals_ok a"
  proof (cases found)
    case None
    then show ?thesis using a actor new by (simp add: vitals_ok_def Let_def add_condition_def)
  next
    case (Some state)
    with f read_vitality_Some have "coherent_vitality u i sheet state" by blast
    then have "\<not> invalid_vitality i (c_current_hp actor) state" using hp by (auto simp: coherent_vitality_def)
    with Some a actor show ?thesis
      by (auto simp: invalid_vitality_def vitals_ok_def Let_def add_condition_def not_less)
  qed
qed

text \<open>A drafted sheet carries no vitality, whatever the client sent.\<close>

lemma strip_client_state_stored: "stored_vitality (strip_client_state sheet) = None"
proof (cases sheet)
  case (JObj t)
  then show ?thesis
    by (cases "table_get t ''combatResources''")
      (auto simp: strip_client_state_def stored_vitality_def json_get_def as_object_def split: json.splits)
qed (simp_all add: strip_client_state_def stored_vitality_def json_get_def as_object_def)

lemma strip_client_state_keeps: "k \<noteq> ''combatResources'' \<Longrightarrow> json_get (strip_client_state sheet) k = json_get sheet k"
  by (cases sheet) (auto simp: strip_client_state_def json_get_def as_object_def)

end
