(* ===== verification/Hero.thy ===== *)
theory Hero
  imports Vitality Character_Document Combat_Service Party
begin

text \<open>
  \<^verbatim>\<open>crates/app-application/src/combat/hero.rs\<close>: a committed sheet becomes a combatant, a party and its
  opponents become an encounter that is ready for its first command, and a stored encounter gets its missing
  profiles back. \<open>CombatantId::new()\<close> draws an identifier, so the identifiers of the heroes are an argument.
\<close>

section \<open>Equipment and spells of a sheet\<close>

text \<open>One item of the inventory: what is owned, and the arrows so far.\<close>

definition count_item ::
  "string \<Rightarrow> json \<Rightarrow> (string \<times> u32) list \<times> u32 \<Rightarrow> (string, (string \<times> u32) list \<times> u32) res" where
  "count_item cls item = (\<lambda>(owned, arrows).
     bind_res (ok_or (as_str (json_index item ''id'')) ''combat_hero_inventory_invalid'') (\<lambda>i.
     bind_res (ok_or (as_u64 (json_index item ''count'')) ''combat_hero_inventory_invalid'') (\<lambda>n.
     bind_res (ok_or (u32_of_u64 n) ''combat_hero_inventory_invalid'') (\<lambda>count.
     let normalized = (case strip_prefix (cls @ ''-'') i of Some s \<Rightarrow> s | None \<Rightarrow> i)
     in bind_res (ok_or (if normalized = ''arrows-20'' then u32_of_u64 (count * 20)
                         else if normalized = ''arrows'' then Some count else Some 0)
                   ''combat_hero_inventory_invalid'') (\<lambda>ammunition.
        bind_res (ok_or (u32_checked_add arrows ammunition) ''combat_hero_inventory_invalid'') (\<lambda>total_arrows.
        Ok (owned @ [(i, count)], total_arrows)))))))"

text \<open>The quantities kept on the sheet cap the derived ones.\<close>

fun cap_quantities :: "(string, json) table \<Rightarrow> (string, u32) table \<Rightarrow> (string, (string, u32) table) res" where
  "cap_quantities saved [] = Ok []"
| "cap_quantities saved ((i, quantity) # rest) =
     bind_res (case table_get saved i of
         None \<Rightarrow> Ok quantity
       | Some value \<Rightarrow>
           bind_res (ok_or (as_u64 value) ''combat_resources_invalid'') (\<lambda>n.
           bind_res (ok_or (u32_of_u64 n) ''combat_resources_invalid'') (\<lambda>q. Ok (min q quantity)))) (\<lambda>q.
     bind_res (cap_quantities saved rest) (\<lambda>qs. Ok ((i, q) # qs)))"

definition combat_resource :: "json \<Rightarrow> string \<Rightarrow> json option" where
  "combat_resource sheet key = Option.bind (json_get sheet ''combatResources'') (\<lambda>r. json_get r key)"

text \<open>\<open>as i32\<close> and \<open>as u8\<close> of a 64-bit number keep its low bits.\<close>

definition cast_u8 :: "u64 \<Rightarrow> u8" where "cast_u8 n = n mod 256"

definition loadout_from_sheet :: "catalog \<Rightarrow> json \<Rightarrow> (string, combat_loadout) res" where
  "loadout_from_sheet cat sheet =
     bind_res (ok_or (as_str (json_index sheet ''heroClass'')) ''combat_hero_invalid'') (\<lambda>cls.
     bind_res (ok_or (as_array (json_index sheet ''inventory'')) ''combat_hero_inventory_invalid'') (\<lambda>items.
     bind_res (fold_res (count_item cls) items ([], 0)) (\<lambda>(owned, counted).
     bind_res (case combat_resource sheet ''arrows'' of
         None \<Rightarrow> Ok counted
       | Some saved \<Rightarrow>
           bind_res (ok_or (as_u64 saved) ''combat_resources_invalid'') (\<lambda>n.
           bind_res (ok_or (u32_of_u64 n) ''combat_resources_invalid'') (\<lambda>q. Ok (min q counted)))) (\<lambda>arrows.
     bind_res (ok_or (as_u64 (json_index sheet ''level'')) ''combat_hero_invalid'') (\<lambda>level.
     bind_res (ok_or (as_i64 (json_index (json_index sheet ''abilities'') ''str'')) ''combat_hero_invalid'') (\<lambda>strength.
     bind_res (ok_or (as_i64 (json_index (json_index sheet ''abilities'') ''dex'')) ''combat_hero_invalid'') (\<lambda>dexterity.
     bind_res (derive_loadout cat \<lparr>li_class_id = cls, li_level = cast_u8 level, li_strength = wrap32 strength,
         li_dexterity = wrap32 dexterity, li_owned = owned, li_arrows = arrows\<rparr>) (\<lambda>loadout.
     bind_res (case Option.bind (combat_resource sheet ''quantities'') as_object of
         None \<Rightarrow> Ok (lo_quantities loadout)
       | Some saved \<Rightarrow> cap_quantities saved (lo_quantities loadout)) (\<lambda>quantities.
     let capped = loadout\<lparr>lo_quantities := quantities\<rparr> in
     case json_get sheet ''defense'' of
       None \<Rightarrow> Ok capped
     | Some raw \<Rightarrow>
         bind_res (ok_or (defense_choice_of raw) ''hero_defense_invalid'') (\<lambda>choice.
         Ok (capped\<lparr>lo_shield := dc_shield choice\<rparr>)))))))))))"

definition casting_ability :: "string \<Rightarrow> string" where
  "casting_ability cls =
     (if cls = ''wizard'' then ''int''
      else if cls \<in> set [''cleric'', ''druid'', ''ranger''] then ''wis''
      else if cls \<in> set [''bard'', ''sorcerer'', ''warlock'', ''paladin''] then ''cha''
      else ''int'')"

definition learn_spell :: "catalog \<Rightarrow> string \<Rightarrow> i32 \<Rightarrow> json \<Rightarrow> string list \<Rightarrow> (string, string list) res" where
  "learn_spell cat cls spell_level raw prepared =
     bind_res (ok_or (as_str raw) ''combat_spells_invalid'') (\<lambda>i.
     bind_res (reject_if (\<not> list_ex (\<lambda>sp. sp_id sp = i \<and> sp_level sp = spell_level \<and> cls \<in> set (sp_classes sp)) (ca_spells cat))
       ''combat_spells_invalid'') (\<lambda>_.
     Ok (if i \<in> set prepared then prepared else prepared @ [i])))"

definition learn_spells :: "catalog \<Rightarrow> string \<Rightarrow> json \<Rightarrow> (string, string list) res" where
  "learn_spells cat cls spells =
     fold_res (\<lambda>(key, spell_level) prepared.
         bind_res (ok_or (Option.bind (json_get spells key) as_array) ''combat_spells_invalid'') (\<lambda>ids.
         fold_res (learn_spell cat cls spell_level) ids prepared))
       [(''cantrips'', 0), (''level1'', 1)] []"

fun remaining_slots :: "json \<Rightarrow> (u8, u8) table \<Rightarrow> (string, (u8, spell_slots) table) res" where
  "remaining_slots sheet [] = Ok []"
| "remaining_slots sheet ((slot, maximum) # rest) =
     bind_res (case Option.bind (combat_resource sheet ''spellSlots'') (\<lambda>s. json_get s (show_nat slot)) of
         None \<Rightarrow> Ok maximum
       | Some value \<Rightarrow>
           bind_res (ok_or (as_u64 value) ''combat_spell_slots_invalid'') (\<lambda>n.
           bind_res (reject_if (n > 255) ''combat_spell_slots_invalid'') (\<lambda>_. Ok (min n maximum)))) (\<lambda>remaining.
     bind_res (remaining_slots sheet rest) (\<lambda>slots.
     Ok ((slot, \<lparr>ss_maximum = maximum, ss_remaining = remaining\<rparr>) # slots)))"

definition casting_from_sheet :: "sheet_env \<Rightarrow> json \<Rightarrow> (string, casting_profile) res" where
  "casting_from_sheet env sheet =
     bind_res (ok_or (as_str (json_index sheet ''heroClass'')) ''combat_hero_invalid'') (\<lambda>cls.
     bind_res (ok_or (as_u64 (json_index sheet ''level'')) ''combat_hero_invalid'') (\<lambda>level.
     bind_res (reject_if (\<not> (1 \<le> level \<and> level \<le> 20)) ''combat_hero_invalid'') (\<lambda>_.
     bind_res (ok_or (as_i64 (json_index (json_index sheet ''abilities'') (casting_ability cls))) ''combat_hero_invalid'') (\<lambda>score.
     let modifier = ability_modifier (wrap32 score) in
     bind_res (case json_get sheet ''spells'' of
         None \<Rightarrow> Ok []
       | Some spells \<Rightarrow> learn_spells (se_catalog env) cls spells) (\<lambda>prepared.
     bind_res (remaining_slots sheet (slot_capacity cls level)) (\<lambda>slots.
     let proficiency = i32_add 2 (int ((level - 1) div 4)) in
     bind_res (normalize_for_read env sheet) (\<lambda>(defense, _).
     let untrained = (case defense of None \<Rightarrow> False | Some d \<Rightarrow> dst_untrained_armor d)
     in Ok \<lparr>cp_choices = (if untrained then [] else spell_choices (se_catalog env) prepared),
            cp_level = level,
            cp_ability_modifier = modifier,
            cp_attack_bonus = i32_add modifier proficiency,
            cp_save_dc = i32_add (i32_add 8 modifier) proficiency,
            cp_prepared = prepared,
            cp_slots = slots\<rparr>)))))))"

section \<open>A hero\<close>

definition hero_speed :: "json \<Rightarrow> (string, i32) res" where
  "hero_speed sheet =
     (case json_get sheet ''speedFt'' of
        None \<Rightarrow> Ok 30
      | Some value \<Rightarrow>
          (case as_i64 value of
             Some speed \<Rightarrow> if 0 \<le> speed \<and> speed \<le> 120 then Ok speed else Err ''combat_hero_speed_invalid''
           | None \<Rightarrow> Err ''combat_hero_speed_invalid''))"

definition hero_combatant :: "sheet_env \<Rightarrow> combatant_id \<Rightarrow> uuid \<Rightarrow> json \<Rightarrow> (string, combatant) res" where
  "hero_combatant env new_id character_id raw =
     bind_res (reject_if (is_nil character_id \<or> \<not> valid_character_document env raw) ''combat_hero_invalid'') (\<lambda>_.
     bind_res (normalize_for_read env raw) (\<lambda>(defense, sheet).
     bind_res (hero_speed sheet) (\<lambda>speed.
     bind_res (ok_or (as_str (json_index sheet ''name'')) ''combat_hero_invalid'') (\<lambda>name.
     bind_res (ok_or (as_i64 (json_index sheet ''hpMax'')) ''combat_hero_invalid'') (\<lambda>max_hp.
     bind_res (ok_or (as_i64 (json_index sheet ''hp'')) ''combat_hero_invalid'') (\<lambda>hp.
     bind_res (ok_or (as_i64 (json_index sheet ''ac'')) ''combat_hero_invalid'') (\<lambda>ac.
     let actor = (new_combatant new_id name (wrap32 max_hp) (wrap32 hp) (wrap32 ac))
           \<lparr>c_untrained_armor := (case defense of None \<Rightarrow> False | Some d \<Rightarrow> dst_untrained_armor d),
            c_character_id := Some character_id\<rparr> in
     bind_res (restore_actor (se_uuids env) sheet character_id actor) (\<lambda>restored.
     bind_res (loadout_from_sheet (se_catalog env) sheet) (\<lambda>loadout.
     bind_res (casting_from_sheet env sheet) (\<lambda>casting.
     bind_res (ok_or (as_i64 (json_index (json_index sheet ''abilities'') ''dex'')) ''combat_hero_invalid'') (\<lambda>dexterity.
     Ok (restored\<lparr>c_loadout := Some loadout, c_casting := Some casting,
           c_dex_mod := ability_modifier (wrap32 dexterity), c_speed_ft := speed,
           c_budget := fresh_budget speed, c_position := at 8 8\<rparr>))))))))))))"

section \<open>An encounter begins\<close>

definition hero_positions :: "bool \<Rightarrow> position list" where
  "hero_positions authored =
     (if authored then [at 3 3, at 3 2, at 3 4, at 2 3] else [at 8 8, at 7 8, at 8 7, at 7 7])"

fun muster_heroes ::
  "sheet_env \<Rightarrow> 'g sampler \<Rightarrow> (u64 \<Rightarrow> 'g) \<Rightarrow> (usize \<Rightarrow> combatant_id) \<Rightarrow> bool \<Rightarrow> u64 \<Rightarrow> usize \<Rightarrow> (uuid \<times> json) list \<Rightarrow>
   (string, combatant list) res" where
  "muster_heroes env rr sf new_id authored seed index [] = Ok []"
| "muster_heroes env rr sf new_id authored seed index ((character_id, sheet) # sheets) =
     bind_res (hero_combatant env (new_id index) character_id sheet) (\<lambda>hero.
     bind_res (index_at (hero_positions authored) index) (\<lambda>cell.
     let initiative = rd_total (fst (roll_d20_detailed rr (c_dex_mod hero) False (c_untrained_armor hero)
           (from_seed sf (u64_add seed index))))
     in bind_res (muster_heroes env rr sf new_id authored seed (index + 1) sheets) (\<lambda>heroes.
        Ok (hero\<lparr>c_position := cell, c_initiative_roll := initiative\<rparr> # heroes))))"

definition bare_hands :: combat_loadout where
  "bare_hands = \<lparr>lo_default_weapon = ''unarmed'', lo_attacks = [unarmed_profile 0 2], lo_quantities = [],
     lo_arrows = 0, lo_shield = False\<rparr>"

definition muster_npc :: "bool \<Rightarrow> initiative_entry list \<Rightarrow> usize \<Rightarrow> combatant \<Rightarrow> combatant" where
  "muster_npc authored rolled index npc =
     (let n1 = npc\<lparr>c_character_id := None\<rparr>;
          n2 = (if authored then n1
                else n1\<lparr>c_loadout := Some bare_hands, c_position := at (i32_add 9 (wrap32 (int index))) 8\<rparr>)
      in case find (\<lambda>e. ie_id e = c_id n2) rolled of
           None \<Rightarrow> n2
         | Some entry \<Rightarrow> n2\<lparr>c_initiative_roll := ie_roll entry, c_dex_mod := ie_dex_tiebreak entry\<rparr>)"

definition muster_npcs :: "bool \<Rightarrow> uuid list \<Rightarrow> combat_snapshot \<Rightarrow> combatant list" where
  "muster_npcs authored ids sn =
     map (\<lambda>(index, npc). muster_npc authored (sn_initiative sn) index npc)
       (enumerate 0 (filter (\<lambda>a. c_id a \<notin> set ids
          \<and> (case c_character_id a of None \<Rightarrow> True | Some i \<Rightarrow> i \<notin> set ids)) (sn_combatants sn)))"

definition entry_of :: "combatant \<Rightarrow> initiative_entry" where
  "entry_of a = \<lparr>ie_id = c_id a, ie_roll = c_initiative_roll a, ie_dex_tiebreak = c_dex_mod a\<rparr>"

text \<open>The engine of the new encounter.\<close>

definition party_engine :: "(u64 \<Rightarrow> 'g) \<Rightarrow> combat_projection \<Rightarrow> u64 \<Rightarrow> (string, 'g resolver) res" where
  "party_engine sf p seed =
     bind_res (ok_or (resolver_state (cj_snapshot p)) ''combat_state_invalid'') (\<lambda>(actors, ord).
     let r = new_resolver actors ord (from_seed sf seed) in
     bind_res (case cj_authored p of
                 None \<Rightarrow> Ok r
               | Some authored \<Rightarrow>
                   let (res, r1) = set_map r (ae_map authored)
                   in bind_res (map_err (\<lambda>_. ''authored_map_invalid'') res) (\<lambda>_. Ok r1)) (\<lambda>r1.
     Ok (set_turn_boundary r1 (encounter_stop p) (cj_authored p \<noteq> None))))"

text \<open>The snapshot of the new encounter: everybody in, the order rolled, round one.\<close>

definition opened_with :: "combat_projection \<Rightarrow> combatant list \<Rightarrow> ('e, combat_projection) res" where
  "opened_with p actors =
     (let ord = build_order (map entry_of actors)
      in bind_res (unwrap (order_current ord)) (\<lambda>current.
         Ok (p\<lparr>cj_snapshot := \<lparr>sn_active = True, sn_round = 1, sn_current_combatant = Some (ie_id current),
               sn_initiative = io_entries ord, sn_combatants = actors\<rparr>\<rparr>)))"

definition bind_party ::
  "sheet_env \<Rightarrow> 'g sampler \<Rightarrow> (u64 \<Rightarrow> 'g) \<Rightarrow> (usize \<Rightarrow> combatant_id) \<Rightarrow> (uuid \<times> json) list \<Rightarrow> combat_projection \<Rightarrow> u64 \<Rightarrow>
   (string, combat_projection) res" where
  "bind_party env rr sf new_id sheets p seed =
     bind_res (reject_if (sheets = [] \<or> length sheets > max_party_members \<or> card (set (map fst sheets)) \<noteq> length sheets)
       ''combat_party_invalid'') (\<lambda>_.
     bind_res (muster_heroes env rr sf new_id (cj_authored p \<noteq> None) seed 0 sheets) (\<lambda>heroes.
     bind_res (opened_with p (heroes @ muster_npcs (cj_authored p \<noteq> None) (map fst sheets) (cj_snapshot p))) (\<lambda>p1.
     bind_res (party_engine sf p1 seed) (\<lambda>r.
     let (begun, r1) = begin_current_turn rr r in
     bind_res (map_err (\<lambda>_. ''combat_state_invalid'') begun) (\<lambda>ev.
     let (settled, r2) = settle_npcs_until rr (encounter_stop p1) [ev] r1 in
     bind_res settled (\<lambda>evs.
     bind_res (replace_resolved_state p1 (rs_combatants r2) (rs_order r2) no_events) (\<lambda>p2.
     Ok (snd (finalize_defense (finish_if_resolved (p2\<lparr>cj_revision := 0, cj_events := evs\<rparr>)) False)))))))))"

definition bind_hero ::
  "sheet_env \<Rightarrow> 'g sampler \<Rightarrow> (u64 \<Rightarrow> 'g) \<Rightarrow> (usize \<Rightarrow> combatant_id) \<Rightarrow> uuid \<Rightarrow> json \<Rightarrow> combat_projection \<Rightarrow> u64 \<Rightarrow>
   (string, combat_projection) res" where
  "bind_hero env rr sf new_id character_id sheet p seed = bind_party env rr sf new_id [(character_id, sheet)] p seed"

section \<open>Missing profiles\<close>

text \<open>\<open>sheets\<close> is collected into a map, where the last of equal keys wins; they are distinct when it is read.\<close>

definition recover_actor ::
  "sheet_env \<Rightarrow> (uuid, json) table \<Rightarrow> combatant \<Rightarrow> (string, combatant) res" where
  "recover_actor env sheets a =
     bind_res (case c_character_id a of
         None \<Rightarrow> Ok a
       | Some owner \<Rightarrow>
           bind_res (ok_or (table_get sheets owner) ''combat_hero_identity_mismatch'') (\<lambda>sheet.
           bind_res (normalize_for_read env sheet) (\<lambda>(defense, _).
           let untrained = (case defense of None \<Rightarrow> False | Some d \<Rightarrow> dst_untrained_armor d) in
           bind_res (casting_from_sheet env sheet) (\<lambda>canonical.
           Ok (a\<lparr>c_untrained_armor := untrained,
                c_casting := Some (case c_casting a of None \<Rightarrow> canonical
                  | Some casting \<Rightarrow> casting\<lparr>cp_choices := cp_choices canonical\<rparr>)\<rparr>))))) (\<lambda>b.
     if c_loadout b \<noteq> None then Ok b
     else
       bind_res (case c_character_id b of
           None \<Rightarrow> Ok bare_hands
         | Some owner \<Rightarrow>
             bind_res (ok_or (table_get sheets owner) ''combat_hero_identity_mismatch'')
               (loadout_from_sheet (se_catalog env))) (\<lambda>loadout.
       Ok (b\<lparr>c_loadout := Some loadout\<rparr>)))"

fun recover_actors :: "sheet_env \<Rightarrow> (uuid, json) table \<Rightarrow> combatant list \<Rightarrow> (string, combatant list) res" where
  "recover_actors env sheets [] = Ok []"
| "recover_actors env sheets (a # as) =
     bind_res (recover_actor env sheets a) (\<lambda>b.
     bind_res (recover_actors env sheets as) (\<lambda>bs. Ok (b # bs)))"

definition recover_party_loadouts ::
  "sheet_env \<Rightarrow> (uuid \<times> json) list \<Rightarrow> combat_projection \<Rightarrow> (string, combat_projection) res" where
  "recover_party_loadouts env sheets p =
     (let bound = List.map_filter c_character_id (sn_combatants (cj_snapshot p));
          expected = set (map fst sheets)
      in bind_res (reject_if (card expected \<noteq> length sheets \<or> length bound \<noteq> length sheets \<or> set bound \<noteq> expected)
           ''combat_hero_identity_mismatch'') (\<lambda>_.
         bind_res (recover_actors env sheets (sn_combatants (cj_snapshot p))) (\<lambda>actors.
         Ok (on_snapshot (\<lambda>sn. sn\<lparr>sn_combatants := actors\<rparr>) p))))"

definition recover_bound_loadouts ::
  "sheet_env \<Rightarrow> uuid \<Rightarrow> json \<Rightarrow> combat_projection \<Rightarrow> (string, combat_projection) res" where
  "recover_bound_loadouts env character_id sheet p = recover_party_loadouts env [(character_id, sheet)] p"

end
