(* ===== verification/Hero_State.thy ===== *)
theory Hero_State
  imports Hero Encounter_State
begin

text \<open>
  What a valid sheet becomes: the canonical defense changes four fields of it and is stable, a hero made of
  it is well formed, and the encounter a party opens satisfies the invariant of stored encounters.
\<close>

section \<open>The canonical defense\<close>

abbreviation defense_fields :: "string set" where
  "defense_fields \<equiv> {''ac'', ''defense'', ''baseSpeedFt'', ''speedFt''}"

lemma normalize_defense_cases:
  assumes "normalize_defense cat sheet = Ok (st, sheet')"
  obtains (none) "st = None" "sheet' = sheet" "sheet_defense cat sheet = Ok None"
    | (derived) d base s1 s2 s3 where "st = Some d" "sheet_defense cat sheet = Ok (Some d)" "1 \<le> dst_ac d" "dst_ac d \<le> 40"
      "base_speed_of cat sheet = Ok base" "1 \<le> base" "base \<le> 120"
      "json_set ''ac'' (JInt (dst_ac d)) sheet = (Ok s1 :: (string, json) res)"
      "json_set ''defense'' (defense_choice_value (dst_choice d)) s1 = (Ok s2 :: (string, json) res)"
      "json_set ''baseSpeedFt'' (JInt (int base)) s2 = (Ok s3 :: (string, json) res)"
      "json_set ''speedFt'' (JInt (int (base - u64_of_i32 (dst_speed_penalty_ft d)))) s3 = (Ok sheet' :: (string, json) res)"
  using assms unfolding normalize_defense_def
  by (auto simp: bind_res_Ok split: option.splits)

lemma normalize_defense_get:
  assumes "normalize_defense cat sheet = Ok (st, sheet')"
  shows "k \<notin> defense_fields \<Longrightarrow> json_get sheet' k = json_get sheet k" "is_object sheet \<Longrightarrow> is_object sheet'"
proof -
  from assms show "json_get sheet' k = json_get sheet k" if "k \<notin> defense_fields"
  proof (cases rule: normalize_defense_cases)
    case (derived d base s1 s2 s3)
    with that show ?thesis by (simp add: json_set_Ok(1) [OF derived(11)] json_set_Ok(1) [OF derived(10)]
          json_set_Ok(1) [OF derived(9)] json_set_Ok(1) [OF derived(8)])
  qed simp
  from assms show "is_object sheet'" if "is_object sheet"
    by (cases rule: normalize_defense_cases) (use that json_set_Ok(2) in auto)
qed

lemma normalize_for_read_get:
  assumes "normalize_for_read env sheet = Ok (st, sheet')"
  shows "k \<notin> defense_fields \<Longrightarrow> json_get sheet' k = json_get sheet k" "is_object sheet \<Longrightarrow> is_object sheet'"
  using assms normalize_defense_get unfolding normalize_for_read_def
  by (auto simp: bind_res_Ok split: if_splits)

lemma normalize_for_read_index:
  assumes "normalize_for_read env sheet = Ok (st, sheet')" "k \<notin> defense_fields"
  shows "json_index sheet' k = json_index sheet k"
  using normalize_for_read_get(1) [OF assms] by (simp add: json_index_def)

lemma defense_choice_of_value: "dc_schema_version c < 65536 \<Longrightarrow> defense_choice_of (defense_choice_value c) = Some c"
  by (cases "dc_armor_id c")
    (simp_all add: defense_choice_of_def defense_choice_value_def struct_fields_def required_def optional_def option_of_def
      json_option_def table_get_def)

interpretation defense_choices: codec defense_choice_value defense_choice_of "\<lambda>c. dc_schema_version c < 65536"
  by unfold_locales (rule defense_choice_of_value)

text \<open>The defense of a sheet depends on its class, its inventory, its abilities and its declared choice.\<close>

lemma sheet_defense_again:
  assumes "sheet_defense cat sheet = Ok (Some d)"
    and "\<And>k. k \<in> {''heroClass'', ''inventory'', ''abilities''} \<Longrightarrow> json_get sheet' k = json_get sheet k"
    and "json_get sheet' ''defense'' = Some (defense_choice_value (dst_choice d))"
  shows "sheet_defense cat sheet' = Ok (Some d)"
proof -
  have same: "json_index sheet' k = json_index sheet k" if "k \<in> {''heroClass'', ''inventory'', ''abilities''}" for k
    using assms(2) [OF that] by (simp add: json_index_def)
  from assms(1) obtain cls items owned strength dexterity constitution wisdom where
    fields: "as_str (json_index sheet ''heroClass'') = Some cls" "as_array (json_index sheet ''inventory'') = Some items"
      "owned_items items = Ok owned" "defense_score sheet ''str'' = Ok strength" "defense_score sheet ''dex'' = Ok dexterity"
      "defense_score sheet ''con'' = Ok constitution" "defense_score sheet ''wis'' = Ok wisdom"
    and st: "(let input = \<lparr>di_class_id = cls, di_strength = strength, di_dexterity = dexterity,
           di_constitution = constitution, di_wisdom = wisdom, di_owned = owned\<rparr>
     in case json_get sheet ''defense'' of
          Some raw \<Rightarrow>
            bind_res (ok_or (defense_choice_of raw) ''hero_defense_invalid'') (\<lambda>choice.
            bind_res (derive_defense cat input choice) (\<lambda>st. Ok (Some st)))
        | None \<Rightarrow>
            if has_owned_body_armor cat input
            then bind_res (starting_choice cat input) (\<lambda>st. Ok (Some st))
            else Ok None) = Ok (Some d)"
    unfolding sheet_defense_def bind_res_Ok ok_or_iff by blast
  define input where "input = \<lparr>di_class_id = cls, di_strength = strength, di_dexterity = dexterity,
           di_constitution = constitution, di_wisdom = wisdom, di_owned = owned\<rparr>"
  have how: "(\<exists>choice. derive_defense cat input choice = Ok d) \<or> starting_choice cat input = Ok d"
    using st unfolding Let_def input_def [symmetric] by (auto simp: bind_res_Ok split: option.splits if_splits)
  have d: "derive_defense cat input (dst_choice d) = Ok d"
    using how derive_defense_choice starting_choice_derives by metis
  have "defense_choice_of (defense_choice_value (dst_choice d)) = Some (dst_choice d)"
    using derive_defense_version [OF d] by (intro defense_choice_of_value) simp
  moreover have "defense_score sheet' k = defense_score sheet k" for k using same [of "''abilities''"] by (simp add: defense_score_def)
  ultimately show ?thesis using fields d same assms(3) by (simp add: sheet_defense_def Let_def input_def)
qed

lemma json_set_same: "json_get j k = Some v \<Longrightarrow> json_set k v j = Ok j"
  by (auto simp: json_get_def bind_eq_Some_conv as_object_iff json_set_def table_get_def table_put_def update_triv)

lemma normalize_defense_again:
  assumes run: "normalize_defense cat sheet = Ok (st, sheet')"
  shows "normalize_defense cat sheet' = Ok (st, sheet')"
  using run
proof (cases rule: normalize_defense_cases)
  case (derived d base s1 s2 s3)
  have get: "json_get sheet' k = (if k = ''speedFt'' then Some (JInt (int (base - u64_of_i32 (dst_speed_penalty_ft d))))
      else if k = ''baseSpeedFt'' then Some (JInt (int base)) else if k = ''defense'' then Some (defense_choice_value (dst_choice d))
      else if k = ''ac'' then Some (JInt (dst_ac d)) else json_get sheet k)" for k
    by (simp add: json_set_Ok(1) [OF derived(11)] json_set_Ok(1) [OF derived(10)]
          json_set_Ok(1) [OF derived(9)] json_set_Ok(1) [OF derived(8)])
  have sd: "sheet_defense cat sheet' = Ok (Some d)" by (rule sheet_defense_again [OF derived(2)]) (auto simp: get)
  have race: "json_index sheet' ''race'' = json_index sheet ''race''" "json_index sheet' ''baseSpeedFt'' = JInt (int base)"
    by (simp_all add: json_index_def get)
  have "base_speed_of cat sheet' = Ok base"
    using derived(5) unfolding base_speed_of_def race
    by (auto simp: bind_res_Ok or_else_def split: option.splits if_splits)
  with derived sd show ?thesis
    by (simp add: normalize_defense_def reject_if_def json_set_same get)
qed (use run in simp)

lemma normalize_for_read_again:
  assumes "normalize_for_read env sheet = Ok (st, sheet')"
  shows "normalize_for_read env sheet' = Ok (st, sheet')"
proof -
  from assms obtain result candidate where n: "normalize_defense (se_catalog env) sheet = Ok (result, candidate)"
    "if \<not> within_character_budget env candidate \<and> json_get sheet ''defense'' = None then st = None \<and> sheet' = sheet
     else st = result \<and> sheet' = candidate"
    by (auto simp: normalize_for_read_def bind_res_Ok split: if_splits)
  show ?thesis
  proof (cases "\<not> within_character_budget env candidate \<and> json_get sheet ''defense'' = None")
    case True
    with n assms show ?thesis by simp
  next
    case False
    with n(2) have eq: "st = result" "sheet' = candidate" by auto
    have "within_character_budget env candidate \<or> json_get candidate ''defense'' \<noteq> None"
      using n(1) False
    proof (cases rule: normalize_defense_cases)
      case (derived d base s1 s2 s3)
      then show ?thesis by (simp add: json_set_Ok(1) [OF derived(11)] json_set_Ok(1) [OF derived(10)] json_set_Ok(1) [OF derived(9)])
    qed simp
    with normalize_defense_again [OF n(1)] show ?thesis unfolding eq by (auto simp: normalize_for_read_def)
  qed
qed

section \<open>A hero\<close>

lemma valid_document_hp:
  assumes "valid_character_document env sheet"
  shows "\<exists>hp max_hp. as_i64 (json_index sheet ''hp'') = Some hp \<and> as_i64 (json_index sheet ''hpMax'') = Some max_hp
     \<and> 1 \<le> max_hp \<and> max_hp \<le> 10000 \<and> 0 \<le> hp \<and> hp \<le> max_hp"
  using assms by (auto simp: valid_character_document_def integer_field_def json_index_def bind_eq_Some_conv
      split: option.splits)

lemma valid_document_ability:
  assumes "valid_character_document env sheet" "key \<in> set ability_keys"
  shows "\<exists>n. as_i64 (json_index (json_index sheet ''abilities'') key) = Some n \<and> 1 \<le> n \<and> n \<le> 30"
proof -
  have "list_all (\<lambda>key. (case Option.bind (Option.bind (json_get sheet ''abilities'') (\<lambda>a. json_get a key)) as_i64 of
             None \<Rightarrow> False | Some n \<Rightarrow> 1 \<le> n \<and> n \<le> 30)) ability_keys"
    using assms(1) unfolding valid_character_document_def by blast
  with assms(2) have "case Option.bind (Option.bind (json_get sheet ''abilities'') (\<lambda>a. json_get a key)) as_i64 of
             None \<Rightarrow> False | Some n \<Rightarrow> 1 \<le> n \<and> n \<le> 30" by (simp add: list_all_iff)
  then show ?thesis by (auto simp: json_index_def bind_eq_Some_conv split: option.splits)
qed

lemma casting_ability_key: "casting_ability cls \<in> set ability_keys"
  by (simp add: casting_ability_def ability_keys_def)

lemma ability_modifier_small: "1 \<le> n \<Longrightarrow> n \<le> 30 \<Longrightarrow> \<bar>ability_modifier (wrap32 n)\<bar> \<le> 10"
  using ability_modifier_bounds [of n] by (simp add: wrap32_id in_i32_def abs_le_iff)

lemma casting_from_sheet_modifier:
  assumes "casting_from_sheet env sheet = Ok p"
  obtains cls n where "as_i64 (json_index (json_index sheet ''abilities'') (casting_ability cls)) = Some n"
    "cp_ability_modifier p = ability_modifier (wrap32 n)"
  using assms unfolding casting_from_sheet_def by (auto simp: bind_res_Ok Let_def split: prod.splits)

lemma hero_combatant_cases:
  assumes run: "hero_combatant env new_id character_id raw = Ok a"
  shows "actor_ok a" "c_id a = new_id" "c_character_id a = Some character_id" "\<not> is_nil character_id"
    "valid_character_document env raw" "\<not> c_withdrawn a" "\<exists>lo. c_loadout a = Some lo"
    "as_i64 (json_index raw ''hp'') = Some (c_current_hp a)" "as_i64 (json_index raw ''hpMax'') = Some (c_max_hp a)"
    "\<exists>found. read_vitality (se_uuids env) raw character_id = Ok found"
proof -
  from run obtain defense sheet speed name max_hp hp ac restored loadout casting dexterity where
    valid: "\<not> is_nil character_id" "valid_character_document env raw"
    and norm: "normalize_for_read env raw = Ok (defense, sheet)"
    and hps: "as_i64 (json_index sheet ''hpMax'') = Some max_hp" "as_i64 (json_index sheet ''hp'') = Some hp"
    and restored: "restore_actor (se_uuids env) sheet character_id ((new_combatant new_id name (wrap32 max_hp) (wrap32 hp) (wrap32 ac))
           \<lparr>c_untrained_armor := (case defense of None \<Rightarrow> False | Some d \<Rightarrow> dst_untrained_armor d),
            c_character_id := Some character_id\<rparr>) = Ok restored" (is "restore_actor _ _ _ ?actor = _")
    and casting: "casting_from_sheet env sheet = Ok casting"
    and a: "a = restored\<lparr>c_loadout := Some loadout, c_casting := Some casting,
           c_dex_mod := ability_modifier (wrap32 dexterity), c_speed_ft := speed,
           c_budget := fresh_budget speed, c_position := at 8 8\<rparr>"
    unfolding hero_combatant_def by (auto simp: bind_res_Ok Let_def)
  note same = normalize_for_read_index [OF norm] and get = normalize_for_read_get(1) [OF norm]
  obtain hp0 max0 where raw: "as_i64 (json_index raw ''hp'') = Some hp0" "as_i64 (json_index raw ''hpMax'') = Some max0"
    "1 \<le> max0" "max0 \<le> 10000" "0 \<le> hp0" "hp0 \<le> max0" using valid_document_hp [OF valid(2)] by blast
  have eqs: "max_hp = max0" "hp = hp0" using hps raw(1,2) same [of "''hp''"] same [of "''hpMax''"] by simp_all
  have wraps: "wrap32 max_hp = max0" "wrap32 hp = hp0" using raw eqs by (simp_all add: wrap32_id in_i32_def)
  have actor: "c_max_hp ?actor = max0" "c_current_hp ?actor = hp0" "c_temp_hp ?actor = 0"
    "c_death_saves ?actor = new_death_saves" "\<not> c_is_dead ?actor" "c_id ?actor = new_id" "\<not> c_withdrawn ?actor"
    using wraps by (simp_all add: new_combatant_def)
  note r = restore_actor_vitals [OF restored, unfolded actor, OF _ _ raw(5,6) refl refl _ _]
  have hp': "as_i64 (json_index sheet ''hp'') = Some hp0" using hps eqs by simp
  have vit: "vitals_ok restored" "\<exists>found. read_vitality (se_uuids env) sheet character_id = Ok found"
    "c_character_id restored = Some character_id"
    by (rule r; use raw hp' actor in simp)+
  obtain cs ds dead where form: "restored = ?actor\<lparr>c_conditions := cs, c_death_saves := ds, c_is_dead := dead\<rparr>"
    using r(2) raw hp' actor by auto
  have fields: "c_id restored = new_id" "c_max_hp restored = max0" "c_current_hp restored = hp0" "\<not> c_withdrawn restored"
    using form actor by simp_all
  show "valid_character_document env raw" "\<not> is_nil character_id" by (fact valid)+
  show "c_id a = new_id" "c_character_id a = Some character_id" "\<not> c_withdrawn a" "\<exists>lo. c_loadout a = Some lo"
    using a fields vit(3) by simp_all
  show "as_i64 (json_index raw ''hp'') = Some (c_current_hp a)" "as_i64 (json_index raw ''hpMax'') = Some (c_max_hp a)"
    using a fields raw by simp_all
  have "read_vitality (se_uuids env) sheet character_id = read_vitality (se_uuids env) raw character_id"
    by (rule read_vitality_cong) (simp_all add: get)
  then show "\<exists>found. read_vitality (se_uuids env) raw character_id = Ok found" using vit(2) by simp
  obtain cls n where n: "as_i64 (json_index (json_index sheet ''abilities'') (casting_ability cls)) = Some n"
    "cp_ability_modifier casting = ability_modifier (wrap32 n)" using casting_from_sheet_modifier [OF casting] .
  obtain n' where "as_i64 (json_index (json_index raw ''abilities'') (casting_ability cls)) = Some n'" "1 \<le> n'" "n' \<le> 30"
    using valid_document_ability [OF valid(2) casting_ability_key] by blast
  with n(1) same [of "''abilities''"] have "1 \<le> n" "n \<le> 30" by simp_all
  from ability_modifier_small [OF this] n(2) have "\<bar>cp_ability_modifier casting\<bar> \<le> 1000000" by simp
  moreover have "vitals_ok a = vitals_ok restored" unfolding a vitals_ok_def by simp
  ultimately show "actor_ok a" using a vit(1) by (simp add: actor_ok_def)
qed

section \<open>The muster\<close>

text \<open>A participant placed with its initiative.\<close>

definition hero_of :: "sheet_env \<Rightarrow> (usize \<Rightarrow> combatant_id) \<Rightarrow> usize \<Rightarrow> uuid \<times> json \<Rightarrow> combatant \<Rightarrow> bool" where
  "hero_of env new_id index s h \<longleftrightarrow>
     (\<exists>a cell roll. hero_combatant env (new_id index) (fst s) (snd s) = Ok a
        \<and> h = a\<lparr>c_position := cell, c_initiative_roll := roll\<rparr>)"

lemma hero_of_cases:
  assumes "hero_of env new_id index s h"
  shows "actor_ok h" "c_id h = new_id index" "c_character_id h = Some (fst s)" "\<not> is_nil (fst s)" "\<not> c_withdrawn h"
    "valid_character_document env (snd s)" "as_i64 (json_index (snd s) ''hpMax'') = Some (c_max_hp h)"
    "as_i64 (json_index (snd s) ''hp'') = Some (c_current_hp h)"
    "\<exists>found. read_vitality (se_uuids env) (snd s) (fst s) = Ok found"
proof -
  obtain a cell roll where a: "hero_combatant env (new_id index) (fst s) (snd s) = Ok a"
    "h = a\<lparr>c_position := cell, c_initiative_roll := roll\<rparr>" using assms by (auto simp: hero_of_def)
  note h = hero_combatant_cases [OF a(1)]
  have "actor_ok h = actor_ok a" unfolding a(2) actor_ok_def vitals_ok_def by simp
  with h show "actor_ok h" by simp
  show "c_id h = new_id index" "c_character_id h = Some (fst s)" "\<not> is_nil (fst s)" "\<not> c_withdrawn h"
    "valid_character_document env (snd s)" "as_i64 (json_index (snd s) ''hpMax'') = Some (c_max_hp h)"
    "as_i64 (json_index (snd s) ''hp'') = Some (c_current_hp h)"
    "\<exists>found. read_vitality (se_uuids env) (snd s) (fst s) = Ok found"
    using h a(2) by simp_all
qed

lemma muster_heroes_Cons:
  assumes "muster_heroes env rr sf new_id authored seed index (s # sheets) = Ok heroes"
  obtains h rest where "hero_of env new_id index s h" "muster_heroes env rr sf new_id authored seed (index + 1) sheets = Ok rest"
    "heroes = h # rest"
proof (cases s)
  case (Pair character_id sheet)
  from assms obtain hero cell initiative rest where h: "hero_combatant env (new_id index) character_id sheet = Ok hero"
    "muster_heroes env rr sf new_id authored seed (index + 1) sheets = Ok rest"
    "heroes = hero\<lparr>c_position := cell, c_initiative_roll := initiative\<rparr> # rest"
    by (auto simp: Pair bind_res_Ok Let_def)
  moreover have "hero_of env new_id index s (hero\<lparr>c_position := cell, c_initiative_roll := initiative\<rparr>)"
    unfolding hero_of_def Pair fst_conv snd_conv using h(1) by blast
  ultimately show ?thesis using that by blast
qed

lemma muster_heroes_cases:
  assumes "muster_heroes env rr sf new_id authored seed index sheets = Ok heroes"
  shows "length heroes = length sheets \<and> (\<forall>i < length sheets. hero_of env new_id (index + i) (sheets ! i) (heroes ! i))"
  using assms
proof (induction sheets arbitrary: index heroes)
  case (Cons s sheets)
  from Cons.prems obtain h rest where h: "hero_of env new_id index s h"
    "muster_heroes env rr sf new_id authored seed (index + 1) sheets = Ok rest" "heroes = h # rest"
    by (rule muster_heroes_Cons)
  from Cons.IH [OF h(2)] h(1,3) show ?case by (auto simp: nth_Cons split: nat.splits)
qed simp

lemma muster_npc_fields:
  "c_id (muster_npc authored rolled index npc) = c_id npc" "c_character_id (muster_npc authored rolled index npc) = None"
  "actor_ok (muster_npc authored rolled index npc) = actor_ok npc"
  by (auto simp: muster_npc_def Let_def actor_ok_def vitals_ok_def split: option.splits)

lemma muster_npcs_each:
  assumes "b \<in> set (muster_npcs authored ids sn)"
  shows "\<exists>a\<in>set (sn_combatants sn). c_id b = c_id a \<and> actor_ok b = actor_ok a \<and> c_id a \<notin> set ids"
    "c_character_id b = None"
proof -
  obtain index npc where n: "(index, npc) \<in> set (enumerate 0 (filter (\<lambda>a. c_id a \<notin> set ids
          \<and> (case c_character_id a of None \<Rightarrow> True | Some i \<Rightarrow> i \<notin> set ids)) (sn_combatants sn)))"
    "b = muster_npc authored (sn_initiative sn) index npc" using assms unfolding muster_npcs_def by auto
  then have "npc \<in> set (sn_combatants sn)" "c_id npc \<notin> set ids"
    by (auto simp: in_set_enumerate_eq dest!: nth_mem)
  with n(2) show "\<exists>a\<in>set (sn_combatants sn). c_id b = c_id a \<and> actor_ok b = actor_ok a \<and> c_id a \<notin> set ids"
    "c_character_id b = None" by (auto simp: muster_npc_fields)
qed

section \<open>The first turn\<close>

lemma build_order_entries [simp]: "set (io_entries (build_order es)) = set es" "length (io_entries (build_order es)) = length es"
  "io_current_index (build_order es) = 0" "io_round (build_order es) = 1"
  by (simp_all add: build_order_def)

lemma opened_with_Ok:
  "opened_with p actors = Ok q \<longleftrightarrow> actors \<noteq> [] \<and> q = p\<lparr>cj_snapshot := \<lparr>sn_active = True, sn_round = 1,
     sn_current_combatant = Some (ie_id (hd (io_entries (build_order (map entry_of actors))))),
     sn_initiative = io_entries (build_order (map entry_of actors)), sn_combatants = actors\<rparr>\<rparr>"
proof -
  have "io_entries (build_order (map entry_of actors)) \<noteq> [] \<longleftrightarrow> actors \<noteq> []"
    using build_order_entries(2) [of "map entry_of actors"] by (metis length_0_conv length_map)
  then show ?thesis by (auto simp: opened_with_def Let_def bind_res_Ok order_current_def hd_conv_nth)
qed

lemma opened_with_Panic: "opened_with p actors = Panic \<longleftrightarrow> actors = []"
  by (auto simp: opened_with_def Let_def bind_res_Panic order_current_def)

lemma party_engine_open: "party_engine sf p seed = Ok r \<longleftrightarrow> open_engine sf p seed = Ok r"
  by (auto simp: party_engine_def open_engine_def bind_res_Ok Let_def set_map_def split: option.splits if_splits)

lemma party_engine_no_Panic: "party_engine sf p seed \<noteq> Panic"
  by (auto simp: party_engine_def bind_res_Panic Let_def set_map_def split: option.splits if_splits)

lemma finish_revision: "finish_if_resolved (p\<lparr>cj_revision := n\<rparr>) = (finish_if_resolved p)\<lparr>cj_revision := n\<rparr>"
  by (simp add: finish_if_resolved_def on_snapshot_def Let_def)

lemma finalize_revision:
  "snd (finalize_defense (p\<lparr>cj_revision := n\<rparr>) retreat) = (snd (finalize_defense p retreat))\<lparr>cj_revision := n\<rparr>"
  by (simp add: finalize_defense_def defense_result_def on_snapshot_def Let_def split: option.splits)

lemma closed_at_zero:
  assumes "close_engine p r evs False = Ok q"
  shows "bind_res (replace_resolved_state p (rs_combatants r) (rs_order r) no_events) (\<lambda>p2.
     Ok (snd (finalize_defense (finish_if_resolved (p2\<lparr>cj_revision := 0, cj_events := evs\<rparr>)) False))) =
     (Ok (q\<lparr>cj_revision := 0\<rparr>) :: (string, combat_projection) res)"
proof -
  obtain cur where cur: "current_id (rs_order r) = (Ok cur :: (resolve_combat_error, combatant_id option) res)"
    using assms by (auto simp: close_engine_def replace_resolved_state_def bind_res_Ok)
  then have cur': "current_id (rs_order r) = (Ok cur :: (string, combatant_id option) res)"
    by (auto simp: current_id_def bind_res_Ok split: if_splits)
  have swap: "p2\<lparr>cj_revision := 0, cj_events := evs\<rparr> = (p2\<lparr>cj_events := evs\<rparr>)\<lparr>cj_revision := 0\<rparr>" for p2 :: combat_projection
    by simp
  from assms cur cur' show ?thesis
    by (simp add: close_engine_def replace_resolved_state_def swap finish_revision finalize_revision del: combat_projection.update_convs)
qed

section \<open>Nothing panics\<close>

lemma fold_res_no_Panic: "(\<And>x a. x \<in> set xs \<Longrightarrow> f x a \<noteq> Panic) \<Longrightarrow> fold_res f xs acc \<noteq> Panic"
  by (induction xs arbitrary: acc) (auto simp: bind_res_Panic)

lemma derive_defense_no_Panic: "derive_defense cat input choice \<noteq> Panic"
  by (auto simp: derive_defense_def armored_base_def bind_res_Panic Let_def split: option.splits)

lemma starting_choice_no_Panic: "starting_choice cat input \<noteq> Panic"
  using derive_defense_no_Panic
  by (auto simp: starting_choice_def bind_res_Panic Let_def dest: fold_res_no_Panic [THEN notE, rotated] split: if_splits)

lemma owned_items_no_Panic: "owned_items items \<noteq> Panic"
  by (induction items) (auto simp: bind_res_Panic)

lemma sheet_defense_no_Panic: "sheet_defense cat sheet \<noteq> Panic"
  using derive_defense_no_Panic starting_choice_no_Panic owned_items_no_Panic
  by (auto simp: sheet_defense_def defense_score_def bind_res_Panic Let_def split: option.splits if_splits)

lemma normalize_for_read_no_Panic:
  assumes "is_object sheet"
  shows "normalize_for_read env sheet \<noteq> Panic"
proof -
  have set: "json_set k v s = (Ok s' :: (string, json) res) \<Longrightarrow> json_set l w s' \<noteq> (Panic :: (string, json) res)" for k v s s' l w
    using json_set_Ok(2) by (auto simp: json_set_Panic)
  have "json_set k v sheet \<noteq> (Panic :: (string, json) res)" for k v using assms by (simp add: json_set_Panic)
  then show ?thesis
    using sheet_defense_no_Panic [of "se_catalog env" sheet] set
    by (auto simp: normalize_for_read_def normalize_defense_def base_speed_of_def bind_res_Panic split: option.splits if_splits)
qed

lemma parse_weapon_dice_no_Panic: "parse_weapon_dice raw \<noteq> Panic"
  by (auto simp: parse_weapon_dice_def bind_res_Panic split: prod.splits)

lemma derive_item_no_Panic: "derive_item cat input cls str dex prof x acc \<noteq> Panic"
  using parse_weapon_dice_no_Panic
  by (cases x; cases acc)
    (auto simp: derive_item_def weapon_profile_def weapon_damage_type_def bind_res_Panic Let_def split: option.splits if_splits)

lemma derive_loadout_no_Panic: "derive_loadout cat input \<noteq> Panic"
proof -
  have "fold_res (derive_item cat input cls str dex prof) items acc \<noteq> Panic" for cls str dex prof items acc
    by (rule fold_res_no_Panic) (rule derive_item_no_Panic)
  then show ?thesis by (simp add: derive_loadout_def bind_res_Panic Let_def split: prod.splits)
qed

lemma count_item_no_Panic: "count_item cls item acc \<noteq> Panic"
  by (cases acc) (auto simp: count_item_def bind_res_Panic Let_def)

lemma cap_quantities_no_Panic: "cap_quantities saved qs \<noteq> Panic"
  by (induction saved qs rule: cap_quantities.induct) (auto simp: bind_res_Panic split: option.splits)

lemma loadout_from_sheet_no_Panic: "loadout_from_sheet cat sheet \<noteq> Panic"
proof -
  have items: "fold_res (count_item cls) items acc \<noteq> Panic" for cls items acc
    by (rule fold_res_no_Panic) (rule count_item_no_Panic)
  show ?thesis
    unfolding loadout_from_sheet_def Let_def
    by (simp add: bind_res_Panic items derive_loadout_no_Panic cap_quantities_no_Panic split: option.splits prod.splits)
qed

lemma learn_spells_no_Panic: "learn_spells cat cls spells \<noteq> Panic"
proof -
  have "fold_res (learn_spell cat cls lvl) ids acc \<noteq> Panic" for lvl ids acc
    by (rule fold_res_no_Panic) (simp add: learn_spell_def bind_res_Panic)
  then show ?thesis unfolding learn_spells_def
    by (intro fold_res_no_Panic) (simp add: bind_res_Panic split: prod.splits)
qed

lemma remaining_slots_no_Panic: "remaining_slots sheet slots \<noteq> Panic"
  by (induction sheet slots rule: remaining_slots.induct) (auto simp: bind_res_Panic split: option.splits)

lemma casting_from_sheet_no_Panic: "is_object sheet \<Longrightarrow> casting_from_sheet env sheet \<noteq> Panic"
  unfolding casting_from_sheet_def Let_def
  by (simp add: bind_res_Panic learn_spells_no_Panic remaining_slots_no_Panic normalize_for_read_no_Panic
      split: option.splits prod.splits)

lemma hero_combatant_no_Panic: "hero_combatant env new_id character_id raw \<noteq> Panic"
proof
  assume panic: "hero_combatant env new_id character_id raw = Panic"
  then have valid: "valid_character_document env raw" by (auto simp: hero_combatant_def bind_res_def reject_if_def split: if_splits)
  then have obj: "is_object raw" by (simp add: valid_character_document_def)
  have restore: "restore_actor u sheet i a \<noteq> Panic" for u sheet i a by (simp add: restore_actor_def bind_res_Panic Let_def)
  have speed: "hero_speed sheet \<noteq> Panic" for sheet by (simp add: hero_speed_def split: option.splits)
  from panic obtain defense sheet where norm: "normalize_for_read env raw = Ok (defense, sheet)" and "casting_from_sheet env sheet = Panic"
    unfolding hero_combatant_def Let_def
    by (auto simp: bind_res_Panic restore speed loadout_from_sheet_no_Panic normalize_for_read_no_Panic [OF obj])
  then show False using casting_from_sheet_no_Panic normalize_for_read_get(2) [OF norm obj] by blast
qed

lemma muster_heroes_no_Panic:
  "index + length sheets \<le> 4 \<Longrightarrow> muster_heroes env rr sf new_id authored seed index sheets \<noteq> Panic"
proof (induction sheets arbitrary: index)
  case (Cons s sheets)
  then have "muster_heroes env rr sf new_id authored seed (index + 1) sheets \<noteq> Panic" "index < 4" by simp_all
  then show ?case
    by (cases s) (simp add: bind_res_Panic hero_combatant_no_Panic index_at_def hero_positions_def Let_def)
qed simp

section \<open>The whole opening\<close>

definition opponents_ok :: "combat_projection \<Rightarrow> bool" where
  "opponents_ok p \<longleftrightarrow> (\<forall>a\<in>set (sn_combatants (cj_snapshot p)). actor_ok a)
     \<and> (\<forall>ae. cj_authored p = Some ae \<longrightarrow> ae_outcome ae = None)"

text \<open>The projection that \<open>bind_party\<close> puts together before the engine runs.\<close>

definition mustered ::
  "sheet_env \<Rightarrow> (usize \<Rightarrow> combatant_id) \<Rightarrow> (uuid \<times> json) list \<Rightarrow> combat_projection \<Rightarrow> combat_projection \<Rightarrow> bool" where
  "mustered env new_id sheets p p1 \<longleftrightarrow>
     (\<exists>heroes. length heroes = length sheets
        \<and> (\<forall>i < length sheets. hero_of env new_id i (sheets ! i) (heroes ! i))
        \<and> opened_with p (heroes @ muster_npcs (cj_authored p \<noteq> None) (map fst sheets) (cj_snapshot p))
            = (Ok p1 :: (string, combat_projection) res))"

lemma mustered_fields:
  assumes m: "mustered env new_id sheets p p1" and ok: "opponents_ok p"
  shows "\<forall>a\<in>set (sn_combatants (cj_snapshot p1)). actor_ok a" "sn_round (cj_snapshot p1) = 1" "sn_active (cj_snapshot p1)"
    "cj_authored p1 = cj_authored p" "cj_encounter_id p1 = cj_encounter_id p"
    "cj_campaign_scope p1 = cj_campaign_scope p"
    "s \<in> set sheets \<Longrightarrow> \<exists>h i. h \<in> set (sn_combatants (cj_snapshot p1)) \<and> hero_of env new_id i s h"
    "h \<in> set (sn_combatants (cj_snapshot p1)) \<Longrightarrow> c_character_id h = Some owner \<Longrightarrow> owner \<in> fst ` set sheets"
proof -
  from m obtain heroes where h: "length heroes = length sheets"
    "\<And>i. i < length sheets \<Longrightarrow> hero_of env new_id i (sheets ! i) (heroes ! i)"
    "opened_with p (heroes @ muster_npcs (cj_authored p \<noteq> None) (map fst sheets) (cj_snapshot p))
       = (Ok p1 :: (string, combat_projection) res)" by (auto simp: mustered_def)
  note o = h(3) [unfolded opened_with_Ok, THEN conjunct2]
  show "sn_round (cj_snapshot p1) = 1" "sn_active (cj_snapshot p1)" "cj_authored p1 = cj_authored p"
    "cj_encounter_id p1 = cj_encounter_id p" "cj_campaign_scope p1 = cj_campaign_scope p"
    using o by simp_all
  have cs: "sn_combatants (cj_snapshot p1) = heroes @ muster_npcs (cj_authored p \<noteq> None) (map fst sheets) (cj_snapshot p)"
    using o by simp
  have hero: "\<exists>i < length sheets. a = heroes ! i \<and> hero_of env new_id i (sheets ! i) a" if "a \<in> set heroes" for a
    using that h(1,2) by (metis in_set_conv_nth)
  show "\<forall>a\<in>set (sn_combatants (cj_snapshot p1)). actor_ok a"
  proof
    fix a assume "a \<in> set (sn_combatants (cj_snapshot p1))"
    then consider "a \<in> set heroes" | "a \<in> set (muster_npcs (cj_authored p \<noteq> None) (map fst sheets) (cj_snapshot p))" unfolding cs by auto
    then show "actor_ok a"
    proof cases
      case 1 then show ?thesis using hero hero_of_cases(1) by blast
    next
      case 2 then show ?thesis using muster_npcs_each(1) [OF 2] ok by (auto simp: opponents_ok_def)
    qed
  qed
  show "\<exists>h i. h \<in> set (sn_combatants (cj_snapshot p1)) \<and> hero_of env new_id i s h" if "s \<in> set sheets"
    using that h(1,2) unfolding cs by (metis UnCI in_set_conv_nth set_append)
  show "owner \<in> fst ` set sheets" if a: "a \<in> set (sn_combatants (cj_snapshot p1))" and c: "c_character_id a = Some owner" for a owner
  proof -
    have "a \<in> set heroes" using a c muster_npcs_each(2) unfolding cs by fastforce
    then obtain i where "i < length sheets" "hero_of env new_id i (sheets ! i) a" using hero by blast
    with hero_of_cases(3) [OF this(2)] c show ?thesis by (metis image_eqI nth_mem option.inject)
  qed
qed

lemma bind_party_cases:
  assumes rr: "sampler_ok rr" and ok: "opponents_ok p" and run: "bind_party env rr sf new_id sheets p seed = res"
  shows "res \<noteq> Panic"
    and "res = Ok q \<Longrightarrow> \<exists>p1 r s evs q1. mustered env new_id sheets p p1 \<and> distinct (map fst sheets)
       \<and> open_engine sf p1 seed = Ok r \<and> resolver_evolves r s \<and> resolver_ok s \<and> handed_back (encounter_stop p1) s
       \<and> stored_from p1 s evs False q1 \<and> q = q1\<lparr>cj_revision := 0\<rparr>"
proof -
  have "res \<noteq> Panic \<and> (\<forall>q. res = Ok q \<longrightarrow> (\<exists>p1 r s evs q1. mustered env new_id sheets p p1 \<and> distinct (map fst sheets)
       \<and> open_engine sf p1 seed = Ok r \<and> resolver_evolves r s \<and> resolver_ok s \<and> handed_back (encounter_stop p1) s
       \<and> stored_from p1 s evs False q1 \<and> q = q1\<lparr>cj_revision := 0\<rparr>))"
  proof (cases "sheets = [] \<or> length sheets > max_party_members \<or> card (set (map fst sheets)) \<noteq> length sheets")
    case True
    with run show ?thesis by (auto simp: bind_party_def reject_if_def)
  next
    case False
    then have dist: "distinct (map fst sheets)" by (intro card_distinct) simp
    show ?thesis
    proof (cases "muster_heroes env rr sf new_id (cj_authored p \<noteq> None) seed 0 sheets")
      case (Ok heroes)
      note m = muster_heroes_cases [OF Ok]
      let ?actors = "heroes @ muster_npcs (cj_authored p \<noteq> None) (map fst sheets) (cj_snapshot p)"
      have "?actors \<noteq> []" using m False by auto
      then obtain p1 where p1: "opened_with p ?actors = (Ok p1 :: (string, combat_projection) res)" using opened_with_Ok by blast
      have mp: "mustered env new_id sheets p p1" unfolding mustered_def using m p1 by fastforce
      note f = mustered_fields [OF mp ok]
      show ?thesis
      proof (cases "party_engine sf p1 seed")
        case r0: (Ok r)
        then have r: "open_engine sf p1 seed = Ok r" by (simp add: party_engine_open)
        have "sn_round (cj_snapshot p1) < 4294967296" using f(2) by simp
        note o = open_engine_cases [OF r f(1) this]
        obtain begun r1 where b: "begin_current_turn rr r = (begun, r1)" by fastforce
        obtain ev where ev: "begun = Ok ev" using begin_current_turn_cases(1) [OF o(1) b] by blast
        obtain res2 s where s: "settle_npcs_until rr (encounter_stop p1) [ev] r1 = (res2, s)" by fastforce
        have e1: "resolver_evolves r r1" using begin_current_turn_evolves [of r rr] b by simp
        have stop: "rs_stop_round r1 = encounter_stop p1" using e1 o(3) by (simp add: resolver_evolves_def)
        note c = settle_npcs_until_cases [OF rr resolver_evolves_ok [OF e1 o(1)] all_ranked_evolves [OF e1 o(2)] stop s]
        have es: "resolver_evolves r s" using engine.trans [OF e1] c by blast
        note oks = resolver_evolves_ok [OF es o(1)]
        have ents: "io_entries (rs_order s) = sn_initiative (cj_snapshot p1)" using es o(6) by (simp add: resolver_evolves_def)
        have maps: "\<And>ae. cj_authored p1 = Some ae \<Longrightarrow> valid_map (ae_map ae) \<and> (sn_active (cj_snapshot p1) \<longrightarrow> ae_outcome ae = None)"
          using o(9) ok f(4) by (simp add: opponents_ok_def)
        have res: "res = bind_res res2 (\<lambda>evs. bind_res (replace_resolved_state p1 (rs_combatants s) (rs_order s) no_events) (\<lambda>p2.
            Ok (snd (finalize_defense (finish_if_resolved (p2\<lparr>cj_revision := 0, cj_events := evs\<rparr>)) False))))"
          using run False Ok p1 r0 b ev s by (simp add: bind_party_def reject_if_def)
        show ?thesis
        proof (cases res2)
          case (Ok evs)
          obtain q1 where q1: "close_engine p1 s evs False = Ok q1" "stored_from p1 s evs False q1"
            using close_engine_cases [OF oks ents o(7) maps, of evs False] by blast
          have "res = Ok (q1\<lparr>cj_revision := 0\<rparr>)" using res Ok closed_at_zero [OF q1(1)] by simp
          with mp dist r es oks c Ok q1(2) show ?thesis by blast
        qed (use res c in auto)
      qed (use run False Ok p1 party_engine_no_Panic in \<open>auto simp: bind_party_def reject_if_def\<close>)
    qed (use run False in \<open>auto simp: bind_party_def reject_if_def max_party_members_def muster_heroes_no_Panic\<close>)
  qed
  then show "res \<noteq> Panic" "res = Ok q \<Longrightarrow> \<exists>p1 r s evs q1. mustered env new_id sheets p p1 \<and> distinct (map fst sheets)
       \<and> open_engine sf p1 seed = Ok r \<and> resolver_evolves r s \<and> resolver_ok s \<and> handed_back (encounter_stop p1) s
       \<and> stored_from p1 s evs False q1 \<and> q = q1\<lparr>cj_revision := 0\<rparr>" by blast+
qed

text \<open>A hero who fought can be stored: its sheet is still readable and its vitals are in order.\<close>

lemma fought_hero_storable:
  assumes u: "uuid_codec_ok (se_uuids env)" and h: "hero_of env new_id i s h" and ev: "combatant_evolves h b"
    and ids: "\<not> is_nil (new_id i)"
  shows "\<exists>sheet'. store_actor (se_uuids env) b (snd s) = Ok sheet'"
proof -
  note hc = hero_of_cases [OF h] and ef = evolves_fields [OF ev]
  obtain found where found: "read_vitality (se_uuids env) (snd s) (fst s) = Ok found" using hc(9) by blast
  have "vitals_ok b" using hc(1) ev by (simp add: actor_ok_def combatant_evolves_def)
  moreover have "is_object (snd s)" using hc(6) by (simp add: valid_character_document_def)
  ultimately show ?thesis
    by (intro store_actor_succeeds [OF u _ hc(4) _ _ _ found]) (use hc ef ids in simp_all)
qed

text \<open>Combatants of the opened encounter and those stored after its first turns.\<close>

lemma stored_from_forth:
  assumes ok: "encounter_ok q" and bwd: "\<forall>b\<in>set (sn_combatants (cj_snapshot q)). \<exists>a\<in>set (sn_combatants (cj_snapshot p)). combatant_evolves a b"
    and ids: "c_id ` set (sn_combatants (cj_snapshot q)) = c_id ` set (sn_combatants (cj_snapshot p))"
    and dist: "distinct (map c_id (sn_combatants (cj_snapshot p)))" and a: "a \<in> set (sn_combatants (cj_snapshot p))"
  shows "\<exists>b\<in>set (sn_combatants (cj_snapshot q)). combatant_evolves a b"
proof -
  from a ids obtain b where b: "b \<in> set (sn_combatants (cj_snapshot q))" "c_id b = c_id a" by (metis imageE imageI)
  with bwd obtain a' where a': "a' \<in> set (sn_combatants (cj_snapshot p))" "combatant_evolves a' b" by blast
  have "c_id a' = c_id a" using evolves_fields(1) [OF a'(2)] b(2) by simp
  then have "a' = a" using dist a a'(1) by (metis distinct_map inj_onD)
  with a' b show ?thesis by blast
qed

end
