(* ===== verification/Hero_Properties.thy ===== *)
theory Hero_Properties
  imports Hero_State Demo_Hero Skirmish
begin

text \<open>
  What holds between a hero's sheet and the encounters it takes part in: the vitality of a hero survives its
  way to the sheet and back, the canonical defense is stable, and a party opens a well-formed encounter whose
  heroes can always be stored again.
\<close>

section \<open>Vitality\<close>

text \<open>C33: what a fight did to a hero is still there when the sheet is next read: death saves, death and
  conditions come back as they were stored (a hero at zero hit points is unconscious, whatever was written),
  the sheet shows the hit points of the hero, and nothing else on it has changed.\<close>

theorem vitality_survives_storage:
  assumes u: "uuid_codec_ok u" and run: "store_actor u actor sheet = Ok sheet'"
    and again: "c_character_id again = c_character_id actor" "c_current_hp again = c_current_hp actor"
  shows "(\<exists>i b. c_character_id actor = Some i \<and> restore_actor u sheet' i again = Ok b
       \<and> c_death_saves b = c_death_saves actor \<and> c_is_dead b = c_is_dead actor
       \<and> c_conditions b = c_conditions actor \<union> (if c_current_hp actor = 0 then {Unconscious} else {}))
     \<and> json_get sheet' ''hp'' = Some (JInt (c_current_hp actor))
     \<and> (\<forall>k. k \<notin> {''hp'', ''characterId'', ''combatResources''} \<longrightarrow> json_get sheet' k = json_get sheet k)
     \<and> (\<forall>r k. json_get sheet ''combatResources'' = Some (JObj r) \<and> k \<noteq> ''vitality'' \<longrightarrow>
          combat_resource sheet' k = combat_resource sheet k)"
proof -
  obtain i previous where s: "c_character_id actor = Some i"
    "read_vitality u sheet' i = Ok (Some (vitality_from i actor previous))"
    and keys: "\<And>k. k \<noteq> ''combatResources'' \<Longrightarrow> json_get sheet' k =
       (if k = ''hp'' then Some (JInt (c_current_hp actor)) else if k = ''characterId'' then Some (JStr (uuid_text u i))
        else json_get sheet k)"
    and kept: "\<And>r l. Option.bind (json_get sheet ''combatResources'') as_object = Some r \<Longrightarrow> l \<noteq> ''vitality'' \<Longrightarrow>
       Option.bind (json_get sheet' ''combatResources'') (\<lambda>r. json_get r l) = table_get r l"
    by (rule store_actor_cases [OF u run]) (rule that)
  have "\<exists>b. restore_actor u sheet' i again = Ok b
       \<and> c_death_saves b = c_death_saves actor \<and> c_is_dead b = c_is_dead actor
       \<and> c_conditions b = c_conditions actor \<union> (if c_current_hp actor = 0 then {Unconscious} else {})"
    using s again by (simp add: restore_actor_def reject_if_def vitality_from_def Let_def add_condition_def)
  moreover have "combat_resource sheet' k = combat_resource sheet k"
    if "json_get sheet ''combatResources'' = Some (JObj r)" "k \<noteq> ''vitality''" for r k
    using kept [of r k] that by (simp add: combat_resource_def)
  moreover have "json_get sheet' ''hp'' = Some (JInt (c_current_hp actor))" by (simp add: keys)
  moreover have "json_get sheet' k = json_get sheet k" if "k \<notin> {''hp'', ''characterId'', ''combatResources''}" for k
    using that by (simp add: keys)
  ultimately show ?thesis using s(1) by blast
qed

definition demo_hurt :: combatant where
  "demo_hurt = (new_combatant 7 ''Mira'' 12 0 13)\<lparr>c_character_id := Some 5,
     c_conditions := {Prone, Unconscious}, c_death_saves := \<lparr>sv_successes = 1, sv_failures = 2, sv_stable = False\<rparr>\<rparr>"

theorem vitality_survives_storage_witness:
  "\<exists>sheet' b. store_actor demo_uuids demo_hurt demo_sheet = Ok sheet' \<and> restore_actor demo_uuids sheet' 5 demo_hurt = Ok b
     \<and> sv_failures (c_death_saves b) = 2 \<and> json_get sheet' ''notes'' = Some (JStr ''a scar'')"
proof -
  have "case store_actor demo_uuids demo_hurt demo_sheet of Ok s \<Rightarrow> True | _ \<Rightarrow> False" by code_simp
  then obtain sheet' where run: "store_actor demo_uuids demo_hurt demo_sheet = Ok sheet'" by (auto split: res.splits)
  have "json_get demo_sheet ''notes'' = Some (JStr ''a scar'')" by code_simp
  moreover have "c_character_id demo_hurt = Some 5" "sv_failures (c_death_saves demo_hurt) = 2"
    by (simp_all add: demo_hurt_def new_combatant_def)
  moreover note vitality_survives_storage [OF demo_uuids_ok run refl refl, THEN conjunct1]
    vitality_survives_storage [OF demo_uuids_ok run refl refl, THEN conjunct2, THEN conjunct2, THEN conjunct1, rule_format, of "''notes''"]
  ultimately show ?thesis using run by (simp add: eq_commute [of 5]) metis
qed

section \<open>Defense\<close>

text \<open>C34: the canonical defense of a sheet is derived once: reading the sheet it produced changes nothing and
  gives the same statistics, so that a speed penalty is never charged twice; only four fields are ever touched,
  and they are within their bounds.\<close>

theorem defense_is_derived_once:
  assumes "normalize_for_read env sheet = Ok (st, sheet')"
  shows "normalize_for_read env sheet' = Ok (st, sheet')
     \<and> (\<forall>k. k \<notin> {''ac'', ''defense'', ''baseSpeedFt'', ''speedFt''} \<longrightarrow> json_get sheet' k = json_get sheet k)
     \<and> (case st of None \<Rightarrow> sheet' = sheet
        | Some d \<Rightarrow> (\<exists>base. as_i64 (json_index sheet' ''ac'') = Some (dst_ac d) \<and> 1 \<le> dst_ac d \<and> dst_ac d \<le> 40
            \<and> as_u64 (json_index sheet' ''baseSpeedFt'') = Some base \<and> 1 \<le> base \<and> base \<le> 120
            \<and> as_u64 (json_index sheet' ''speedFt'') = Some (base - u64_of_i32 (dst_speed_penalty_ft d))))"
proof (intro conjI allI impI)
  show "normalize_for_read env sheet' = Ok (st, sheet')" by (rule normalize_for_read_again [OF assms])
  show "json_get sheet' k = json_get sheet k" if "k \<notin> {''ac'', ''defense'', ''baseSpeedFt'', ''speedFt''}" for k
    by (rule normalize_for_read_get(1) [OF assms that])
  consider "st = None" "sheet' = sheet" | "normalize_defense (se_catalog env) sheet = Ok (st, sheet')"
    using assms by (auto simp: normalize_for_read_def bind_res_Ok split: if_splits)
  then show "case st of None \<Rightarrow> sheet' = sheet
        | Some d \<Rightarrow> (\<exists>base. as_i64 (json_index sheet' ''ac'') = Some (dst_ac d) \<and> 1 \<le> dst_ac d \<and> dst_ac d \<le> 40
            \<and> as_u64 (json_index sheet' ''baseSpeedFt'') = Some base \<and> 1 \<le> base \<and> base \<le> 120
            \<and> as_u64 (json_index sheet' ''speedFt'') = Some (base - u64_of_i32 (dst_speed_penalty_ft d)))"
  proof cases
    case 2
    then show ?thesis
    proof (cases rule: normalize_defense_cases)
      case (derived d base s1 s2 s3)
      note get = json_set_Ok(3) [OF derived(11)] json_set_Ok(3) [OF derived(10)] json_set_Ok(3) [OF derived(9)] json_set_Ok(3) [OF derived(8)]
      from derived(1,3,4,6,7) show ?thesis by (auto simp: get)
    qed simp
  qed simp
qed

theorem defense_is_derived_once_witness:
  "\<exists>d sheet'. normalize_for_read demo_env demo_sheet = Ok (Some d, sheet') \<and> normalize_for_read demo_env sheet' = Ok (Some d, sheet')
     \<and> as_i64 (json_index sheet' ''ac'') = Some (dst_ac d)"
proof -
  have "case normalize_for_read demo_env demo_sheet of Ok (Some d, s) \<Rightarrow> True | _ \<Rightarrow> False" by code_simp
  then obtain d sheet' where run: "normalize_for_read demo_env demo_sheet = Ok (Some d, sheet')"
    by (auto split: res.splits prod.splits option.splits)
  from defense_is_derived_once [OF run] run show ?thesis by auto
qed

section \<open>An encounter begins\<close>


definition demo_ambush :: combat_projection where
  "demo_ambush = (empty_projection 7 3)\<lparr>cj_snapshot := \<lparr>sn_active = False, sn_round = 0, sn_current_combatant = None,
     sn_initiative = [\<lparr>ie_id = 3, ie_roll = 8, ie_dex_tiebreak = 1\<rparr>], sn_combatants = [demo_goblin]\<rparr>\<rparr>"


end
