(* ===== verification/Recovery.thy ===== *)
theory Recovery
  imports Hero
begin

text \<open>
  \<^verbatim>\<open>crates/app-application/src/recovery.rs\<close>: what happens to a hero at zero hit points while the clock of the
  adventure runs: death saves every six seconds, at most six of them, then a natural recovery after one to
  four hours. A \<open>RecoveryEngine\<close> is a random stream that every operation hands on.
\<close>

section \<open>Operations\<close>

definition recovery_actor :: "sheet_env \<Rightarrow> combatant_id \<Rightarrow> json \<Rightarrow> uuid \<Rightarrow> (string, combatant) res" where
  "recovery_actor env new_id sheet i =
     bind_res (hero_combatant env new_id i sheet) (\<lambda>actor.
     bind_res (read_vitality (se_uuids env) sheet i) (\<lambda>found.
     Ok (case found of None \<Rightarrow> actor | Some state \<Rightarrow> actor\<lparr>c_id := hv_combatant_id state\<rparr>)))"

record medicine_check =
  mc_rolls :: "i32 list"
  mc_modifier :: i32
  mc_total :: i32
  mc_disadvantage :: bool

definition medicine_modifier :: "u64 \<Rightarrow> i64 \<Rightarrow> bool \<Rightarrow> i32" where
  "medicine_modifier level wis proficient =
     i32_add (ability_modifier (wrap32 wis)) (if proficient then i32_add 2 (wrap32 (int ((level - 1) div 4))) else 0)"

definition medicine ::
  "'g sampler \<Rightarrow> combatant \<Rightarrow> json \<Rightarrow> 'g seeded_rng \<Rightarrow> (string, medicine_check) res \<times> 'g seeded_rng" where
  "medicine rr helper sheet g =
     try_state (ok_or (as_u64 (json_index sheet ''level'')) ''hero_aid_invalid'') g (\<lambda>level.
     try_state (reject_if (\<not> (1 \<le> level \<and> level \<le> 20)) ''hero_aid_invalid'') g (\<lambda>_.
     try_state (ok_or (as_i64 (json_index (json_index sheet ''abilities'') ''wis'')) ''hero_aid_invalid'') g (\<lambda>wis.
     let proficient = (Option.bind (Option.bind (json_get sheet ''skillProfs'') (\<lambda>s. json_get s ''medicine'')) bool_of = Some True);
         modifier = medicine_modifier level wis proficient;
         disadvantage = has_condition helper Poisoned;
         (first, g1) = roll_one rr D20 g;
         (rolls, g2) = (if disadvantage then (let (second, g') = roll_one rr D20 g1 in ([first, second], g')) else ([first], g1))
     in (Ok \<lparr>mc_rolls = rolls, mc_modifier = modifier, mc_total = i32_add (fold min rolls first) modifier,
            mc_disadvantage = disadvantage\<rparr>, g2))))"

definition recovery_failed :: "('e, 'a) res \<times> 's \<Rightarrow> (string, 'a) res \<times> 's" where
  "recovery_failed m = err_as ''hero_recovery_invalid'' m"

definition natural_deadline ::
  "'g sampler \<Rightarrow> combatant \<Rightarrow> u64 \<Rightarrow> 'g seeded_rng \<Rightarrow> (string, natural_recovery) res \<times> 'g seeded_rng" where
  "natural_deadline rr target now g = recovery_failed (begin_natural_recovery rr target now g)"

definition stabilize_hero ::
  "'g sampler \<Rightarrow> combatant \<Rightarrow> i32 \<Rightarrow> u64 \<Rightarrow> 'g seeded_rng \<Rightarrow>
   (string, natural_recovery option) res \<times> combatant \<times> 'g seeded_rng" where
  "stabilize_hero rr target medicine_total now g =
     (let (stable, t1) = stabilize_with_check target medicine_total in
      if \<not> stable then (Ok None, t1, g)
      else
        let (res, g1) = recovery_failed (begin_natural_recovery rr t1 now g)
        in (bind_res res (\<lambda>d. Ok (Some d)), t1, g1))"

text \<open>The death saves of a stretch of time: \<open>n\<close> of them are left, the first at \<open>tick\<close>.\<close>

fun passage_saves ::
  "'g sampler \<Rightarrow> u64 \<Rightarrow> nat \<Rightarrow> u64 \<Rightarrow> combatant \<Rightarrow> u64 \<Rightarrow> 'g seeded_rng \<Rightarrow>
   death_save_result list \<times> combatant \<times> u64 \<times> 'g seeded_rng" where
  "passage_saves rr previous 0 tick actor stable_at g = ([], actor, stable_at, g)"
| "passage_saves rr previous (Suc n) tick actor stable_at g =
     (let (result, a1, g1) = resolve_death_save rr actor g in
      case result of
        None \<Rightarrow> ([], a1, stable_at, g1)
      | Some r \<Rightarrow>
          let (rest, a2, at2, g2) = passage_saves rr previous n (tick + 1) a1
                (if ds_stable r then u64_add previous ((tick + 1) * 6) else stable_at) g1
          in (r # rest, a2, at2, g2))"

definition stable_and_down :: "combatant \<Rightarrow> bool" where
  "stable_and_down a \<longleftrightarrow> c_current_hp a = 0 \<and> sv_stable (c_death_saves a) \<and> \<not> c_is_dead a"

text \<open>
  What follows the saves: the deadline of a hero that has just become stable, the recovery when its time has
  come, and the sheet. The sheet is returned on success only: on an error the caller discards it.
\<close>

definition recovery_deadline ::
  "'g sampler \<Rightarrow> natural_recovery option \<Rightarrow> combatant \<Rightarrow> u64 \<Rightarrow> 'g seeded_rng \<Rightarrow>
   (string, natural_recovery option) res \<times> 'g seeded_rng" where
  "recovery_deadline rr scheduled actor stable_at g =
     (if stable_and_down actor \<and> scheduled = None
      then and_then (recovery_failed (begin_natural_recovery rr actor stable_at g)) (\<lambda>d g'. (Ok (Some d), g'))
      else (Ok scheduled, g))"

definition passage_outcome ::
  "uuid_codec \<Rightarrow> uuid \<Rightarrow> u64 \<Rightarrow> json \<Rightarrow> combatant \<Rightarrow> natural_recovery option \<Rightarrow> (string, json) res" where
  "passage_outcome u i now sheet actor deadline =
     (let (completed, a2) = (case deadline of
            None \<Rightarrow> (Ok False, actor)
          | Some timer \<Rightarrow> complete_natural_recovery actor timer now)
      in bind_res (map_err (\<lambda>_. ''hero_recovery_invalid'') completed) (\<lambda>_.
         bind_res (store_actor u a2 sheet) (\<lambda>stored.
         case deadline of
           Some timer \<Rightarrow> if stable_and_down a2 then schedule_natural_recovery u i timer stored else Ok stored
         | None \<Rightarrow> Ok stored)))"

definition passage ::
  "sheet_env \<Rightarrow> 'g sampler \<Rightarrow> combatant_id \<Rightarrow> json \<Rightarrow> uuid \<Rightarrow> u64 \<Rightarrow> u64 \<Rightarrow> 'g seeded_rng \<Rightarrow>
   (string, death_save_result list \<times> json) res \<times> 'g seeded_rng" where
  "passage env rr new_id sheet i previous now g =
     try_state (reject_if (now < previous) ''adventuring_clock_invalid'') g (\<lambda>_.
     try_state (read_vitality (se_uuids env) sheet i) g (\<lambda>old.
     if as_i64 (json_index sheet ''hp'') \<noteq> Some 0 \<or> (case old of None \<Rightarrow> False | Some s \<Rightarrow> hv_is_dead s)
     then (Ok ([], sheet), g)
     else
       try_state (recovery_actor env new_id sheet i) g (\<lambda>actor.
       let (events, a1, stable_at, g1) = passage_saves rr previous (min ((now - previous) div 6) 6) 0 actor previous g
       in and_then (recovery_deadline rr (Option.bind old hv_natural_recovery) a1 stable_at g1) (\<lambda>deadline g2.
          try_state (passage_outcome (se_uuids env) i now sheet a1 deadline) g2 (\<lambda>final.
          (Ok (events, final), g2))))))"

end
