(* ===== verification/Recovery_State.thy ===== *)
theory Recovery_State
  imports Recovery Hero_State
begin

text \<open>
  The loop of death saves ends a dying hero's uncertainty within five rolls, and a deadline brings a stable
  hero back.
\<close>

section \<open>The saves\<close>

definition save_rank :: "combatant \<Rightarrow> nat" where
  "save_rank c = sv_successes (c_death_saves c) + sv_failures (c_death_saves c)"

lemma death_save_progress:
  assumes "sampler_ok rr" "vitals_ok c" "resolve_death_save rr c g = (out, d, g')" "dying c" "dying d"
  shows "save_rank c < save_rank d"
proof -
  have fails: "sv_failures (c_death_saves c) < 3" "sv_failures (c_death_saves d) < 3" "c_current_hp d = 0" "\<not> sv_stable (c_death_saves d)"
    using assms(4,5) by (simp_all add: dying_def)
  have "\<not> \<not> dying c" using assms(4) by simp
  from death_save_cases [OF assms(1-3), unfolded if_not_P [OF this]] obtain e :: death_save_result where
    e: "if ds_roll e = 20 then c_current_hp d = 1 \<and> \<not> c_is_dead d \<and> c_death_saves d = new_death_saves \<and> Unconscious \<notin> c_conditions d
        else c_current_hp d = 0
          \<and> (if 10 \<le> ds_roll e then \<not> c_is_dead d
               \<and> (if sv_successes (c_death_saves c) = 2 then sv_stable (c_death_saves d)
                  else \<not> sv_stable (c_death_saves d)
                    \<and> sv_successes (c_death_saves d) = sv_successes (c_death_saves c) + 1
                    \<and> sv_failures (c_death_saves d) = sv_failures (c_death_saves c))
             else sv_failures (c_death_saves d) = min 3 (sv_failures (c_death_saves c) + (if ds_roll e = 1 then 2 else 1))
               \<and> (c_is_dead d \<longleftrightarrow> sv_failures (c_death_saves d) = 3)
               \<and> sv_successes (c_death_saves d) = sv_successes (c_death_saves c))"
    by (elim exE conjE) (rule that)
  consider (twenty) "ds_roll e = 20" | (success) "ds_roll e \<noteq> 20" "10 \<le> ds_roll e" | (failure) "ds_roll e \<noteq> 20" "\<not> 10 \<le> ds_roll e"
    by blast
  then show ?thesis
  proof cases
    case twenty
    with e fails(3) show ?thesis by simp
  next
    case success
    with e fails(4) show ?thesis by (cases "sv_successes (c_death_saves c) = 2") (simp_all add: save_rank_def)
  next
    case failure
    then have "sv_failures (c_death_saves d) = min 3 (sv_failures (c_death_saves c) + (if ds_roll e = 1 then 2 else 1))"
      "sv_successes (c_death_saves d) = sv_successes (c_death_saves c)" using e by simp_all
    with fails(1,2) show ?thesis by (cases "ds_roll e = 1") (simp_all add: save_rank_def)
  qed
qed

lemma dying_rank: "vitals_ok c \<Longrightarrow> dying c \<Longrightarrow> save_rank c \<le> 4"
  using vitals_saves [of c] by (simp add: dying_def save_rank_def)

lemma passage_saves_cases:
  assumes rr: "sampler_ok rr"
    and "passage_saves rr previous n tick actor stable_at g = (events, d, at', g')" "vitals_ok actor"
  shows "vitals_ok d \<and> combatant_evolves actor d \<and> length events \<le> n
     \<and> (at' = stable_at \<or> (\<exists>k. 1 \<le> k \<and> k \<le> n \<and> at' = u64_add previous ((tick + k) * 6)))
     \<and> (dying d \<longrightarrow> save_rank actor + n \<le> save_rank d)
     \<and> (\<not> dying actor \<longrightarrow> d = actor)"
  using assms(2,3)
proof (induction n arbitrary: tick actor stable_at g events d at' g')
  case 0
  then show ?case by (simp add: roster.refl)
next
  case (Suc n)
  obtain result a1 g1 where r: "resolve_death_save rr actor g = (result, a1, g1)" using prod_cases3 by blast
  have ev: "combatant_evolves actor a1" using death_save_evolves [of actor rr g] r by simp
  then have ok: "vitals_ok a1" using Suc.prems(2) by (simp add: combatant_evolves_def)
  show ?case
  proof (cases result)
    case None
    have "\<not> dying actor" "a1 = actor"
      using r None by (auto simp: resolve_death_save_def Let_def split: if_splits prod.splits)
    with Suc.prems r None show ?thesis by (auto simp: roster.refl)
  next
    case (Some e)
    then have dy: "dying actor" using r by (auto simp: resolve_death_save_def Let_def split: if_splits prod.splits)
    let ?at = "if ds_stable e then u64_add previous ((tick + 1) * 6) else stable_at"
    obtain rest a2 at2 g2 where rec: "passage_saves rr previous n (tick + 1) a1 ?at g1 = (rest, a2, at2, g2)"
      using prod_cases4 by blast
    note ih = Suc.IH [OF rec ok]
    have out: "events = e # rest" "d = a2" "at' = at2" using Suc.prems(1) r Some rec by (simp_all add: Let_def)
    have at: "at' = stable_at \<or> (\<exists>k. 1 \<le> k \<and> k \<le> Suc n \<and> at' = u64_add previous ((tick + k) * 6))"
    proof -
      consider "at2 = ?at" | k where "1 \<le> k" "k \<le> n" "at2 = u64_add previous ((tick + 1 + k) * 6)" using ih by blast
      then show ?thesis
      proof cases
        case 1
        show ?thesis
        proof (cases "ds_stable e")
          case True
          with 1 out show ?thesis by (intro disjI2 exI [of _ 1]) simp
        next
          case False
          with 1 out show ?thesis by simp
        qed
      next
        case (2 k)
        then show ?thesis using out by (intro disjI2 exI [of _ "Suc k"]) (simp add: add.commute add.left_commute)
      qed
    qed
    have "save_rank actor + Suc n \<le> save_rank d" if "dying d"
    proof -
      have "dying a1" using ih that out by (cases "dying a1") auto
      from death_save_progress [OF rr Suc.prems(2) r dy this] ih that out show ?thesis by simp
    qed
    with ih at out dy roster.trans [OF ev] show ?thesis by auto
  qed
qed

text \<open>Five saves decide.\<close>

lemma five_saves_decide:
  assumes "sampler_ok rr" "passage_saves rr previous n tick actor stable_at g = (events, d, at', g')" "vitals_ok actor" "5 \<le> n"
  shows "\<not> dying d"
  using passage_saves_cases [OF assms(1-3)] dying_rank [of d] assms(4) by linarith

lemma decided:
  assumes "vitals_ok d" "\<not> dying d" "c_current_hp d = 0" "\<not> c_is_dead d"
  shows "sv_stable (c_death_saves d)"
  using assms(2-4) vitals_saves [OF assms(1)] assms(1) [unfolded vitals_ok_def] by (auto simp: dying_def)

section \<open>Scheduling\<close>

lemma schedule_cases:
  assumes u: "uuid_codec_ok u" and run: "schedule_natural_recovery u i d sheet = Ok sheet'"
  shows "\<exists>v. read_vitality u sheet i = Ok (Some v) \<and> read_vitality u sheet' i = Ok (Some (v\<lparr>hv_natural_recovery := Some d\<rparr>))"
    "json_get sheet' ''hp'' = json_get sheet ''hp''"
proof -
  from run obtain v where v: "read_vitality u sheet i = Ok (Some v)"
    and rest: "(case hv_natural_recovery v of
       Some existing \<Rightarrow> if existing = d then Ok sheet else Err ''hero_recovery_already_scheduled''
     | None \<Rightarrow> bind_res (write_vitality u (v\<lparr>hv_natural_recovery := Some d\<rparr>) sheet) (\<lambda>candidate.
         bind_res (read_vitality u candidate i) (\<lambda>_. Ok candidate))) = Ok sheet'"
    by (auto simp: schedule_natural_recovery_def bind_res_Ok)
  show "\<exists>v. read_vitality u sheet i = Ok (Some v) \<and> read_vitality u sheet' i = Ok (Some (v\<lparr>hv_natural_recovery := Some d\<rparr>))"
    "json_get sheet' ''hp'' = json_get sheet ''hp''"
  proof -
    have "read_vitality u sheet' i = Ok (Some (v\<lparr>hv_natural_recovery := Some d\<rparr>)) \<and> json_get sheet' ''hp'' = json_get sheet ''hp''"
    proof (cases "hv_natural_recovery v")
      case (Some e)
      with rest have "e = d" "sheet' = sheet" by (auto split: if_splits)
      moreover from this Some have "v\<lparr>hv_natural_recovery := Some d\<rparr> = v" by simp
      ultimately show ?thesis using v by simp
    next
      case None
      with rest obtain found where w: "write_vitality u (v\<lparr>hv_natural_recovery := Some d\<rparr>) sheet = (Ok sheet' :: (string, json) res)"
        "read_vitality u sheet' i = Ok found" by (auto simp: bind_res_Ok)
      note w1 = write_vitality_Ok [OF w(1)]
      have "found \<noteq> None"
      proof
        assume "found = None"
        with w(2) have "stored_vitality sheet' = None" by (simp only: read_vitality_None)
        with w1(1) show False by simp
      qed
      then obtain v' where v': "found = Some v'" by blast
      with w(2) read_vitality_Some w1(1) have "vitality_of u (vitality_value u (v\<lparr>hv_natural_recovery := Some d\<rparr>)) = Some v'" by force
      then have "v' = v\<lparr>hv_natural_recovery := Some d\<rparr>" by (simp add: vitality_of_value [OF u] split: if_splits)
      with w(2) v' w1(3) [of "''hp''"] show ?thesis by simp
    qed
    with v show "\<exists>v. read_vitality u sheet i = Ok (Some v) \<and> read_vitality u sheet' i = Ok (Some (v\<lparr>hv_natural_recovery := Some d\<rparr>))"
      "json_get sheet' ''hp'' = json_get sheet ''hp''" by blast+
  qed
qed

section \<open>Time passes\<close>

lemma recovery_actor_cases:
  assumes "recovery_actor env new_id sheet i = Ok actor"
  shows "vitals_ok actor" "c_character_id actor = Some i" "as_i64 (json_index sheet ''hp'') = Some (c_current_hp actor)"
    "\<exists>found. read_vitality (se_uuids env) sheet i = Ok found \<and> (\<forall>v. found = Some v \<longrightarrow> c_id actor = hv_combatant_id v)"
proof -
  from assms obtain a found where a: "hero_combatant env new_id i sheet = Ok a" "read_vitality (se_uuids env) sheet i = Ok found"
    "actor = (case found of None \<Rightarrow> a | Some state \<Rightarrow> a\<lparr>c_id := hv_combatant_id state\<rparr>)"
    by (auto simp: recovery_actor_def bind_res_Ok)
  note h = hero_combatant_cases [OF a(1)]
  have same: "vitals_ok (a\<lparr>c_id := k\<rparr>) = vitals_ok a" for k unfolding vitals_ok_def by simp
  show "vitals_ok actor" using h(1) same a(3) by (auto simp: actor_ok_def split: option.splits)
  show "c_character_id actor = Some i" "as_i64 (json_index sheet ''hp'') = Some (c_current_hp actor)"
    using h(3,8) a(3) by (auto split: option.splits)
  show "\<exists>found. read_vitality (se_uuids env) sheet i = Ok found \<and> (\<forall>v. found = Some v \<longrightarrow> c_id actor = hv_combatant_id v)"
    using a(2,3) by auto
qed

lemma complete_cases:
  assumes "complete_natural_recovery c d now = (Ok b, c')" "vitals_ok c"
  shows "vitals_ok c'" "c_id c' = c_id c" "c_character_id c' = c_character_id c" "\<not> dying c \<Longrightarrow> \<not> dying c'"
    "if b then c_current_hp c' = 1 \<and> \<not> c_is_dead c' else c' = c \<and> (now < nr_ready_at_seconds d \<or> \<not> recoverable c)"
    "nr_combatant d = c_id c"
proof -
  have id: "nr_combatant d = c_id c"
    and cases: "if now < nr_ready_at_seconds d \<or> \<not> recoverable c then b = False \<and> c' = c else b = True \<and> c' = apply_healing c 1"
    using assms(1) by (auto simp: complete_natural_recovery_def run_Ok reject_if_def split: if_splits)
  show "nr_combatant d = c_id c" by (fact id)
  have "vitals_ok c' \<and> c_id c' = c_id c \<and> c_character_id c' = c_character_id c \<and> (\<not> dying c \<longrightarrow> \<not> dying c')
    \<and> (if b then c_current_hp c' = 1 \<and> \<not> c_is_dead c' else c' = c \<and> (now < nr_ready_at_seconds d \<or> \<not> recoverable c))"
  proof (cases "now < nr_ready_at_seconds d \<or> \<not> recoverable c")
    case True
    then have "\<not> b" "c' = c" using cases by simp_all
    with True assms(2) show ?thesis by simp
  next
    case False
    then have c: "b" "c' = apply_healing c 1" using cases by simp_all
    from False have dead: "\<not> c_is_dead c" "c_current_hp c = 0" by (auto simp: recoverable_def)
    have ev: "combatant_evolves c (apply_healing c 1)" by (rule healing_evolves) simp_all
    note h = heal_one [OF assms(2) dead]
    from ev assms(2) have "vitals_ok (apply_healing c 1)" by (simp add: combatant_evolves_def)
    moreover have "\<not> dying (apply_healing c 1)" using h(1) by (simp add: dying_def)
    ultimately show ?thesis using c h(1,4) evolves_fields(1,2) [OF ev] by simp
  qed
  then show "vitals_ok c'" "c_id c' = c_id c" "c_character_id c' = c_character_id c" "\<not> dying c \<Longrightarrow> \<not> dying c'"
    "if b then c_current_hp c' = 1 \<and> \<not> c_is_dead c' else c' = c \<and> (now < nr_ready_at_seconds d \<or> \<not> recoverable c)" by blast+
qed

text \<open>What a stretch of time leaves on the sheet: the state of a combatant that evolved from the one the sheet
  described, and, for a hero that is stable at zero, a timer that is still running.\<close>

lemma outcome_cases:
  assumes u: "uuid_codec_ok u" and run: "passage_outcome u i now sheet a1 deadline = Ok sheet'"
    and a1: "vitals_ok a1" "c_character_id a1 = Some i" and set: "stable_and_down a1 \<Longrightarrow> deadline \<noteq> None"
  obtains a2 v where "vitals_ok a2" "\<not> dying a1 \<Longrightarrow> \<not> dying a2"
    "read_vitality u sheet' i = Ok (Some v)" "hv_is_dead v = c_is_dead a2" "hv_death_saves v = c_death_saves a2"
    "as_i64 (json_index sheet' ''hp'') = Some (c_current_hp a2)"
    "stable_and_down a2 \<Longrightarrow> \<exists>d. hv_natural_recovery v = Some d \<and> now < nr_ready_at_seconds d"
proof -
  let ?complete = "case deadline of None \<Rightarrow> (Ok False, a1) | Some timer \<Rightarrow> complete_natural_recovery a1 timer now"
  obtain out a2 where comp0: "?complete = (out, a2)" by fastforce
  with run obtain b stored where comp: "?complete = (Ok b, a2)" and stored: "store_actor u a2 sheet = Ok stored"
    and final: "(case deadline of Some timer \<Rightarrow> if stable_and_down a2 then schedule_natural_recovery u i timer stored else Ok stored
               | None \<Rightarrow> Ok stored) = Ok sheet'"
    by (auto simp: passage_outcome_def bind_res_Ok)
  have a2: "vitals_ok a2" "c_character_id a2 = Some i" "\<not> dying a1 \<Longrightarrow> \<not> dying a2"
    using comp a1 complete_cases(1,3,4) by (cases deadline; force)+
  obtain prev where st: "read_vitality u stored i = Ok (Some (vitality_from i a2 prev))"
    "json_get stored ''hp'' = Some (JInt (c_current_hp a2))"
    by (rule store_actor_cases [OF u stored]) (use a2(2) in simp)
  have "\<exists>v. read_vitality u sheet' i = Ok (Some v) \<and> hv_is_dead v = c_is_dead a2 \<and> hv_death_saves v = c_death_saves a2
      \<and> json_get sheet' ''hp'' = json_get stored ''hp''
      \<and> (stable_and_down a2 \<longrightarrow> (\<exists>d. hv_natural_recovery v = Some d \<and> now < nr_ready_at_seconds d))"
  proof (cases "stable_and_down a2")
    case False
    then have "sheet' = stored" using final by (auto split: option.splits)
    with st(1) False show ?thesis by (auto simp: vitality_from_def Let_def)
  next
    case True
    have "deadline \<noteq> None"
    proof
      assume none: "deadline = None"
      then have "a2 = a1" using comp by simp
      with True set none show False by blast
    qed
    then obtain timer where timer: "deadline = Some timer" by blast
    with comp have "complete_natural_recovery a1 timer now = (Ok b, a2)" by simp
    note cc = complete_cases(5) [OF this a1(1)]
    have "\<not> b" using cc True by (auto simp: stable_and_down_def)
    with cc have "a2 = a1" "now < nr_ready_at_seconds timer \<or> \<not> recoverable a1" by simp_all
    moreover have "recoverable a1" if "a2 = a1"
      using True that vitals_hp [OF a1(1)] by (simp add: recoverable_def stable_and_down_def)
    ultimately have later: "now < nr_ready_at_seconds timer" by blast
    from final timer True have "schedule_natural_recovery u i timer stored = Ok sheet'" by simp
    from schedule_cases [OF u this] st(1) later show ?thesis by (auto simp: vitality_from_def Let_def)
  qed
  then obtain v where v: "read_vitality u sheet' i = Ok (Some v)" "hv_is_dead v = c_is_dead a2" "hv_death_saves v = c_death_saves a2"
    "json_get sheet' ''hp'' = json_get stored ''hp''"
    "stable_and_down a2 \<Longrightarrow> \<exists>d. hv_natural_recovery v = Some d \<and> now < nr_ready_at_seconds d" by blast
  have hp: "as_i64 (json_index sheet' ''hp'') = Some (c_current_hp a2)"
    using v(4) st(2) vitals_hp [OF a2(1)] by (simp add: json_index_def)
  show thesis by (rule that [OF a2(1,3) v(1-3) hp v(5)])
qed

lemma passage_cases:
  assumes rr: "sampler_ok rr" and u: "uuid_codec_ok (se_uuids env)"
    and run: "passage env rr new_id sheet i previous now g = (Ok (events, sheet'), g')"
    and down: "as_i64 (json_index sheet ''hp'') = Some 0" "\<And>v. read_vitality (se_uuids env) sheet i = Ok (Some v) \<Longrightarrow> \<not> hv_is_dead v"
  obtains a2 v where "vitals_ok a2" "previous \<le> now" "length events \<le> 6"
    "30 \<le> now - previous \<Longrightarrow> \<not> dying a2"
    "read_vitality (se_uuids env) sheet' i = Ok (Some v)" "hv_is_dead v = c_is_dead a2"
    "hv_death_saves v = c_death_saves a2" "as_i64 (json_index sheet' ''hp'') = Some (c_current_hp a2)"
    "stable_and_down a2 \<Longrightarrow> \<exists>d. hv_natural_recovery v = Some d \<and> now < nr_ready_at_seconds d"
proof -
  let ?u = "se_uuids env" and ?n = "min ((now - previous) div 6) 6"
  from run have le: "previous \<le> now" by (auto simp: passage_def reject_if_def split: if_splits)
  from run obtain old where old: "read_vitality ?u sheet i = Ok old" by (auto simp: passage_def run_Ok)
  with down(2) have alive: "\<not> (case old of None \<Rightarrow> False | Some s \<Rightarrow> hv_is_dead s)" by (auto split: option.splits)
  obtain actor where actor: "recovery_actor env new_id sheet i = Ok actor"
    using run le old down(1) alive by (auto simp: passage_def run_Ok reject_if_def)
  obtain events1 a1 stable_at g1 where saves: "passage_saves rr previous ?n 0 actor previous g = (events1, a1, stable_at, g1)"
    using prod_cases4 by blast
  let ?sched = "Option.bind old hv_natural_recovery"
  obtain deadline g2 where start: "recovery_deadline rr ?sched a1 stable_at g1 = (Ok deadline, g2)"
    and out: "passage_outcome ?u i now sheet a1 deadline = Ok sheet'" and ev: "events1 = events"
    using run le old down(1) alive actor saves by (auto simp: passage_def run_Ok reject_if_def)
  note ra = recovery_actor_cases [OF actor]
  note sv = passage_saves_cases [OF rr saves ra(1)]
  have a1: "vitals_ok a1" "c_character_id a1 = Some i" using sv ra(2) evolves_fields(2) by metis+
  have set: "stable_and_down a1 \<Longrightarrow> deadline \<noteq> None"
    using start by (auto simp: recovery_deadline_def run_Ok split: if_splits)
  have settled: "\<not> dying a1" if "30 \<le> now - previous"
  proof -
    from that have "5 \<le> (now - previous) div 6" by (simp add: less_eq_div_iff_mult_less_eq)
    then have "5 \<le> ?n" by simp
    from five_saves_decide [OF rr saves ra(1) this] show ?thesis .
  qed
  have len: "length events \<le> 6" using sv ev by simp
  obtain a2 v where a2: "vitals_ok a2" "\<not> dying a1 \<Longrightarrow> \<not> dying a2"
    and v: "read_vitality ?u sheet' i = Ok (Some v)" "hv_is_dead v = c_is_dead a2" "hv_death_saves v = c_death_saves a2"
    "as_i64 (json_index sheet' ''hp'') = Some (c_current_hp a2)"
    "stable_and_down a2 \<Longrightarrow> \<exists>d. hv_natural_recovery v = Some d \<and> now < nr_ready_at_seconds d"
    by (rule outcome_cases [OF u out a1 set]) (assumption, rule that)
  show thesis by (rule that [OF a2(1) le len _ v]) (use settled a2(2) in blast)+
qed

end
