(* ===== verification/Recovery_Properties.thy ===== *)
theory Recovery_Properties
  imports Recovery_State Hero_Properties
begin

text \<open>
  What the clock of the adventure does to a hero at zero hit points, stated over
  \<^verbatim>\<open>crates/app-application/src/recovery.rs\<close>.
\<close>

text \<open>C36: time decides. When half a minute or more passes, a dying hero is up again, dead, or stable with a
  recovery whose hour has not come yet: nobody stays dying, and nobody stays stable past the hour. There are
  never more than six death saves, and a hero that is up or dead is left alone.\<close>

theorem time_decides_the_dying:
  assumes rr: "sampler_ok rr" and u: "uuid_codec_ok (se_uuids env)"
    and run: "passage env rr new_id sheet i previous now g = (Ok (events, sheet'), g')"
  shows "if as_i64 (json_index sheet ''hp'') \<noteq> Some 0
         \<or> (\<exists>v. read_vitality (se_uuids env) sheet i = Ok (Some v) \<and> hv_is_dead v)
     then events = [] \<and> sheet' = sheet \<and> g' = g
     else length events \<le> 6 \<and> (\<exists>v hp. read_vitality (se_uuids env) sheet' i = Ok (Some v)
       \<and> as_i64 (json_index sheet' ''hp'') = Some hp \<and> 0 \<le> hp
       \<and> (30 \<le> now - previous \<longrightarrow> 0 < hp \<or> hv_is_dead v
            \<or> sv_stable (hv_death_saves v) \<and> (\<exists>d. hv_natural_recovery v = Some d \<and> now < nr_ready_at_seconds d)))"
proof (cases "as_i64 (json_index sheet ''hp'') \<noteq> Some 0 \<or> (\<exists>v. read_vitality (se_uuids env) sheet i = Ok (Some v) \<and> hv_is_dead v)")
  case True
  with run show ?thesis by (auto simp: passage_def run_Ok split: if_splits option.splits)
next
  case False
  then have down: "as_i64 (json_index sheet ''hp'') = Some 0"
    "\<And>v. read_vitality (se_uuids env) sheet i = Ok (Some v) \<Longrightarrow> \<not> hv_is_dead v" by blast+
  from rr u run down obtain a2 v where a2: "vitals_ok a2" "length events \<le> 6" "30 \<le> now - previous \<Longrightarrow> \<not> dying a2"
    and v: "read_vitality (se_uuids env) sheet' i = Ok (Some v)" "hv_is_dead v = c_is_dead a2"
    "hv_death_saves v = c_death_saves a2" "as_i64 (json_index sheet' ''hp'') = Some (c_current_hp a2)"
    "stable_and_down a2 \<Longrightarrow> \<exists>d. hv_natural_recovery v = Some d \<and> now < nr_ready_at_seconds d"
    by (rule passage_cases) (assumption, rule that)
  have "0 < c_current_hp a2 \<or> hv_is_dead v
            \<or> sv_stable (hv_death_saves v) \<and> (\<exists>d. hv_natural_recovery v = Some d \<and> now < nr_ready_at_seconds d)"
    if "30 \<le> now - previous"
  proof (cases "c_current_hp a2 = 0 \<and> \<not> c_is_dead a2")
    case True
    with decided [OF a2(1) a2(3) [OF that]] have "sv_stable (c_death_saves a2)" by blast
    with True v(3,5) show ?thesis by (simp add: stable_and_down_def)
  next
    case False
    with v(2) vitals_hp [OF a2(1)] show ?thesis by auto
  qed
  with False a2(2) v(1,4) vitals_hp [OF a2(1)] show ?thesis by auto
qed

definition demo_downed :: json where
  "demo_downed = JObj (map (\<lambda>(k, v). if k = ''hp'' then (k, JInt 0) else (k, v)) (case demo_sheet of JObj members \<Rightarrow> members))"

theorem time_decides_the_dying_witness:
  "\<exists>events sheet' g'. passage demo_env demo_rr 41 demo_downed 5 100 160 \<lparr>rng_inner = 9, rng_seed = 9\<rparr> = (Ok (events, sheet'), g')
     \<and> length events \<le> 6 \<and> (\<exists>v hp. read_vitality demo_uuids sheet' 5 = Ok (Some v) \<and> as_i64 (json_index sheet' ''hp'') = Some hp
       \<and> (0 < hp \<or> hv_is_dead v \<or> sv_stable (hv_death_saves v)))"
proof -
  let ?run = "passage demo_env demo_rr 41 demo_downed 5 100 160 \<lparr>rng_inner = 9, rng_seed = 9\<rparr>"
  have "case ?run of (Ok p, g') \<Rightarrow> True | _ \<Rightarrow> False" by code_simp
  then obtain events sheet' g' where run: "?run = (Ok (events, sheet'), g')" by (auto split: res.splits prod.splits)
  have hp: "as_i64 (json_index demo_downed ''hp'') = Some 0" by code_simp
  have "read_vitality demo_uuids demo_downed 5 = Ok None" by code_simp
  then have none: "\<not> (\<exists>v. read_vitality demo_uuids demo_downed 5 = Ok (Some v) \<and> hv_is_dead v)" by simp
  have env: "se_uuids demo_env = demo_uuids" by (simp add: demo_env_def)
  from time_decides_the_dying [OF demo_sampler _ run, unfolded env, OF demo_uuids_ok] hp none run show ?thesis by auto
qed

end
