(* ===== verification/Sqlite.thy ===== *)
theory Sqlite
  imports Combat_Service Recovery
begin

text \<open>
  The tables the combat store works on, and what it relies on of the database
  (\<^verbatim>\<open>crates/adapter-sqlite/src\<close>: \<^verbatim>\<open>rest.rs\<close>, \<^verbatim>\<open>campaigns.rs\<close>, \<^verbatim>\<open>campaign_state.rs\<close>, \<^verbatim>\<open>party.rs\<close>,
  \<^verbatim>\<open>adventure.rs\<close>). A row holds the values its text columns decode to; columns the modelled statements
  neither read nor write are left out, as are timestamps and the change feed that triggers fill. Every
  statement may fail: a state carries the script of the failures still to come, and an operation that ends in
  an error leaves the tables as they were when it began.
\<close>

section \<open>Tables\<close>

record encounter_row =
  er_session :: uuid
  er_round :: i64
  er_active_turn :: "combatant_id option"
  er_ended :: bool
  er_revision :: i64
  er_projection :: "combat_projection option"

record token_row =
  tk_encounter :: uuid
  tk_current_hp :: i32
  tk_max_hp :: i32
  tk_ac :: i32
  tk_position :: position
  tk_conditions :: "condition set"
  tk_is_dead :: bool

record session_row =
  sr_campaign :: uuid
  sr_created_at :: i64
  sr_revision :: i64

record party_row =
  py_campaign :: uuid
  py_member :: uuid
  py_character :: uuid
  py_sheet :: json

record event_row =
  ce_campaign :: uuid
  ce_revision :: u64
  ce_kind :: string
  ce_causation :: string

record store =
  st_encounters :: "(uuid, encounter_row) table"
  st_tokens :: "(combatant_id, token_row) table"
  st_receipts :: "(uuid \<times> string, string \<times> combat_projection) table"
  st_sessions :: "(uuid, session_row) table"
  st_clocks :: "(uuid, i64) table"
  st_roots :: "(uuid, uuid \<times> json) table"
  st_party :: "party_row list"
  st_adventures :: "(uuid, adventure_state) table"
  st_events :: "event_row list"
  st_manifests :: "uuid list"

section \<open>Statements and transactions\<close>

type_synonym tx = "store \<times> bool list"

abbreviation sqlite :: "string \<Rightarrow> repository_error" where
  "sqlite operation \<equiv> Operation operation ''sqlite''"

type_synonym 'd session_of = "'d \<times> bool list"

definition statement ::
  "repository_error \<Rightarrow> ('d \<Rightarrow> 'a \<times> 'd) \<Rightarrow> 'd session_of \<Rightarrow> (repository_error, 'a) res \<times> 'd session_of" where
  "statement e f w =
     (case w of (d, faults) \<Rightarrow>
        if faults \<noteq> [] \<and> hd faults then (Err e, (d, tl faults))
        else (Ok (fst (f d)), (snd (f d), tl faults)))"

definition query :: "repository_error \<Rightarrow> ('d \<Rightarrow> 'a) \<Rightarrow> 'd session_of \<Rightarrow> (repository_error, 'a) res \<times> 'd session_of" where
  "query e f w = statement e (\<lambda>d. (f d, d)) w"

definition execute :: "repository_error \<Rightarrow> ('d \<Rightarrow> 'd) \<Rightarrow> 'd session_of \<Rightarrow> (repository_error, unit) res \<times> 'd session_of" where
  "execute e f w = statement e (\<lambda>d. ((), f d)) w"

text \<open>\<open>fetch_one\<close>: no row is an error of the statement.\<close>

definition fetch_one ::
  "repository_error \<Rightarrow> ('d \<Rightarrow> 'a option) \<Rightarrow> 'd session_of \<Rightarrow> (repository_error, 'a) res \<times> 'd session_of" where
  "fetch_one e f w = and_then (query e f w) (\<lambda>row w1. try_state (ok_or row e) w1 (\<lambda>x. (Ok x, w1)))"

text \<open>
  \<open>begin\<close>, a body, and \<open>commit\<close>. The body returns with its value the operation name of the commit, or
  \<open>None\<close> where it returns without one; a transaction that is dropped is rolled back.
\<close>

definition transaction_as ::
  "(string \<Rightarrow> repository_error) \<Rightarrow> string \<Rightarrow>
   ('d session_of \<Rightarrow> (repository_error, 'a \<times> string option) res \<times> 'd session_of) \<Rightarrow>
   'd session_of \<Rightarrow> (repository_error, 'a) res \<times> 'd session_of" where
  "transaction_as failure begin_op body w =
     and_then (query (failure begin_op) (\<lambda>_. ()) w) (\<lambda>_ w1.
     case body w1 of
       (Ok (x, Some commit_op), w2) \<Rightarrow>
         (case query (failure commit_op) (\<lambda>_. ()) w2 of
            (Ok _, w3) \<Rightarrow> (Ok x, w3)
          | (Err e, w3) \<Rightarrow> (Err e, (fst w, snd w3))
          | (Panic, w3) \<Rightarrow> (Panic, (fst w, snd w3)))
     | (Ok (x, None), w2) \<Rightarrow> (Ok x, (fst w, snd w2))
     | (Err e, w2) \<Rightarrow> (Err e, (fst w, snd w2))
     | (Panic, w2) \<Rightarrow> (Panic, (fst w, snd w2)))"

definition transaction ::
  "string \<Rightarrow> (tx \<Rightarrow> (repository_error, 'a \<times> string option) res \<times> tx) \<Rightarrow> tx \<Rightarrow> (repository_error, 'a) res \<times> tx" where
  "transaction begin_op body w = transaction_as sqlite begin_op body w"

text \<open>
  What the operations are given: the character catalog and crates of \<open>sheet_env\<close>, the sampler, the fresh
  generator a hero's recovery is drawn from, the parser and the rendering of a command's JSON text, and the
  reading of a prepared human command (\<^verbatim>\<open>human_commands.rs\<close>), which only selects.
\<close>

record prepared_command =
  pc_stamp :: "(uuid \<times> u64 \<times> combatant_id) option"
  pc_action :: "(combatant_id \<Rightarrow> combat_action_command) option"

record 'g store_env =
  sv_sheets :: sheet_env
  sv_sampler :: "'g sampler"
  sv_fresh :: "uuid \<Rightarrow> 'g seeded_rng"
  sv_parse :: "string \<Rightarrow> json option"
  sv_request :: "combat_request \<Rightarrow> json"
  sv_prepared :: "uuid \<Rightarrow> string \<Rightarrow> uuid \<Rightarrow> uuid \<Rightarrow> store \<Rightarrow> (repository_error, prepared_command) res"

section \<open>The clock\<close>

definition read_clock :: "uuid \<Rightarrow> tx \<Rightarrow> (repository_error, u64 option) res \<times> tx" where
  "read_clock session w =
     and_then (query (sqlite ''read_adventuring_clock'') (\<lambda>d. table_get (st_clocks d) session) w) (\<lambda>row w1.
     case row of
       None \<Rightarrow> (Ok None, w1)
     | Some v \<Rightarrow> if v < 0 then (Err (sqlite ''adventuring_clock_invalid''), w1) else (Ok (Some (nat v)), w1))"

definition clock_or_zero :: "u64 option \<Rightarrow> u64" where
  "clock_or_zero t = (case t of None \<Rightarrow> 0 | Some s \<Rightarrow> s)"

definition persist_clock :: "uuid \<Rightarrow> u64 \<Rightarrow> tx \<Rightarrow> (repository_error, unit) res \<times> tx" where
  "persist_clock session seconds w =
     try_state (reject_if (seconds > i64_max_u64) (sqlite ''adventuring_clock_invalid'')) w (\<lambda>_.
     execute (sqlite ''write_adventuring_clock'')
       (\<lambda>d. d\<lparr>st_clocks := table_put session (int seconds) (st_clocks d)\<rparr>) w)"

definition advance_combat_clock :: "uuid \<Rightarrow> u64 \<Rightarrow> tx \<Rightarrow> (repository_error, unit) res \<times> tx" where
  "advance_combat_clock session seconds w =
     (if seconds = 0 then (Ok (), w)
      else and_then (read_clock session w) (\<lambda>now w1.
        try_state (ok_or (u64_checked_add (clock_or_zero now) seconds) (sqlite ''adventuring_clock_invalid'')) w1 (\<lambda>t.
        persist_clock session t w1)))"

section \<open>Revisions of a campaign\<close>

definition revision_i64 :: "u64 \<Rightarrow> (repository_error, i64) res" where
  "revision_i64 r = (if r \<le> i64_max_u64 then Ok (int r) else Err (sqlite ''encode_campaign_revision''))"

definition insert_event :: "event_row \<Rightarrow> tx \<Rightarrow> (repository_error, unit) res \<times> tx" where
  "insert_event ev w =
     try_state (revision_i64 (ce_revision ev)) w (\<lambda>_.
     execute (sqlite ''insert_campaign_event'') (\<lambda>d. d\<lparr>st_events := st_events d @ [ev]\<rparr>) w)"

definition session_update :: "uuid \<Rightarrow> uuid \<Rightarrow> i64 \<Rightarrow> i64 \<Rightarrow> store \<Rightarrow> nat \<times> store" where
  "session_update campaign session wanted target d =
     (case table_get (st_sessions d) session of
        Some s \<Rightarrow>
          if sr_campaign s = campaign \<and> sr_revision s = wanted
          then (1, d\<lparr>st_sessions := table_put session (s\<lparr>sr_revision := target\<rparr>) (st_sessions d)\<rparr>)
          else (0, d)
      | None \<Rightarrow> (0, d))"

definition advance_session_revision ::
  "uuid \<Rightarrow> uuid \<Rightarrow> u64 \<Rightarrow> string \<Rightarrow> string \<Rightarrow> tx \<Rightarrow> (repository_error, u64) res \<times> tx" where
  "advance_session_revision campaign session wanted kind causation w =
     try_state (ok_or (u64_checked_add wanted 1) (sqlite ''revision_overflow'')) w (\<lambda>next_revision.
     try_state (revision_i64 next_revision) w (\<lambda>target.
     try_state (revision_i64 wanted) w (\<lambda>old.
     and_then (statement (sqlite ''advance_campaign_revision'') (session_update campaign session old target) w) (\<lambda>rows w1.
     try_state (reject_if (rows \<noteq> 1) (sqlite ''campaign_revision_conflict'')) w1 (\<lambda>_.
     and_then (insert_event \<lparr>ce_campaign = campaign, ce_revision = next_revision, ce_kind = kind,
                 ce_causation = causation\<rparr> w1) (\<lambda>_ w2.
     and_then (execute (sqlite ''update_campaign_timestamp'') (\<lambda>d. d) w2) (\<lambda>_ w3.
     (Ok next_revision, w3))))))))"

section \<open>Sheets\<close>

definition party_failed :: "string \<Rightarrow> repository_error" where
  "party_failed code = Operation ''party'' code"

definition defense_failed :: "string \<Rightarrow> repository_error" where
  "defense_failed code = Operation ''character_defense'' code"

definition persist_character ::
  "sheet_env \<Rightarrow> uuid \<Rightarrow> uuid \<Rightarrow> json \<Rightarrow> tx \<Rightarrow> (repository_error, unit) res \<times> tx" where
  "persist_character env campaign character sheet w =
     try_state (map_err defense_failed (normalize_defense (se_catalog env) sheet)) w (\<lambda>(_, document).
     try_state (reject_if (\<not> valid_character_document env document \<or> \<not> within_character_budget env document)
        (defense_failed ''character_too_large'')) w (\<lambda>_.
     execute (sqlite ''persist_current_character'')
       (\<lambda>d. d\<lparr>st_roots := table_put campaign (character, document) (st_roots d)\<rparr>) w))"

definition party_update :: "uuid \<Rightarrow> uuid \<Rightarrow> json \<Rightarrow> store \<Rightarrow> nat \<times> store" where
  "party_update campaign character sheet d =
     (length (filter (\<lambda>r. py_campaign r = campaign \<and> py_character r = character) (st_party d)),
      d\<lparr>st_party := map (\<lambda>r. if py_campaign r = campaign \<and> py_character r = character then r\<lparr>py_sheet := sheet\<rparr> else r)
          (st_party d)\<rparr>)"

definition persist_sheet ::
  "sheet_env \<Rightarrow> uuid \<Rightarrow> uuid \<Rightarrow> json \<Rightarrow> tx \<Rightarrow> (repository_error, unit) res \<times> tx" where
  "persist_sheet env campaign character raw w =
     try_state (map_err party_failed (normalize_defense (se_catalog env) raw)) w (\<lambda>(_, sheet).
     try_state (reject_if (\<not> within_character_budget env sheet) (party_failed ''character_too_large'')) w (\<lambda>_.
     try_state (reject_if (\<not> valid_character_document env sheet \<or> \<not> within_character_budget env sheet)
        (party_failed ''party_character_invalid'')) w (\<lambda>_.
     and_then (query (party_failed ''party_read_failed'') (\<lambda>d. map_option fst (table_get (st_roots d) campaign)) w) (\<lambda>root w1.
     if root = Some character then persist_character env campaign character sheet w1
     else
       and_then (statement (party_failed ''party_write_failed'') (party_update campaign character sheet) w1) (\<lambda>rows w2.
       try_state (reject_if (rows \<noteq> 1) (party_failed ''party_binding_rejected'')) w2 (\<lambda>_.
       (Ok (), w2)))))))"

section \<open>The adventure of a campaign\<close>

definition read_adventure :: "uuid \<Rightarrow> tx \<Rightarrow> (repository_error, adventure_projection option) res \<times> tx" where
  "read_adventure campaign w =
     query (sqlite ''read_adventure'') (\<lambda>d. map_option adventure_view (table_get (st_adventures d) campaign)) w"

definition persist_adventure ::
  "uuid \<Rightarrow> adventure_state option \<Rightarrow> tx \<Rightarrow> (repository_error, unit) res \<times> tx" where
  "persist_adventure campaign state w =
     (case state of
        Some s \<Rightarrow>
          try_state (reject_if (as_package_id s \<noteq> bell_adventure_id) (sqlite ''adventure_package_unknown'')) w (\<lambda>_.
          execute (sqlite ''persist_adventure'') (\<lambda>d. d\<lparr>st_adventures := table_put campaign s (st_adventures d)\<rparr>) w)
      | None \<Rightarrow>
          execute (sqlite ''clear_adventure'')
            (\<lambda>d. d\<lparr>st_adventures := filter (\<lambda>(c, _). c \<noteq> campaign) (st_adventures d)\<rparr>) w)"

end
