(* ===== verification/Combat_Binding.thy ===== *)
theory Combat_Binding
  imports Sqlite
begin

text \<open>
  Heroes of a stored fight and their sheets (\<^verbatim>\<open>crates/adapter-sqlite/src/combat_binding.rs\<close>), and the
  authored defense in the tables (\<^verbatim>\<open>authored_combat.rs\<close>). The sheets are a map of the source, ordered by
  uuid; the order is not used, and they stand here in the order they were read. \<open>starting\<close> is the one
  argument of \<open>sheets\<close> that is left out: the rooms it asks for belong to the opening of a fight.
\<close>

section \<open>The sheets of a campaign\<close>

text \<open>The last session of a campaign: the latest, then the greatest by its text, which has the order of the uuids.\<close>

definition latest_session :: "store \<Rightarrow> uuid \<Rightarrow> uuid option" where
  "latest_session d campaign =
     map_option fst (min_by_key (\<lambda>(i, s). (- sr_created_at s, - int i))
       (filter (\<lambda>(i, s). sr_campaign s = campaign) (st_sessions d)))"

definition root_sheet :: "uuid \<Rightarrow> uuid \<Rightarrow> store \<Rightarrow> (uuid \<times> json) option" where
  "root_sheet campaign session d =
     (case table_get (st_sessions d) session of
        None \<Rightarrow> None
      | Some s \<Rightarrow> if sr_campaign s = campaign \<and> latest_session d campaign = Some session
          then table_get (st_roots d) campaign else None)"

fun collect_sheets ::
  "sheet_env \<Rightarrow> (uuid \<times> json) list \<Rightarrow> (uuid, json) table \<Rightarrow> (repository_error, (uuid, json) table) res" where
  "collect_sheets env [] result = Ok result"
| "collect_sheets env ((i, raw) # rows) result =
     bind_res (reject_if (is_nil i \<or> \<not> valid_character_document env raw \<or> \<not> within_character_budget env raw)
        (sqlite ''combat_hero_invalid'')) (\<lambda>_.
     bind_res (json_set ''characterId'' (JStr (uuid_text (se_uuids env) i)) raw) (\<lambda>sheet.
     bind_res (reject_if (table_get result i \<noteq> None) (sqlite ''combat_hero_identity_mismatch'')) (\<lambda>_.
     collect_sheets env rows (table_put i sheet result))))"

definition party_sheets ::
  "sheet_env \<Rightarrow> uuid \<Rightarrow> uuid \<Rightarrow> tx \<Rightarrow> (repository_error, uuid \<times> (uuid, json) table) res \<times> tx" where
  "party_sheets env campaign session w =
     and_then (query (sqlite ''read_combat_party'') (root_sheet campaign session) w) (\<lambda>found w1.
     try_state (ok_or found (sqlite ''combat_hero_missing'')) w1 (\<lambda>root.
     and_then (query (sqlite ''read_combat_party'')
        (\<lambda>d. map (\<lambda>r. (py_character r, py_sheet r)) (filter (\<lambda>r. py_campaign r = campaign) (st_party d))) w1) (\<lambda>retained w2.
     try_state (collect_sheets env (root # retained) []) w2 (\<lambda>result.
     try_state (reject_if (length result > max_party_members) (sqlite ''combat_party_invalid'')) w2 (\<lambda>_.
     (Ok (fst root, result), w2))))))"

definition hero_ids :: "combat_projection \<Rightarrow> uuid list" where
  "hero_ids p = List.map_filter c_character_id (sn_combatants (cj_snapshot p))"

definition retain_bound_sheets :: "combat_projection \<Rightarrow> (uuid, json) table \<Rightarrow> (uuid, json) table" where
  "retain_bound_sheets p sheets = filter (\<lambda>(i, _). i \<in> set (hero_ids p)) sheets"

definition verify_bindings ::
  "combat_projection \<Rightarrow> (uuid, json) table \<Rightarrow> uuid \<Rightarrow> (repository_error, unit) res" where
  "verify_bindings p sheets root =
     reject_if (root \<notin> set (hero_ids p) \<or> length (hero_ids p) \<noteq> length sheets \<or> set (hero_ids p) \<noteq> set (map fst sheets))
       (sqlite ''combat_hero_identity_mismatch'')"

definition recover_loadouts ::
  "sheet_env \<Rightarrow> combat_projection \<Rightarrow> tx \<Rightarrow> (repository_error, combat_projection) res \<times> tx" where
  "recover_loadouts env p w =
     (case cj_campaign_scope p of
        None \<Rightarrow> (Ok p, w)
      | Some scope \<Rightarrow>
          and_then (party_sheets env (cs_campaign_id scope) (cs_session_id scope) w) (\<lambda>(root, sheets) w1.
          try_state (reject_if (root \<noteq> cs_character_id scope) (sqlite ''combat_hero_identity_mismatch'')) w1 (\<lambda>_.
          let bound = retain_bound_sheets p sheets in
          try_state (verify_bindings p bound root) w1 (\<lambda>_.
          try_state (map_err sqlite (recover_party_loadouts env bound p)) w1 (\<lambda>q. (Ok q, w1))))))"

section \<open>What a fight leaves on a sheet\<close>

definition ensure_resources :: "json \<Rightarrow> ('e, json) res" where
  "ensure_resources sheet =
     (case json_get sheet ''combatResources'' of
        Some (JObj _) \<Rightarrow> Ok sheet
      | _ \<Rightarrow> json_set ''combatResources'' (JObj []) sheet)"

definition slots_value :: "casting_profile \<Rightarrow> json" where
  "slots_value casting =
     JObj (foldl (\<lambda>t (level, slots). table_put (show_nat level) (JInt (int (ss_remaining slots))) t) [] (cp_slots casting))"

definition store_casting :: "combatant \<Rightarrow> json \<Rightarrow> ('e, json) res" where
  "store_casting hero sheet =
     (case c_casting hero of
        None \<Rightarrow> Ok sheet
      | Some casting \<Rightarrow>
          bind_res (ensure_resources sheet)
            (json_update ''combatResources'' (json_set ''spellSlots'' (slots_value casting))))"

definition store_loadout :: "combatant \<Rightarrow> json \<Rightarrow> ('e, json) res" where
  "store_loadout hero sheet =
     (case c_loadout hero of
        None \<Rightarrow> Ok sheet
      | Some loadout \<Rightarrow>
          bind_res (ensure_resources sheet) (\<lambda>s1.
          bind_res (json_update ''combatResources'' (json_set ''arrows'' (JInt (int (lo_arrows loadout)))) s1) (\<lambda>s2.
          json_update ''combatResources''
            (json_set ''quantities'' (JObj (map (\<lambda>(k, n). (k, JInt (int n))) (lo_quantities loadout)))) s2)))"

definition apply_hero_resources ::
  "'g store_env \<Rightarrow> combatant \<Rightarrow> u64 \<Rightarrow> json \<Rightarrow> (repository_error, json) res" where
  "apply_hero_resources env hero now sheet =
     (let u = se_uuids (sv_sheets env) in
      bind_res (map_err sqlite (store_actor u hero sheet)) (\<lambda>s1.
      bind_res (ok_or (c_character_id hero) (sqlite ''combat_hero_binding_missing'')) (\<lambda>i.
      bind_res (map_err sqlite (read_vitality u s1 i)) (\<lambda>found.
      bind_res (ok_or found (sqlite ''hero_vitality_invalid'')) (\<lambda>vitality.
      bind_res
        (if stable_and_down hero \<and> hv_natural_recovery vitality = None
         then bind_res (map_err sqlite (fst (natural_deadline (sv_sampler env) hero now (sv_fresh env i)))) (\<lambda>deadline.
              map_err sqlite (schedule_natural_recovery u i deadline s1))
         else Ok s1) (\<lambda>s2.
      bind_res (store_casting hero s2) (store_loadout hero)))))))"

section \<open>Heroes follow the fight\<close>

definition advance_scope ::
  "uuid \<Rightarrow> uuid \<Rightarrow> uuid \<Rightarrow> string \<Rightarrow> tx \<Rightarrow> (repository_error, combat_campaign_scope) res \<times> tx" where
  "advance_scope campaign session character cause w =
     and_then (fetch_one (sqlite ''read_combat_campaign_revision'')
        (\<lambda>d. case table_get (st_sessions d) session of
               None \<Rightarrow> None | Some s \<Rightarrow> if sr_campaign s = campaign then Some (sr_revision s) else None) w) (\<lambda>stored w1.
     try_state (reject_if (stored < 0) (sqlite ''combat_campaign_revision_invalid'')) w1 (\<lambda>_.
     and_then (advance_session_revision campaign session (nat stored) ''combat_changed'' cause w1) (\<lambda>_ w2.
     try_state (ok_or (u64_checked_add (nat stored) 1) (sqlite ''combat_campaign_revision_invalid'')) w2 (\<lambda>revision.
     (Ok \<lparr>cs_campaign_id = campaign, cs_session_id = session, cs_character_id = character, cs_revision = revision\<rparr>, w2)))))"

text \<open>The loop over the heroes that are present; a sheet is taken out of the map by the first that claims it.\<close>

fun sync_heroes ::
  "'g store_env \<Rightarrow> uuid \<Rightarrow> u64 \<Rightarrow> combatant list \<Rightarrow> (uuid, json) table \<Rightarrow> tx \<Rightarrow> (repository_error, unit) res \<times> tx" where
  "sync_heroes env campaign now [] sheets w = (Ok (), w)"
| "sync_heroes env campaign now (hero # rest) sheets w =
     (case c_character_id hero of
        None \<Rightarrow> sync_heroes env campaign now rest sheets w
      | Some i \<Rightarrow>
          if c_withdrawn hero then sync_heroes env campaign now rest sheets w
          else
            try_state (ok_or (table_get sheets i) (sqlite ''combat_hero_identity_mismatch'')) w (\<lambda>sheet.
            try_state (reject_if (c_current_hp hero < 0 \<or> c_current_hp hero > c_max_hp hero
                 \<or> as_i64 (json_index sheet ''hpMax'') \<noteq> Some (c_max_hp hero)) (sqlite ''combat_hero_stats_changed'')) w (\<lambda>_.
            try_state (apply_hero_resources env hero now sheet) w (\<lambda>updated.
            and_then (persist_sheet (sv_sheets env) campaign i updated w) (\<lambda>_ w1.
            sync_heroes env campaign now rest (filter (\<lambda>(j, _). j \<noteq> i) sheets) w1)))))"

definition combat_cause :: "uuid_codec \<Rightarrow> combat_projection \<Rightarrow> string" where
  "combat_cause u p = ''combat:'' @ uuid_text u (cj_encounter_id p) @ '':'' @ show_nat (cj_revision p)"

definition sync_hero ::
  "'g store_env \<Rightarrow> combat_projection \<Rightarrow> tx \<Rightarrow> (repository_error, combat_projection) res \<times> tx" where
  "sync_hero env p w =
     (if \<not> list_ex (\<lambda>a. c_character_id a \<noteq> None) (sn_combatants (cj_snapshot p)) then
        try_state (reject_if (cj_campaign_scope p \<noteq> None) (sqlite ''combat_hero_binding_missing'')) w (\<lambda>_. (Ok p, w))
      else
        and_then (query (sqlite ''read_bound_combat_sheet'') (\<lambda>d.
            Option.bind (table_get (st_encounters d) (cj_encounter_id p)) (\<lambda>e.
            Option.bind (table_get (st_sessions d) (er_session e)) (\<lambda>s.
            Some (er_session e, sr_campaign s, er_round e)))) w) (\<lambda>found w1.
        try_state (ok_or found (sqlite ''combat_hero_identity_mismatch'')) w1 (\<lambda>(session, campaign, stored_round).
        and_then (party_sheets (sv_sheets env) campaign session w1) (\<lambda>(root, sheets) w2.
        let bound = retain_bound_sheets p sheets in
        try_state (verify_bindings p bound root) w2 (\<lambda>_.
        try_state (reject_if (stored_round < 0 \<or> stored_round \<ge> 2 ^ 32) (sqlite ''combat_round_invalid'')) w2 (\<lambda>_.
        and_then (advance_combat_clock session (elapsed_seconds (nat stored_round) (cj_snapshot p)) w2) (\<lambda>_ w3.
        and_then (read_clock session w3) (\<lambda>clock w4.
        and_then (sync_heroes env campaign (clock_or_zero clock) (sn_combatants (cj_snapshot p)) bound w4) (\<lambda>_ w5.
        and_then (advance_scope campaign session root (combat_cause (se_uuids (sv_sheets env)) p) w5) (\<lambda>scope w6.
        (Ok (p\<lparr>cj_campaign_scope := Some scope\<rparr>), w6)))))))))))"

section \<open>The authored defense\<close>

definition recover_party ::
  "uuid \<Rightarrow> defense_outcome \<Rightarrow> combat_projection \<Rightarrow> tx \<Rightarrow> (repository_error, combat_projection) res \<times> tx" where
  "recover_party session outcome p w =
     (if outcome \<noteq> Defeated then (Ok p, w)
      else
        let (res, q) = recover_defeated_hero p in
        try_state (map_err sqlite res) w (\<lambda>_.
        and_then (advance_combat_clock session 3600 w) (\<lambda>_ w1. (Ok q, w1))))"

definition conclude_defense ::
  "uuid \<Rightarrow> uuid \<Rightarrow> adventure_projection \<Rightarrow> defense_outcome \<Rightarrow> combat_projection \<Rightarrow> tx \<Rightarrow>
   (repository_error, combat_projection) res \<times> tx" where
  "conclude_defense session campaign current outcome p w =
     (if as_defense (ap_state current) \<noteq> Some Active then
        try_state (reject_if (as_defense (ap_state current) \<noteq> Some outcome) (sqlite ''authored_outcome_mismatch'')) w
          (\<lambda>_. (Ok (p\<lparr>cj_adventure := Some current\<rparr>), w))
      else
        try_state (map_err (\<lambda>_. sqlite ''authored_outcome_invalid'')
           (resolve_defense (ap_state current) (cj_encounter_id p) outcome)) w (\<lambda>resolved.
        and_then (recover_party session outcome p w) (\<lambda>q w1.
        and_then (persist_adventure campaign (Some resolved) w1) (\<lambda>_ w2.
        (Ok (q\<lparr>cj_adventure := Some (adventure_view resolved)\<rparr>), w2)))))"

definition resolve_authored ::
  "uuid \<Rightarrow> combat_projection \<Rightarrow> tx \<Rightarrow> (repository_error, combat_projection) res \<times> tx" where
  "resolve_authored session p w =
     (if cj_authored p = None then (Ok p, w)
      else
        and_then (fetch_one (sqlite ''read_authored_campaign'')
          (\<lambda>d. map_option sr_campaign (table_get (st_sessions d) session)) w) (\<lambda>campaign w1.
        and_then (read_adventure campaign w1) (\<lambda>found w2.
        try_state (ok_or found (sqlite ''authored_adventure_missing'')) w2 (\<lambda>current.
        try_state (reject_if (as_defense_encounter_id (ap_state current) \<noteq> Some (cj_encounter_id p))
          (sqlite ''authored_encounter_mismatch'')) w2 (\<lambda>_.
        let (outcome, q) = finalize_defense p False in
        case outcome of
          None \<Rightarrow> (Ok (q\<lparr>cj_adventure := Some current\<rparr>), w2)
        | Some result \<Rightarrow> conclude_defense session campaign current result q w2)))))"

end
