(* ===== verification/Combat_Store.thy ===== *)
theory Combat_Store
  imports Combat_Binding
begin

text \<open>
  The store of fights (\<^verbatim>\<open>crates/adapter-sqlite/src/combat.rs\<close>): the methods of \<open>CombatRepository\<close>
  except \<open>create\<close>. A write takes the lock of the database with \<open>BEGIN IMMEDIATE\<close>, so that operations are atomic
  with respect to each other; other clients may run operations of their own between two calls of a use case.
\<close>

section \<open>Writing a projection\<close>

definition bindings :: "combat_projection \<Rightarrow> (uuid \<times> combatant_id) list" where
  "bindings p = sort (List.map_filter (\<lambda>a. map_option (\<lambda>owner. (owner, c_id a)) (c_character_id a))
     (sn_combatants (cj_snapshot p)))"

definition projection_update :: "u64 \<Rightarrow> combat_projection \<Rightarrow> store \<Rightarrow> nat \<times> store" where
  "projection_update wanted q d =
     (case table_get (st_encounters d) (cj_encounter_id q) of
        Some e \<Rightarrow>
          if er_revision e = int wanted \<and> \<not> er_ended e
          then (1, d\<lparr>st_encounters := table_put (cj_encounter_id q)
             (e\<lparr>er_revision := int (cj_revision q), er_projection := Some q, er_round := int (sn_round (cj_snapshot q)),
                er_active_turn := sn_current_combatant (cj_snapshot q), er_ended := \<not> sn_active (cj_snapshot q)\<rparr>)
             (st_encounters d)\<rparr>)
          else (0, d)
      | None \<Rightarrow> (0, d))"

definition token_update :: "uuid \<Rightarrow> combatant \<Rightarrow> store \<Rightarrow> store" where
  "token_update encounter a d =
     d\<lparr>st_tokens := map (\<lambda>(i, t). if i = c_id a \<and> tk_encounter t = encounter
         then (i, t\<lparr>tk_current_hp := c_current_hp a, tk_max_hp := c_max_hp a, tk_ac := c_ac a,
               tk_conditions := c_conditions a, tk_is_dead := c_is_dead a, tk_position := c_position a\<rparr>)
         else (i, t)) (st_tokens d)\<rparr>"

fun persist_tokens :: "uuid \<Rightarrow> combatant list \<Rightarrow> tx \<Rightarrow> (repository_error, unit) res \<times> tx" where
  "persist_tokens encounter [] w = (Ok (), w)"
| "persist_tokens encounter (a # rest) w =
     and_then (execute (sqlite ''update_combat_token'') (token_update encounter a) w) (\<lambda>_.
     persist_tokens encounter rest)"

definition stored_revision :: "uuid \<Rightarrow> store \<Rightarrow> u64" where
  "stored_revision encounter d =
     (case table_get (st_encounters d) encounter of None \<Rightarrow> 0 | Some e \<Rightarrow> nat (er_revision e mod 2 ^ 64))"

definition persist_projection ::
  "'g store_env \<Rightarrow> u64 \<Rightarrow> combat_projection \<Rightarrow> tx \<Rightarrow> (repository_error, combat_projection) res \<times> tx" where
  "persist_projection env wanted p w =
     try_state (reject_if (u64_checked_add wanted 1 \<noteq> Some (cj_revision p) \<or> cj_revision p > i64_max_u64)
        (sqlite ''combat_revision_invalid'')) w (\<lambda>_.
     and_then (fetch_one (sqlite ''read_combat_session'')
        (\<lambda>d. map_option er_session (table_get (st_encounters d) (cj_encounter_id p))) w) (\<lambda>session w1.
     and_then (fetch_one (sqlite ''read_combat_bindings'')
        (\<lambda>d. Option.bind (table_get (st_encounters d) (cj_encounter_id p)) er_projection) w1) (\<lambda>previous w2.
     try_state (reject_if (cj_campaign_scope previous \<noteq> None \<and> bindings previous \<noteq> bindings p)
        (sqlite ''combat_hero_identity_mismatch'')) w2 (\<lambda>_.
     and_then (resolve_authored session p w2) (\<lambda>resolved w3.
     and_then (sync_hero env resolved w3) (\<lambda>q w4.
     and_then (statement (sqlite ''update_combat_projection'') (projection_update wanted q) w4) (\<lambda>rows w5.
     if rows \<noteq> 1 then
       and_then (query (sqlite ''read_combat_revision'') (stored_revision (cj_encounter_id q)) w5) (\<lambda>actual w6.
       (Err (RevisionConflict wanted actual), w6))
     else
       and_then (persist_tokens (cj_encounter_id q) (sn_combatants (cj_snapshot q)) w5) (\<lambda>_ w6. (Ok q, w6)))))))))"

section \<open>Receipts\<close>

definition receipt :: "uuid \<Rightarrow> string \<Rightarrow> store \<Rightarrow> (string \<times> combat_projection) option" where
  "receipt encounter request d = table_get (st_receipts d) (encounter, request)"

definition decode_receipt :: "string \<Rightarrow> string \<times> combat_projection \<Rightarrow> (repository_error, combat_projection) res" where
  "decode_receipt signature row =
     (if fst row \<noteq> signature then Err (Operation ''combat_receipt'' ''combat_request_mismatch'') else Ok (snd row))"

definition find_combat_action ::
  "uuid \<Rightarrow> string \<Rightarrow> string \<Rightarrow> tx \<Rightarrow> (repository_error, combat_projection option) res \<times> tx" where
  "find_combat_action encounter request signature w =
     and_then (query (sqlite ''read_combat_receipt'') (receipt encounter request) w) (\<lambda>row w1.
     case row of
       None \<Rightarrow> (Ok None, w1)
     | Some r \<Rightarrow> try_state (decode_receipt signature r) w1 (\<lambda>p. (Ok (Some p), w1)))"

section \<open>Commands a person prepared\<close>

definition human_failed :: "string \<Rightarrow> repository_error" where
  "human_failed code = Operation ''human_command_ledger'' code"

text \<open>\<open>agent:<request>:<call>\<close>\<close>

definition agent_causation :: "uuid_codec \<Rightarrow> string \<Rightarrow> (repository_error, (uuid \<times> string) option) res" where
  "agent_causation u causation =
     (case Option.bind (strip_prefix ''agent:'' causation) (split_once (CHR '':'')) of
        None \<Rightarrow> Ok None
      | Some (request, call) \<Rightarrow>
          bind_res (ok_or (uuid_parse u request) (human_failed ''human_command_scope_invalid'')) (\<lambda>i. Ok (Some (i, call))))"

definition has_bound_manifest :: "uuid_codec \<Rightarrow> string \<Rightarrow> tx \<Rightarrow> (repository_error, bool) res \<times> tx" where
  "has_bound_manifest u causation w =
     try_state (agent_causation u causation) w (\<lambda>found.
     case found of
       None \<Rightarrow> (Ok False, w)
     | Some (i, _) \<Rightarrow> query (human_failed ''human_command_read_failed'') (\<lambda>d. i \<in> set (st_manifests d)) w)"

definition require_prepared_context ::
  "'g store_env \<Rightarrow> string \<Rightarrow> uuid \<Rightarrow> uuid \<Rightarrow> tx \<Rightarrow> (repository_error, prepared_command option) res \<times> tx" where
  "require_prepared_context env causation campaign session w =
     try_state (agent_causation (se_uuids (sv_sheets env)) causation) w (\<lambda>found.
     case found of
       None \<Rightarrow> (Ok None, w)
     | Some (i, call) \<Rightarrow>
         and_then (query (human_failed ''human_command_read_failed'') (\<lambda>d. i \<in> set (st_manifests d)) w) (\<lambda>manifest w1.
         if \<not> manifest then (Ok None, w1)
         else try_state (sv_prepared env i call campaign session (fst w1)) w1 (\<lambda>prepared. (Ok (Some prepared), w1))))"

definition check_prepared ::
  "'g store_env \<Rightarrow> u64 \<Rightarrow> combat_projection \<Rightarrow> string \<Rightarrow> string \<Rightarrow> tx \<Rightarrow> (repository_error, unit) res \<times> tx" where
  "check_prepared env wanted p request signature w =
     (case cj_campaign_scope p of
        Some scope \<Rightarrow>
          and_then (require_prepared_context env request (cs_campaign_id scope) (cs_session_id scope) w) (\<lambda>found w1.
          case found of
            None \<Rightarrow> (Ok (), w1)
          | Some prepared \<Rightarrow>
              try_state (ok_or (pc_stamp prepared) (sqlite ''human_command_context_invalid'')) w1 (\<lambda>(encounter, revision, token).
              try_state (ok_or (pc_action prepared) (sqlite ''human_command_signature_mismatch'')) w1 (\<lambda>action.
              try_state (ok_or (sv_parse env signature) (sqlite ''human_command_data_invalid'')) w1 (\<lambda>actual.
              try_state (reject_if (encounter \<noteq> cj_encounter_id p \<or> revision \<noteq> wanted
                   \<or> actual \<noteq> sv_request env (encounter, revision, action token))
                 (sqlite ''human_command_context_stale'')) w1 (\<lambda>_. (Ok (), w1))))))
      | None \<Rightarrow>
          and_then (has_bound_manifest (se_uuids (sv_sheets env)) request w) (\<lambda>bound w1.
          try_state (reject_if bound (sqlite ''human_command_context_invalid'')) w1 (\<lambda>_. (Ok (), w1))))"

section \<open>The methods\<close>

definition commit_combat_action ::
  "'g store_env \<Rightarrow> u64 \<Rightarrow> combat_projection \<Rightarrow> string \<Rightarrow> string \<Rightarrow> tx \<Rightarrow> (repository_error, resolve_combat_result) res \<times> tx" where
  "commit_combat_action env wanted p request signature =
     transaction ''begin_combat_action'' (\<lambda>w.
       and_then (query (sqlite ''read_combat_receipt'') (receipt (cj_encounter_id p) request) w) (\<lambda>row w1.
       case row of
         Some r \<Rightarrow>
           try_state (decode_receipt signature r) w1 (\<lambda>recorded.
           (Ok (\<lparr>rr_projection = recorded, rr_duplicate = True\<rparr>, Some ''commit_combat_replay''), w1))
       | None \<Rightarrow>
           and_then (check_prepared env wanted p request signature w1) (\<lambda>_ w2.
           and_then (persist_projection env wanted p w2) (\<lambda>q w3.
           and_then (execute (sqlite ''insert_combat_receipt'')
              (\<lambda>d. d\<lparr>st_receipts := table_put (cj_encounter_id q, request) (signature, q) (st_receipts d)\<rparr>) w3) (\<lambda>_ w4.
           (Ok (\<lparr>rr_projection = q, rr_duplicate = False\<rparr>, Some ''commit_combat_action''), w4))))))"

definition open_row :: "uuid \<Rightarrow> store \<Rightarrow> encounter_row option" where
  "open_row encounter d =
     (case table_get (st_encounters d) encounter of
        None \<Rightarrow> None | Some e \<Rightarrow> if er_ended e then None else Some e)"

definition get_combat ::
  "'g store_env \<Rightarrow> uuid \<Rightarrow> tx \<Rightarrow> (repository_error, combat_projection option) res \<times> tx" where
  "get_combat env encounter =
     transaction ''begin_combat_read'' (\<lambda>w.
       and_then (query (sqlite ''get_combat'') (open_row encounter) w) (\<lambda>row w1.
       case row of
         None \<Rightarrow> (Ok (None, Some ''commit_combat_read''), w1)
       | Some e \<Rightarrow>
           try_state (ok_or (er_projection e) (sqlite ''missing_combat_projection'')) w1 (\<lambda>p.
           and_then (recover_loadouts (sv_sheets env) p w1) (\<lambda>q w2. (Ok (Some q, Some ''commit_combat_read''), w2)))))"

definition compare_and_set ::
  "'g store_env \<Rightarrow> u64 \<Rightarrow> combat_projection \<Rightarrow> tx \<Rightarrow> (repository_error, unit) res \<times> tx" where
  "compare_and_set env wanted p =
     transaction ''begin_combat'' (\<lambda>w.
       and_then (persist_projection env wanted p w) (\<lambda>_ w1. (Ok ((), Some ''commit_combat''), w1)))"

definition mark_ended :: "uuid \<Rightarrow> store \<Rightarrow> store" where
  "mark_ended encounter d = d\<lparr>st_encounters := table_modify encounter (\<lambda>e. e\<lparr>er_ended := True\<rparr>) (st_encounters d)\<rparr>"

definition end_combat ::
  "'g store_env \<Rightarrow> uuid \<Rightarrow> tx \<Rightarrow> (repository_error, combat_projection option) res \<times> tx" where
  "end_combat env encounter =
     transaction ''begin_combat_end'' (\<lambda>w.
       and_then (query (sqlite ''read_combat_end'') (open_row encounter) w) (\<lambda>row w1.
       case row of
         None \<Rightarrow> (Ok (None, None), w1)
       | Some e \<Rightarrow>
           try_state (ok_or (er_projection e) (sqlite ''read_combat_end'')) w1 (\<lambda>stored.
           let (left, p) = prepare_end stored in
           try_state (map_err sqlite left) w1 (\<lambda>_.
           try_state (ok_or (u64_checked_add (cj_revision p) 1) (sqlite ''combat_revision_invalid'')) w1 (\<lambda>revision.
           and_then (persist_projection env (cj_revision p)
              (on_snapshot (\<lambda>sn. sn\<lparr>sn_active := False\<rparr>) (p\<lparr>cj_revision := revision\<rparr>)) w1) (\<lambda>q w2.
           and_then (execute (sqlite ''end_combat'') (mark_ended encounter) w2) (\<lambda>_ w3.
           (Ok (Some q, Some ''commit_combat_end''), w3))))))))"

section \<open>Calls\<close>

datatype store_call =
    CallFind uuid string string
  | CallGet uuid
  | CallCommit u64 combat_projection string string
  | CallCompareAndSet u64 combat_projection
  | CallEnd uuid

datatype store_reply =
    Found "combat_projection option"
  | Got "combat_projection option"
  | Committed combat_projection bool
  | Replaced
  | Ended "combat_projection option"
  | Refused repository_error
  | Crashed

definition reply_of :: "('a \<Rightarrow> store_reply) \<Rightarrow> (repository_error, 'a) res \<times> tx \<Rightarrow> store_reply \<times> tx" where
  "reply_of f m = (case m of (Ok x, w) \<Rightarrow> (f x, w) | (Err e, w) \<Rightarrow> (Refused e, w) | (Panic, w) \<Rightarrow> (Crashed, w))"

fun perform :: "'g store_env \<Rightarrow> store_call \<Rightarrow> tx \<Rightarrow> store_reply \<times> tx" where
  "perform env (CallFind encounter request signature) w = reply_of Found (find_combat_action encounter request signature w)"
| "perform env (CallGet encounter) w = reply_of Got (get_combat env encounter w)"
| "perform env (CallCommit wanted p request signature) w =
     reply_of (\<lambda>r. Committed (rr_projection r) (rr_duplicate r)) (commit_combat_action env wanted p request signature w)"
| "perform env (CallCompareAndSet wanted p) w = reply_of (\<lambda>_. Replaced) (compare_and_set env wanted p w)"
| "perform env (CallEnd encounter) w = reply_of Ended (end_combat env encounter w)"

fun perform_all :: "'g store_env \<Rightarrow> store_call list \<Rightarrow> tx \<Rightarrow> store_reply list \<times> tx" where
  "perform_all env [] w = ([], w)"
| "perform_all env (c # cs) w =
     (let (r, w1) = perform env c w; (rs, w2) = perform_all env cs w1 in (r # rs, w2))"

end
