(* ===== verification/Store_State.thy ===== *)
theory Store_State
  imports Combat_Store Encounter_State
begin

text \<open>
  What the operations of the combat store leave of its tables: the frame of every helper, the one place where
  a fight and its receipt are written, and the rollback of everything else.
\<close>

section \<open>Statements\<close>

definition same_fights :: "tx \<Rightarrow> tx \<Rightarrow> bool" where
  "same_fights w w' \<longleftrightarrow> st_encounters (fst w') = st_encounters (fst w) \<and> st_receipts (fst w') = st_receipts (fst w)"

interpretation side: evolution same_fights
  by unfold_locales (simp_all add: same_fights_def)

lemma statement_Ok:
  "statement e f w = (Ok x, w') \<longleftrightarrow>
     \<not> (snd w \<noteq> [] \<and> hd (snd w)) \<and> x = fst (f (fst w)) \<and> w' = (snd (f (fst w)), tl (snd w))"
  by (cases w) (auto simp: statement_def)

lemma statement_Err:
  "statement e f w = (Err e', w') \<longleftrightarrow> snd w \<noteq> [] \<and> hd (snd w) \<and> e' = e \<and> w' = (fst w, tl (snd w))"
  by (cases w) (auto simp: statement_def)

lemma statement_no_Panic [simp]: "statement e f w \<noteq> (Panic, w')"
  by (cases w) (simp add: statement_def)

lemma query_Ok: "query e f w = (Ok x, w') \<longleftrightarrow>
     \<not> (snd w \<noteq> [] \<and> hd (snd w)) \<and> x = f (fst w) \<and> w' = (fst w, tl (snd w))"
  by (simp add: query_def statement_Ok)

lemma execute_Ok: "execute e f w = (Ok u, w') \<longleftrightarrow>
     \<not> (snd w \<noteq> [] \<and> hd (snd w)) \<and> w' = (f (fst w), tl (snd w))"
  by (simp add: execute_def statement_Ok)

lemma fetch_one_Ok: "fetch_one e f w = (Ok x, w') \<longleftrightarrow>
     \<not> (snd w \<noteq> [] \<and> hd (snd w)) \<and> f (fst w) = Some x \<and> w' = (fst w, tl (snd w))"
  by (auto simp: fetch_one_def run_Ok query_Ok)

lemmas io_Ok = statement_Ok query_Ok execute_Ok fetch_one_Ok

lemma query_tables [simp]: "fst (snd (query e f w)) = fst w"
  by (cases w) (simp add: query_def statement_def)

lemma query_side: "same_fights w (snd (query e f w))"
  by (simp add: same_fights_def)

lemma statement_side:
  assumes "st_encounters (snd (f (fst w))) = st_encounters (fst w)" "st_receipts (snd (f (fst w))) = st_receipts (fst w)"
  shows "same_fights w (snd (statement e f w))"
  using assms by (cases w) (simp add: statement_def same_fights_def)

lemma execute_side:
  assumes "st_encounters (f (fst w)) = st_encounters (fst w)" "st_receipts (f (fst w)) = st_receipts (fst w)"
  shows "same_fights w (snd (execute e f w))"
  unfolding execute_def by (rule statement_side) (simp_all add: assms)

lemma fetch_one_side: "same_fights w (snd (fetch_one e f w))"
  unfolding fetch_one_def by (intro side.after_then side.after_try query_side) (simp add: side.refl)

lemma sideI: "m = (r, w') \<Longrightarrow> same_fights w (snd m) \<Longrightarrow> same_fights w w'"
  by simp

lemmas side_intros = side.after_then side.after_try query_side fetch_one_side side.refl

section \<open>Transactions\<close>

lemma transaction_as_cases:
  assumes "transaction_as failure b body w = (r, w')"
  obtains (dropped) "fst w' = fst w" "\<And>x. r = Ok x \<Longrightarrow> \<exists>w1 w2. fst w1 = fst w \<and> body w1 = (Ok (x, None), w2)"
    "r = Panic \<Longrightarrow> \<exists>w1 w2. fst w1 = fst w \<and> body w1 = (Panic, w2)"
  | (committed) x c w1 w2 where "r = Ok x" "fst w1 = fst w" "body w1 = (Ok (x, Some c), w2)" "fst w' = fst w2"
proof -
  obtain q w1 where q: "query (failure b) (\<lambda>_. ()) w = (q, w1)" by (meson surj_pair)
  have w1: "fst w1 = fst w" using query_tables [of "failure b" "\<lambda>_. ()" w] q by simp
  show ?thesis
  proof (cases q)
    case (Ok u)
    obtain m w2 where m: "body w1 = (m, w2)" by (meson surj_pair)
    show ?thesis
    proof (cases m)
      case o: (Ok v)
      obtain x c where v: "v = (x, c)" by fastforce
      show ?thesis
      proof (cases c)
        case None
        with assms q Ok m o v have "r = Ok x" "fst w' = fst w" by (auto simp: transaction_as_def)
        moreover have "body w1 = (Ok (x, None), w2)" using m o v None by simp
        ultimately show ?thesis using w1 by (intro dropped) (blast, blast, simp)
      next
        case (Some op)
        obtain k w3 where k: "query (failure op) (\<lambda>_. ()) w2 = (k, w3)" by (meson surj_pair)
        have w3: "fst w3 = fst w2" using query_tables [of "failure op" "\<lambda>_. ()" w2] k by simp
        show ?thesis
        proof (cases k)
          case (Ok u')
          with assms q \<open>q = Ok u\<close> m o v Some k have "r = Ok x" "w' = w3" by (auto simp: transaction_as_def)
          with w1 w3 m o v Some show ?thesis by (intro committed) auto
        next
          case (Err e)
          with assms q \<open>q = Ok u\<close> m o v Some k have "r = Err e" "fst w' = fst w" by (auto simp: transaction_as_def)
          then show ?thesis by (intro dropped) auto
        next
          case Panic
          with k show ?thesis by (simp add: query_def)
        qed
      qed
    next
      case (Err e)
      with assms q Ok m have "r = Err e" "fst w' = fst w" by (auto simp: transaction_as_def)
      then show ?thesis by (intro dropped) auto
    next
      case Panic
      with assms q Ok m have "r = Panic" "fst w' = fst w" by (auto simp: transaction_as_def)
      moreover have "body w1 = (Panic, w2)" using m Panic by simp
      ultimately show ?thesis using w1 by (intro dropped) (blast, simp, blast)
    qed
  next
    case (Err e)
    with assms q w1 have "r = Err e" "fst w' = fst w" by (auto simp: transaction_as_def)
    then show ?thesis by (intro dropped) auto
  next
    case Panic
    with q show ?thesis by (simp add: query_def)
  qed
qed

lemma transaction_cases:
  assumes "transaction b body w = (r, w')"
  obtains (dropped) "fst w' = fst w" "\<And>x. r = Ok x \<Longrightarrow> \<exists>w1 w2. fst w1 = fst w \<and> body w1 = (Ok (x, None), w2)"
    "r = Panic \<Longrightarrow> \<exists>w1 w2. fst w1 = fst w \<and> body w1 = (Panic, w2)"
  | (committed) x c w1 w2 where "r = Ok x" "fst w1 = fst w" "body w1 = (Ok (x, Some c), w2)" "fst w' = fst w2"
  using assms unfolding transaction_def by (rule transaction_as_cases) blast+

section \<open>The frame of the helpers\<close>

lemma read_clock_side: "same_fights w (snd (read_clock session w))"
  unfolding read_clock_def by (intro side_intros) (auto simp: side.refl split: option.split)

lemma persist_clock_side: "same_fights w (snd (persist_clock session s w))"
  unfolding persist_clock_def by (intro side_intros execute_side) simp_all

lemma advance_combat_clock_side: "same_fights w (snd (advance_combat_clock session s w))"
  unfolding advance_combat_clock_def
  by (simp add: side.refl) (intro impI side.after_then side.after_try read_clock_side persist_clock_side)

lemma insert_event_side: "same_fights w (snd (insert_event ev w))"
  unfolding insert_event_def by (intro side_intros execute_side) simp_all

lemma advance_session_revision_side: "same_fights w (snd (advance_session_revision c s n k ca w))"
  unfolding advance_session_revision_def
  by (intro side_intros insert_event_side execute_side statement_side)
    (auto simp: side.refl session_update_def split: option.split)

lemma persist_character_side: "same_fights w (snd (persist_character env c i s w))"
  unfolding persist_character_def by (intro side.after_try) (auto intro!: side.after_try execute_side split: prod.split)

lemma persist_sheet_side: "same_fights w (snd (persist_sheet env c i s w))"
  unfolding persist_sheet_def
  by (intro side.after_try)
    (auto intro!: side.after_try side.after_then query_side persist_character_side statement_side
      simp: party_update_def side.refl split: prod.split)

lemma read_adventure_side: "same_fights w (snd (read_adventure c w))"
  unfolding read_adventure_def by (rule query_side)

lemma persist_adventure_side: "same_fights w (snd (persist_adventure c s w))"
  unfolding persist_adventure_def by (cases s) (auto intro!: side.after_try execute_side)

lemma party_sheets_side: "same_fights w (snd (party_sheets env c s w))"
  unfolding party_sheets_def by (intro side_intros) (simp add: side.refl)

lemma advance_scope_side: "same_fights w (snd (advance_scope c s i k w))"
  unfolding advance_scope_def by (intro side_intros advance_session_revision_side) (simp add: side.refl)

lemma sync_heroes_side: "same_fights w (snd (sync_heroes env c now hs sheets w))"
proof (induction hs arbitrary: sheets w)
  case (Cons h hs)
  then show ?case by (auto intro!: side.after_try side.after_then persist_sheet_side split: option.split)
qed (simp add: side.refl)

lemma sync_hero_side: "same_fights w (snd (sync_hero env p w))"
  unfolding sync_hero_def Let_def
  by (auto intro!: side.after_try side.after_then query_side party_sheets_side advance_combat_clock_side read_clock_side
      sync_heroes_side advance_scope_side simp: side.refl split: prod.split)

lemma recover_party_side: "same_fights w (snd (recover_party session out p w))"
  unfolding recover_party_def Let_def
  by (auto intro!: side.after_try side.after_then advance_combat_clock_side simp: side.refl split: prod.split)

lemma conclude_defense_side: "same_fights w (snd (conclude_defense session c v out p w))"
  unfolding conclude_defense_def
  by (auto intro!: side.after_try side.after_then recover_party_side persist_adventure_side simp: side.refl)

lemma resolve_authored_side: "same_fights w (snd (resolve_authored session p w))"
  unfolding resolve_authored_def Let_def
  by (auto intro!: side.after_try side.after_then fetch_one_side read_adventure_side conclude_defense_side
      simp: side.refl split: prod.split option.split)

lemma persist_tokens_side: "same_fights w (snd (persist_tokens i as w))"
proof (induction as arbitrary: w)
  case (Cons a as)
  then show ?case by (auto intro!: side.after_then execute_side simp: token_update_def)
qed (simp add: side.refl)

lemma check_prepared_side: "same_fights w (snd (check_prepared env n p r s w))"
  unfolding check_prepared_def require_prepared_context_def has_bound_manifest_def
  by (auto intro!: side.after_try side.after_then query_side simp: side.refl split: option.split prod.split)

section \<open>Writing a projection\<close>

text \<open>What a transaction may still change of the projection it is given.\<close>

definition settled :: "combat_projection \<Rightarrow> combat_projection \<Rightarrow> bool" where
  "settled p q \<longleftrightarrow> cj_encounter_id q = cj_encounter_id p \<and> cj_revision q = cj_revision p
     \<and> sn_round (cj_snapshot q) = sn_round (cj_snapshot p) \<and> sn_initiative (cj_snapshot q) = sn_initiative (cj_snapshot p)
     \<and> map c_id (sn_combatants (cj_snapshot q)) = map c_id (sn_combatants (cj_snapshot p))
     \<and> map c_character_id (sn_combatants (cj_snapshot q)) = map c_character_id (sn_combatants (cj_snapshot p))
     \<and> (sn_active (cj_snapshot q) \<longrightarrow> sn_active (cj_snapshot p))
     \<and> (cj_authored p = None \<longrightarrow> q = p\<lparr>cj_campaign_scope := cj_campaign_scope q\<rparr>)"

lemma settled_scope: "settled p (p\<lparr>cj_campaign_scope := s\<rparr>)"
  by (simp add: settled_def)

lemma settled_trans:
  assumes "settled p q" "settled q r"
  shows "settled p r"
proof -
  have "r = p\<lparr>cj_campaign_scope := cj_campaign_scope r\<rparr>" if none: "cj_authored p = None"
  proof -
    have q: "q = p\<lparr>cj_campaign_scope := cj_campaign_scope q\<rparr>" using assms(1) none by (simp add: settled_def)
    then have "cj_authored q = cj_authored p" by (metis combat_projection.ext_inject combat_projection.surjective combat_projection.update_convs(4))
    with assms(2) none have "r = q\<lparr>cj_campaign_scope := cj_campaign_scope r\<rparr>" by (simp add: settled_def)
    moreover have "q\<lparr>cj_campaign_scope := cj_campaign_scope r\<rparr> = p\<lparr>cj_campaign_scope := cj_campaign_scope r\<rparr>"
      by (subst q) simp
    ultimately show ?thesis by simp
  qed
  with assms show ?thesis by (simp add: settled_def)
qed

lemma finalize_settled:
  assumes "finalize_defense p f = (out, q)" "cj_authored p \<noteq> None"
  shows "settled p (q\<lparr>cj_adventure := a\<rparr>)"
  using assms by (auto simp: finalize_defense_def settled_def on_snapshot_def Let_def split: option.splits)

lemma healing_ids: "c_id (apply_healing a n) = c_id a" "c_character_id (apply_healing a n) = c_character_id a"
  by (simp_all add: apply_healing_def remove_condition_def Let_def)

definition recovers :: "combat_projection \<Rightarrow> combat_projection \<Rightarrow> bool" where
  "recovers p q \<longleftrightarrow> cj_encounter_id q = cj_encounter_id p \<and> cj_revision q = cj_revision p
     \<and> sn_round (cj_snapshot q) = sn_round (cj_snapshot p) \<and> sn_initiative (cj_snapshot q) = sn_initiative (cj_snapshot p)
     \<and> sn_active (cj_snapshot q) = sn_active (cj_snapshot p)
     \<and> map c_id (sn_combatants (cj_snapshot q)) = map c_id (sn_combatants (cj_snapshot p))
     \<and> map c_character_id (sn_combatants (cj_snapshot q)) = map c_character_id (sn_combatants (cj_snapshot p))"

lemma recovers_refl: "recovers p p"
  by (simp add: recovers_def)

lemma recover_defeated_recovers: "recover_defeated_hero p = (Ok u, q) \<Longrightarrow> recovers p q"
  by (auto simp: recovers_def recover_defeated_hero_def on_snapshot_def Let_def healing_ids split: if_splits)

lemma recover_party_recovers:
  assumes "recover_party session out p w = (Ok q, w')"
  shows "recovers p q"
  using assms recover_defeated_recovers [of p "()" q]
  by (auto simp: recover_party_def run_Ok recovers_refl split: if_splits prod.splits)

lemma conclude_defense_recovers:
  assumes "conclude_defense session c v out p w = (Ok q, w')"
  shows "\<exists>r a. q = r\<lparr>cj_adventure := a\<rparr> \<and> recovers p r"
proof (cases "as_defense (ap_state v) = Some Active")
  case False
  with assms have "q = p\<lparr>cj_adventure := Some v\<rparr>" by (auto simp: conclude_defense_def run_Ok)
  with recovers_refl show ?thesis by blast
next
  case True
  with assms obtain s r w1 where "recover_party session out p w = (Ok r, w1)" "q = r\<lparr>cj_adventure := Some (adventure_view s)\<rparr>"
    unfolding conclude_defense_def by (auto simp only: run_Ok prod.inject res.inject simp_thms if_False split: if_splits)
  with recover_party_recovers show ?thesis by blast
qed

lemma resolve_authored_settled:
  assumes "resolve_authored session p w = (Ok q, w')"
  shows "settled p q"
proof (cases "cj_authored p = None")
  case True
  with assms show ?thesis by (simp add: resolve_authored_def settled_def)
next
  case False
  obtain out q0 where fin: "finalize_defense p False = (out, q0)" by fastforce
  have "\<exists>r a. q = r\<lparr>cj_adventure := a\<rparr> \<and> recovers q0 r"
  proof (cases out)
    case None
    with assms False fin have "\<exists>v. q = q0\<lparr>cj_adventure := Some v\<rparr>" by (auto simp: resolve_authored_def run_Ok)
    with recovers_refl show ?thesis by blast
  next
    case (Some result)
    with assms False fin obtain c v w2 where "conclude_defense session c v result q0 w2 = (Ok q, w')"
      by (auto simp: resolve_authored_def run_Ok)
    then show ?thesis by (rule conclude_defense_recovers)
  qed
  then obtain r a where r: "q = r\<lparr>cj_adventure := a\<rparr>" "recovers q0 r" by blast
  from finalize_settled [OF fin False, of a] r False show ?thesis unfolding settled_def recovers_def by auto
qed

lemma sync_hero_settled:
  assumes "sync_hero env p w = (Ok q, w')"
  shows "\<exists>s. q = p\<lparr>cj_campaign_scope := s\<rparr>"
proof (cases "list_ex (\<lambda>a. c_character_id a \<noteq> None) (sn_combatants (cj_snapshot p))")
  case False
  with assms have "q = p\<lparr>cj_campaign_scope := cj_campaign_scope p\<rparr>" by (auto simp: sync_hero_def run_Ok)
  then show ?thesis ..
next
  case True
  with assms show ?thesis by (auto simp: sync_hero_def run_Ok Let_def)
qed

text \<open>Success is the update of an open fight at the revision expected; the receipts are as they were.\<close>

lemma persist_projection_cases:
  assumes run: "persist_projection env n p w = (Ok q, w')"
  obtains e where "settled p q" "cj_revision p = n + 1" "cj_revision p \<le> i64_max_u64"
    "table_get (st_encounters (fst w)) (cj_encounter_id p) = Some e" "er_revision e = int n" "\<not> er_ended e"
    "er_projection e \<noteq> None"
    "st_encounters (fst w') = table_put (cj_encounter_id p)
       (e\<lparr>er_revision := int (cj_revision q), er_projection := Some q, er_round := int (sn_round (cj_snapshot q)),
          er_active_turn := sn_current_combatant (cj_snapshot q), er_ended := \<not> sn_active (cj_snapshot q)\<rparr>)
       (st_encounters (fst w))"
    "st_receipts (fst w') = st_receipts (fst w)"
proof -
  from run obtain session w1 previous w2 r w3 w4 rows w5 u w6 where
    rev: "u64_checked_add n 1 = Some (cj_revision p)" "cj_revision p \<le> i64_max_u64"
    and s: "fetch_one (sqlite ''read_combat_session'')
        (\<lambda>d. map_option er_session (table_get (st_encounters d) (cj_encounter_id p))) w = (Ok session, w1)"
    and prev: "fetch_one (sqlite ''read_combat_bindings'')
        (\<lambda>d. Option.bind (table_get (st_encounters d) (cj_encounter_id p)) er_projection) w1 = (Ok previous, w2)"
    and auth: "resolve_authored session p w2 = (Ok r, w3)" and hero: "sync_hero env r w3 = (Ok q, w4)"
    and upd: "statement (sqlite ''update_combat_projection'') (projection_update n q) w4 = (Ok rows, w5)" "rows = 1"
    and tok: "persist_tokens (cj_encounter_id q) (sn_combatants (cj_snapshot q)) w5 = (Ok u, w6)" and w': "w' = w6"
    by (auto simp: persist_projection_def run_Ok split: if_splits)
  have set: "settled p q"
    using resolve_authored_settled [OF auth] sync_hero_settled [OF hero] settled_trans settled_scope by blast
  then have ids: "cj_encounter_id q = cj_encounter_id p" by (simp add: settled_def)
  have w1: "fst w1 = fst w" "fst w2 = fst w" using s prev by (simp_all add: fetch_one_Ok)
  have side: "same_fights w w4"
    using resolve_authored_side [of w2 session p] auth sync_hero_side [of w3 env r] hero w1
    by (simp add: same_fights_def)
  have side2: "same_fights w5 w6" using persist_tokens_side [of w5 "cj_encounter_id q" "sn_combatants (cj_snapshot q)"] tok by simp
  from upd have w5: "fst (projection_update n q (fst w4)) = 1" "fst w5 = snd (projection_update n q (fst w4))"
    by (simp_all add: statement_Ok)
  then obtain e where e: "table_get (st_encounters (fst w4)) (cj_encounter_id q) = Some e" "er_revision e = int n" "\<not> er_ended e"
    and w5': "fst w5 = (fst w4)\<lparr>st_encounters := table_put (cj_encounter_id q)
             (e\<lparr>er_revision := int (cj_revision q), er_projection := Some q, er_round := int (sn_round (cj_snapshot q)),
                er_active_turn := sn_current_combatant (cj_snapshot q), er_ended := \<not> sn_active (cj_snapshot q)\<rparr>)
             (st_encounters (fst w4))\<rparr>"
    by (auto simp: projection_update_def split: option.splits if_splits)
  have "er_projection e \<noteq> None" using prev e(1) side w1 ids by (auto simp: fetch_one_Ok same_fights_def)
  moreover have "cj_revision p = n + 1" using rev(1) by (auto simp: u64_checked_add_def split: if_splits)
  ultimately show thesis
    using that [of e] set rev(2) e w5' side side2 w' ids by (simp add: same_fights_def)
qed

end
