(* ===== verification/Ledger.thy ===== *)
theory Ledger
  imports Store_State
begin

text \<open>
  The contract of the combat store: a ledger of fights and of the actions recorded for them, in which an action
  is either refused without a trace, answered from the record, or recorded together with the next revision of
  its fight. The tables implement it (\<open>perform_refines\<close>), whatever statements fail.
\<close>

section \<open>The ledger\<close>

record ledger =
  lg_fights :: "uuid \<Rightarrow> (u64 \<times> bool \<times> combat_projection option) option"
  lg_log :: "uuid \<times> string \<Rightarrow> (string \<times> combat_projection) option"

definition fight_entry :: "combat_projection \<Rightarrow> u64 \<times> bool \<times> combat_projection option" where
  "fight_entry q = (cj_revision q, sn_active (cj_snapshot q), Some q)"

definition write_fight :: "combat_projection \<Rightarrow> ledger \<Rightarrow> ledger" where
  "write_fight q l = l\<lparr>lg_fights := (lg_fights l)(cj_encounter_id q \<mapsto> fight_entry q)\<rparr>"

definition write_action :: "string \<Rightarrow> string \<Rightarrow> combat_projection \<Rightarrow> ledger \<Rightarrow> ledger" where
  "write_action request signature q l =
     (write_fight q l)\<lparr>lg_log := (lg_log l)((cj_encounter_id q, request) \<mapsto> (signature, q))\<rparr>"

definition is_open :: "ledger \<Rightarrow> uuid \<Rightarrow> bool" where
  "is_open l i \<longleftrightarrow> (\<exists>n p. lg_fights l i = Some (n, True, p))"

inductive ledger_step :: "ledger \<Rightarrow> store_call \<Rightarrow> store_reply \<Rightarrow> ledger \<Rightarrow> bool" where
  refuse: "ledger_step l c (Refused e) l"
| crash: "ledger_step l c Crashed l"
| find: "map_option snd (lg_log l (i, r)) = found \<Longrightarrow> (\<And>q. lg_log l (i, r) = Some q \<Longrightarrow> fst q = s) \<Longrightarrow>
     ledger_step l (CallFind i r s) (Found found) l"
| get: "lg_fights l i = Some (n, True, Some p) \<Longrightarrow> q = on_snapshot (\<lambda>sn. sn\<lparr>sn_combatants := actors\<rparr>) p \<Longrightarrow>
     ledger_step l (CallGet i) (Got (Some q)) l"
| gone: "\<not> is_open l i \<Longrightarrow> ledger_step l (CallGet i) (Got None) l"
| replay: "lg_log l (cj_encounter_id p, r) = Some (s, q) \<Longrightarrow>
     ledger_step l (CallCommit n p r s) (Committed q True) l"
| recorded: "lg_log l (cj_encounter_id p, r) = None \<Longrightarrow> lg_fights l (cj_encounter_id p) = Some (n, True, old) \<Longrightarrow>
     cj_revision p = n + 1 \<Longrightarrow> settled p q \<Longrightarrow>
     ledger_step l (CallCommit n p r s) (Committed q False) (write_action r s q l)"
| replace: "lg_fights l (cj_encounter_id p) = Some (n, True, old) \<Longrightarrow> cj_revision p = n + 1 \<Longrightarrow> settled p q \<Longrightarrow>
     ledger_step l (CallCompareAndSet n p) Replaced (write_fight q l)"
| finish: "lg_fights l i = Some (n, True, old) \<Longrightarrow> cj_encounter_id q = i \<Longrightarrow> cj_revision q = n + 1 \<Longrightarrow>
     \<not> sn_active (cj_snapshot q) \<Longrightarrow> ledger_step l (CallEnd i) (Ended (Some q)) (write_fight q l)"
| ended: "\<not> is_open l i \<Longrightarrow> ledger_step l (CallEnd i) (Ended None) l"

inductive_cases recordedE: "ledger_step l (CallCommit n p r s) (Committed q dup) l'"

section \<open>The tables of a ledger\<close>

definition ledger_of :: "store \<Rightarrow> ledger" where
  "ledger_of d = \<lparr>lg_fights = (\<lambda>i. map_option (\<lambda>e. (nat (er_revision e), \<not> er_ended e, er_projection e))
        (table_get (st_encounters d) i)),
     lg_log = (\<lambda>k. table_get (st_receipts d) k)\<rparr>"

text \<open>Rows and projections agree, and no receipt is ahead of its fight.\<close>

definition row_ok :: "uuid \<Rightarrow> encounter_row \<Rightarrow> bool" where
  "row_ok i e \<longleftrightarrow> 0 \<le> er_revision e
     \<and> (\<forall>p. er_projection e = Some p \<longrightarrow> cj_encounter_id p = i \<and> int (cj_revision p) = er_revision e
          \<and> sn_active (cj_snapshot p) = (\<not> er_ended e))"

definition store_ok :: "store \<Rightarrow> bool" where
  "store_ok d \<longleftrightarrow> (\<forall>i e. table_get (st_encounters d) i = Some e \<longrightarrow> row_ok i e)
     \<and> (\<forall>i r s q. table_get (st_receipts d) (i, r) = Some (s, q) \<longrightarrow> cj_encounter_id q = i
          \<and> (\<exists>e. table_get (st_encounters d) i = Some e \<and> int (cj_revision q) \<le> er_revision e))"

lemma same_fights_ledger:
  "same_fights w w' \<Longrightarrow> ledger_of (fst w') = ledger_of (fst w)"
  "same_fights w w' \<Longrightarrow> store_ok (fst w') = store_ok (fst w)"
  by (simp_all add: same_fights_def ledger_of_def store_ok_def)

lemma same_tables: "fst w' = fst w \<Longrightarrow> same_fights w w'"
  by (simp add: same_fights_def)

lemma open_row_ledger: "is_open (ledger_of d) i \<longleftrightarrow> open_row i d \<noteq> None"
  by (auto simp: is_open_def ledger_of_def open_row_def split: option.splits)

lemma open_row_Some: "open_row i d = Some e \<longleftrightarrow> table_get (st_encounters d) i = Some e \<and> \<not> er_ended e"
  by (auto simp: open_row_def split: option.splits)

text \<open>The one write, in the tables and in the ledger.\<close>

lemma write_fight_refines:
  assumes ok: "store_ok d" and e: "table_get (st_encounters d) i = Some e" "er_revision e = int n"
    and q: "cj_encounter_id q = i" "cj_revision q = n + 1"
    and enc: "st_encounters d' = table_put i (e\<lparr>er_revision := int (cj_revision q), er_projection := Some q, er_round := k,
       er_active_turn := t, er_ended := \<not> sn_active (cj_snapshot q)\<rparr>) (st_encounters d)"
  shows "st_receipts d' = st_receipts d \<Longrightarrow> ledger_of d' = write_fight q (ledger_of d)"
    "st_receipts d' = st_receipts d \<Longrightarrow> store_ok d'"
    "st_receipts d' = table_put (i, r) (s, q) (st_receipts d) \<Longrightarrow> ledger_of d' = write_action r s q (ledger_of d)"
    "st_receipts d' = table_put (i, r) (s, q) (st_receipts d) \<Longrightarrow> store_ok d'"
proof -
  have fights: "lg_fights (ledger_of d') = (lg_fights (ledger_of d))(i \<mapsto> fight_entry q)"
    by (rule ext) (simp add: ledger_of_def enc fight_entry_def)
  then show "st_receipts d' = st_receipts d \<Longrightarrow> ledger_of d' = write_fight q (ledger_of d)"
    by (simp add: write_fight_def ledger_of_def q(1))
  show "st_receipts d' = table_put (i, r) (s, q) (st_receipts d) \<Longrightarrow> ledger_of d' = write_action r s q (ledger_of d)"
    using fights by (simp add: write_action_def write_fight_def ledger_of_def q(1) fun_eq_iff)
  have rows: "row_ok j e'" if "table_get (st_encounters d') j = Some e'" for j e'
    using that ok q by (auto simp: enc store_ok_def row_ok_def split: if_splits)
  have old: "cj_encounter_id p = j \<and> (\<exists>e'. table_get (st_encounters d') j = Some e' \<and> int (cj_revision p) \<le> er_revision e')"
    if "table_get (st_receipts d) (j, k) = Some (u, p)" for j k u p
    using ok that e q by (fastforce simp: enc store_ok_def)
  show "st_receipts d' = st_receipts d \<Longrightarrow> store_ok d'" using rows old by (auto simp: store_ok_def)
  show "st_receipts d' = table_put (i, r) (s, q) (st_receipts d) \<Longrightarrow> store_ok d'"
  proof -
    assume rec: "st_receipts d' = table_put (i, r) (s, q) (st_receipts d)"
    have "cj_encounter_id p = j \<and> (\<exists>e'. table_get (st_encounters d') j = Some e' \<and> int (cj_revision p) \<le> er_revision e')"
      if "table_get (st_receipts d') (j, k) = Some (u, p)" for j k u p
    proof (cases "(j, k) = (i, r)")
      case True
      with that rec have "p = q" "j = i" by simp_all
      with q(1) show ?thesis by (simp add: enc)
    next
      case False
      with that rec have "table_get (st_receipts d) (j, k) = Some (u, p)" by (simp split: if_splits)
      then show ?thesis by (rule old)
    qed
    with rows show ?thesis unfolding store_ok_def by blast
  qed
qed

section \<open>The operations\<close>

lemma persist_refines:
  assumes ok: "store_ok (fst w)" and run: "persist_projection env n p w = (Ok q, w')"
  shows "ledger_of (fst w') = write_fight q (ledger_of (fst w))" "store_ok (fst w')"
    "st_receipts (fst w') = st_receipts (fst w)"
    "\<exists>old. lg_fights (ledger_of (fst w)) (cj_encounter_id p) = Some (n, True, old)" "cj_revision p = n + 1" "settled p q"
    "\<And>d r s. st_encounters d = st_encounters (fst w') \<Longrightarrow> st_receipts d = table_put (cj_encounter_id p, r) (s, q) (st_receipts (fst w)) \<Longrightarrow>
       ledger_of d = write_action r s q (ledger_of (fst w)) \<and> store_ok d"
proof -
  from run obtain e where p: "settled p q" "cj_revision p = n + 1" "cj_revision p \<le> i64_max_u64"
    "table_get (st_encounters (fst w)) (cj_encounter_id p) = Some e" "er_revision e = int n" "\<not> er_ended e"
    "er_projection e \<noteq> None"
    "st_encounters (fst w') = table_put (cj_encounter_id p)
       (e\<lparr>er_revision := int (cj_revision q), er_projection := Some q, er_round := int (sn_round (cj_snapshot q)),
          er_active_turn := sn_current_combatant (cj_snapshot q), er_ended := \<not> sn_active (cj_snapshot q)\<rparr>)
       (st_encounters (fst w))"
    "st_receipts (fst w') = st_receipts (fst w)"
    by (rule persist_projection_cases)
  have q: "cj_encounter_id q = cj_encounter_id p" "cj_revision q = n + 1" using p(1,2) by (simp_all add: settled_def)
  note w = write_fight_refines [OF ok p(4,5) q]
  show "ledger_of (fst w') = write_fight q (ledger_of (fst w))" "store_ok (fst w')" by (rule w(1,2) [OF p(8,9)])+
  show "st_receipts (fst w') = st_receipts (fst w)" "cj_revision p = n + 1" "settled p q" by fact+
  show "\<exists>old. lg_fights (ledger_of (fst w)) (cj_encounter_id p) = Some (n, True, old)"
    using p(4,5,6) by (simp add: ledger_of_def)
  show "ledger_of d = write_action r s q (ledger_of (fst w)) \<and> store_ok d"
    if "st_encounters d = st_encounters (fst w')" "st_receipts d = table_put (cj_encounter_id p, r) (s, q) (st_receipts (fst w))" for d r s
    using w(3,4) [OF that(1) [unfolded p(8)] that(2)] by blast
qed

lemma find_refines:
  assumes "find_combat_action i r s w = (res, w')"
  shows "same_fights w w'" "res = Ok found \<Longrightarrow> ledger_step (ledger_of (fst w)) (CallFind i r s) (Found found) (ledger_of (fst w))"
proof -
  have "same_fights w (snd (find_combat_action i r s w))"
    unfolding find_combat_action_def by (auto intro!: side.after_try side.after_then query_side simp: side.refl split: option.split)
  with assms show "same_fights w w'" by simp
  show "ledger_step (ledger_of (fst w)) (CallFind i r s) (Found found) (ledger_of (fst w))" if "res = Ok found"
    using assms that
    by (intro ledger_step.find)
      (auto simp: find_combat_action_def run_Ok query_Ok receipt_def ledger_of_def decode_receipt_def split: option.splits if_splits)
qed

lemma recover_loadouts_cases:
  assumes "recover_loadouts env p w = (r, w')"
  shows "same_fights w w'" "r = Ok q \<Longrightarrow> \<exists>actors. q = on_snapshot (\<lambda>sn. sn\<lparr>sn_combatants := actors\<rparr>) p"
proof -
  have "same_fights w (snd (recover_loadouts env p w))"
    unfolding recover_loadouts_def Let_def
    by (auto intro!: side.after_try side.after_then party_sheets_side simp: side.refl split: option.split prod.split)
  with assms show "same_fights w w'" by simp
  assume ok: "r = Ok q"
  show "\<exists>actors. q = on_snapshot (\<lambda>sn. sn\<lparr>sn_combatants := actors\<rparr>) p"
  proof (cases "cj_campaign_scope p")
    case None
    with assms ok have "q = on_snapshot (\<lambda>sn. sn\<lparr>sn_combatants := sn_combatants (cj_snapshot p)\<rparr>) p"
      by (simp add: recover_loadouts_def on_snapshot_def)
    then show ?thesis ..
  next
    case (Some scope)
    with assms ok obtain sheets where "recover_party_loadouts env sheets p = Ok q"
      by (auto simp: recover_loadouts_def run_Ok Let_def split: prod.splits)
    then show ?thesis by (auto simp: recover_party_loadouts_def bind_res_Ok Let_def)
  qed
qed

lemma get_refines:
  assumes run: "get_combat env i w = (r, w')"
  shows "same_fights w w'" "r = Ok found \<Longrightarrow> ledger_step (ledger_of (fst w)) (CallGet i) (Got found) (ledger_of (fst w))"
proof -
  let ?body = "\<lambda>w. and_then (query (sqlite ''get_combat'') (open_row i) w) (\<lambda>row w1.
       case row of
         None \<Rightarrow> (Ok (None, Some ''commit_combat_read''), w1)
       | Some e \<Rightarrow>
           try_state (ok_or (er_projection e) (sqlite ''missing_combat_projection'')) w1 (\<lambda>p.
           and_then (recover_loadouts (sv_sheets env) p w1) (\<lambda>q w2. (Ok (Some q, Some ''commit_combat_read''), w2))))"
  have side: "same_fights u (snd (?body u))" for u
    by (auto intro!: side.after_try side.after_then query_side recover_loadouts_cases(1) [OF surjective_pairing]
        simp: side.refl split: option.split)
  have out: "ledger_step (ledger_of (fst u)) (CallGet i) (Got x) (ledger_of (fst u)) \<and> c \<noteq> None" if "?body u = (Ok (x, c), u')" for x c u u'
  proof (cases "open_row i (fst u)")
    case None
    with that have "x = None" "c \<noteq> None" by (auto simp: run_Ok query_Ok split: option.splits)
    with None show ?thesis by (auto intro: ledger_step.gone simp: open_row_ledger)
  next
    case (Some e)
    with that obtain p q u1 u2 where p: "er_projection e = Some p" "recover_loadouts (sv_sheets env) p u1 = (Ok q, u2)" "x = Some q" "c \<noteq> None"
      by (auto simp: run_Ok query_Ok split: option.splits)
    obtain actors where "q = on_snapshot (\<lambda>sn. sn\<lparr>sn_combatants := actors\<rparr>) p"
      using recover_loadouts_cases(2) [OF p(2)] by blast
    with p Some show ?thesis by (auto intro!: ledger_step.get simp: open_row_Some ledger_of_def)
  qed
  from run [unfolded get_combat_def] show "same_fights w w'"
  proof (cases rule: transaction_cases)
    case dropped
    then show ?thesis by (simp add: same_tables)
  next
    case (committed x c w1 w2)
    with side [of w1] show ?thesis by (simp add: same_fights_def)
  qed
  assume ok: "r = Ok found"
  from run [unfolded get_combat_def] show "ledger_step (ledger_of (fst w)) (CallGet i) (Got found) (ledger_of (fst w))"
  proof (cases rule: transaction_cases)
    case dropped
    with ok out show ?thesis by blast
  next
    case (committed x c w1 w2)
    with out [OF committed(3)] ok show ?thesis by simp
  qed
qed

lemma commit_refines:
  assumes ok: "store_ok (fst w)" and run: "commit_combat_action env n p r s w = (res, w')"
  shows "store_ok (fst w')"
    "case res of Ok a \<Rightarrow> ledger_step (ledger_of (fst w)) (CallCommit n p r s) (Committed (rr_projection a) (rr_duplicate a)) (ledger_of (fst w'))
       | _ \<Rightarrow> ledger_of (fst w') = ledger_of (fst w)"
proof -
  let ?body = "\<lambda>w. and_then (query (sqlite ''read_combat_receipt'') (receipt (cj_encounter_id p) r) w) (\<lambda>row w1.
       case row of
         Some k \<Rightarrow>
           try_state (decode_receipt s k) w1 (\<lambda>recorded.
           (Ok (\<lparr>rr_projection = recorded, rr_duplicate = True\<rparr>, Some ''commit_combat_replay''), w1))
       | None \<Rightarrow>
           and_then (check_prepared env n p r s w1) (\<lambda>_ w2.
           and_then (persist_projection env n p w2) (\<lambda>q w3.
           and_then (execute (sqlite ''insert_combat_receipt'')
              (\<lambda>d. d\<lparr>st_receipts := table_put (cj_encounter_id q, r) (s, q) (st_receipts d)\<rparr>) w3) (\<lambda>_ w4.
           (Ok (\<lparr>rr_projection = q, rr_duplicate = False\<rparr>, Some ''commit_combat_action''), w4)))))"
  have body: "c \<noteq> None \<and> store_ok (fst u') \<and>
      ledger_step (ledger_of (fst u)) (CallCommit n p r s) (Committed (rr_projection a) (rr_duplicate a)) (ledger_of (fst u'))"
    if run: "?body u = (Ok (a, c), u')" and ok: "store_ok (fst u)" for a c u u'
  proof (cases "receipt (cj_encounter_id p) r (fst u)")
    case (Some k)
    with run have "fst u' = fst u" "c \<noteq> None" "fst k = s" "a = \<lparr>rr_projection = snd k, rr_duplicate = True\<rparr>"
      by (auto simp: run_Ok query_Ok decode_receipt_def split: if_splits)
    with Some ok show ?thesis
      by (auto intro!: ledger_step.replay simp: ledger_of_def receipt_def)
  next
    case None
    with run obtain u1 u2 q u3 where q0: "query (sqlite ''read_combat_receipt'') (receipt (cj_encounter_id p) r) u = (Ok None, u1)"
      and chk: "check_prepared env n p r s u1 = (Ok (), u2)" and per: "persist_projection env n p u2 = (Ok q, u3)"
      and ins: "execute (sqlite ''insert_combat_receipt'')
              (\<lambda>d. d\<lparr>st_receipts := table_put (cj_encounter_id q, r) (s, q) (st_receipts d)\<rparr>) u3 = (Ok (), u')"
      and a: "a = \<lparr>rr_projection = q, rr_duplicate = False\<rparr>" "c \<noteq> None"
      by (auto simp: run_Ok query_Ok)
    have side: "same_fights u u2"
      using check_prepared_side [of u1 env n p r s] chk q0 by (simp add: same_fights_def query_Ok)
    note sf = same_fights_ledger [OF side]
    from sf(2) ok have ok2: "store_ok (fst u2)" by simp
    note pr = persist_refines [OF ok2 per]
    have q: "cj_encounter_id q = cj_encounter_id p" using pr(6) by (simp add: settled_def)
    have "ledger_of (fst u') = write_action r s q (ledger_of (fst u2)) \<and> store_ok (fst u')"
      by (rule pr(7)) (use ins q pr(3) in \<open>simp_all add: execute_Ok\<close>)
    moreover have "lg_log (ledger_of (fst u)) (cj_encounter_id p, r) = None" using None by (simp add: ledger_of_def receipt_def)
    moreover obtain old where "lg_fights (ledger_of (fst u)) (cj_encounter_id p) = Some (n, True, old)" using pr(4) sf(1) by auto
    ultimately show ?thesis using a pr(5,6) sf(1) by (auto intro!: ledger_step.recorded)
  qed
  have both: "store_ok (fst w') \<and> (case res of Ok a \<Rightarrow> ledger_step (ledger_of (fst w)) (CallCommit n p r s) (Committed (rr_projection a) (rr_duplicate a)) (ledger_of (fst w'))
       | _ \<Rightarrow> ledger_of (fst w') = ledger_of (fst w))"
    using run [unfolded commit_combat_action_def]
  proof (cases rule: transaction_cases)
    case dropped
    have "res \<noteq> Ok x" for x using dropped(2) [of x] body ok by fastforce
    with dropped(1) ok show ?thesis by (simp split: res.split)
  next
    case (committed x c w1 w2)
    with body [OF committed(3)] ok show ?thesis by simp
  qed
  then show "store_ok (fst w')"
    "case res of Ok a \<Rightarrow> ledger_step (ledger_of (fst w)) (CallCommit n p r s) (Committed (rr_projection a) (rr_duplicate a)) (ledger_of (fst w'))
       | _ \<Rightarrow> ledger_of (fst w') = ledger_of (fst w)" by blast+
qed

lemma replace_refines:
  assumes ok: "store_ok (fst w)" and run: "compare_and_set env n p w = (res, w')"
  shows "store_ok (fst w') \<and> (case res of Ok _ \<Rightarrow> ledger_step (ledger_of (fst w)) (CallCompareAndSet n p) Replaced (ledger_of (fst w'))
       | _ \<Rightarrow> ledger_of (fst w') = ledger_of (fst w))"
  using run [unfolded compare_and_set_def]
proof (cases rule: transaction_cases)
  case dropped
  have "res \<noteq> Ok x" for x using dropped(2) [of x] by (auto simp: run_Ok)
  with dropped(1) ok show ?thesis by (simp split: res.split)
next
  case (committed x c w1 w2)
  then obtain q where per: "persist_projection env n p w1 = (Ok q, w2)" by (auto simp: run_Ok)
  from committed(2) ok have ok1: "store_ok (fst w1)" by simp
  note pr = persist_refines [OF ok1 per]
  with committed show ?thesis by (auto intro: ledger_step.replace)
qed

definition same_number :: "combat_projection \<Rightarrow> combat_projection \<Rightarrow> bool" where
  "same_number p q \<longleftrightarrow> cj_encounter_id q = cj_encounter_id p \<and> cj_revision q = cj_revision p"

interpretation number: evolution same_number
  by unfold_locales (simp_all add: same_number_def)

lemma prepare_end_cases:
  assumes "prepare_end p = (r, q)"
  shows "cj_encounter_id q = cj_encounter_id p" "cj_revision q = cj_revision p"
proof -
  have step: "same_number p (on_snapshot f p)" for f
    by (simp add: same_number_def on_snapshot_def)
  have "same_number p (snd (prepare_end p))"
    unfolding prepare_end_def Let_def
    by (auto intro!: number.after_try simp: number.refl step split: option.split prod.split)
  with assms show "cj_encounter_id q = cj_encounter_id p" "cj_revision q = cj_revision p" by (simp_all add: same_number_def)
qed

lemma mark_ended_tables:
  assumes "\<And>e. table_get (st_encounters d) i = Some e \<Longrightarrow> er_ended e"
  shows "ledger_of (mark_ended i d) = ledger_of d" "store_ok (mark_ended i d) = store_ok d"
proof -
  have get: "table_get (st_encounters (mark_ended i d)) j = table_get (st_encounters d) j" for j
  proof (cases "j = i \<and> table_get (st_encounters d) i \<noteq> None")
    case True
    then obtain e where "table_get (st_encounters d) i = Some e" by blast
    with assms [OF this] True show ?thesis by (simp add: mark_ended_def)
  next
    case False
    then show ?thesis by (auto simp: mark_ended_def)
  qed
  have rec: "st_receipts (mark_ended i d) = st_receipts d" by (simp add: mark_ended_def)
  show "ledger_of (mark_ended i d) = ledger_of d" "store_ok (mark_ended i d) = store_ok d"
    by (simp_all add: ledger_of_def store_ok_def get rec)
qed

lemma end_refines:
  assumes ok: "store_ok (fst w)" and run: "end_combat env i w = (res, w')"
  shows "store_ok (fst w') \<and> (case res of Ok q \<Rightarrow> ledger_step (ledger_of (fst w)) (CallEnd i) (Ended q) (ledger_of (fst w'))
       | _ \<Rightarrow> ledger_of (fst w') = ledger_of (fst w))"
proof -
  let ?body = "\<lambda>w. and_then (query (sqlite ''read_combat_end'') (open_row i) w) (\<lambda>row w1.
       case row of
         None \<Rightarrow> (Ok (None, None), w1)
       | Some e \<Rightarrow>
           try_state (ok_or (er_projection e) (sqlite ''read_combat_end'')) w1 (\<lambda>stored.
           let (left, p) = prepare_end stored in
           try_state (map_err sqlite left) w1 (\<lambda>_.
           try_state (ok_or (u64_checked_add (cj_revision p) 1) (sqlite ''combat_revision_invalid'')) w1 (\<lambda>revision.
           and_then (persist_projection env (cj_revision p)
              (on_snapshot (\<lambda>sn. sn\<lparr>sn_active := False\<rparr>) (p\<lparr>cj_revision := revision\<rparr>)) w1) (\<lambda>q w2.
           and_then (execute (sqlite ''end_combat'') (mark_ended i) w2) (\<lambda>_ w3.
           (Ok (Some q, Some ''commit_combat_end''), w3)))))))"
  have none: "open_row i (fst u) = None \<and> x = None \<and> c = None \<or>
      (\<exists>e stored p u1 u2 q revision left. open_row i (fst u) = Some e \<and> er_projection e = Some stored \<and> prepare_end stored = (left, p)
         \<and> u64_checked_add (cj_revision p) 1 = Some revision \<and> fst u1 = fst u
         \<and> persist_projection env (cj_revision p) (on_snapshot (\<lambda>sn. sn\<lparr>sn_active := False\<rparr>) (p\<lparr>cj_revision := revision\<rparr>)) u1 = (Ok q, u2)
         \<and> fst u' = mark_ended i (fst u2) \<and> x = Some q \<and> c \<noteq> None)"
    if "?body u = (Ok (x, c), u')" for u x c u'
  proof (cases "open_row i (fst u)")
    case None
    with that show ?thesis by (auto simp: run_Ok query_Ok)
  next
    case (Some e)
    show ?thesis
    proof (cases "er_projection e")
      case None
      with that Some show ?thesis by (auto simp: run_Ok query_Ok)
    next
      case stored: (Some stored)
      obtain left p where pe: "prepare_end stored = (left, p)" by fastforce
      from that Some stored pe obtain u1 revision q u2 u3 where h: "fst u1 = fst u"
        "u64_checked_add (cj_revision p) 1 = Some revision"
        "persist_projection env (cj_revision p) (on_snapshot (\<lambda>sn. sn\<lparr>sn_active := False\<rparr>) (p\<lparr>cj_revision := revision\<rparr>)) u1 = (Ok q, u2)"
        "execute (sqlite ''end_combat'') (mark_ended i) u2 = (Ok (), u3)" "u' = u3" "x = Some q" "c = Some ''commit_combat_end''"
        by (auto simp: run_Ok query_Ok)
      from h(4,5) have "fst u' = mark_ended i (fst u2)" by (simp add: execute_Ok)
      with Some stored pe h show ?thesis
        by (intro disjI2 exI [of _ e] exI [of _ stored] exI [of _ p] exI [of _ u1] exI [of _ u2] exI [of _ q]
            exI [of _ revision] exI [of _ left]) simp
    qed
  qed
  show ?thesis
    using run [unfolded end_combat_def]
  proof (cases rule: transaction_cases)
    case dropped
    have "ledger_step (ledger_of (fst w)) (CallEnd i) (Ended x) (ledger_of (fst w'))" if "res = Ok x" for x
    proof -
      from dropped(2) [OF that] obtain w1 w2 where w1: "fst w1 = fst w" and b: "?body w1 = (Ok (x, None), w2)" by blast
      from none [OF b] have "open_row i (fst w1) = None" "x = None" by simp_all
      with dropped(1) w1 show ?thesis by (simp add: ledger_step.ended open_row_ledger)
    qed
    with dropped(1) ok show ?thesis by (simp split: res.split)
  next
    case (committed x c w1 w2)
    from none [OF committed(3)] committed(2) obtain e stored p u1 u2 q revision left where
      e: "open_row i (fst w) = Some e" "er_projection e = Some stored" "prepare_end stored = (left, p)"
      and rev: "u64_checked_add (cj_revision p) 1 = Some revision" and u1: "fst u1 = fst w"
      and per: "persist_projection env (cj_revision p) (on_snapshot (\<lambda>sn. sn\<lparr>sn_active := False\<rparr>) (p\<lparr>cj_revision := revision\<rparr>)) u1 = (Ok q, u2)"
      and w2: "fst w2 = mark_ended i (fst u2)" and x: "x = Some q" by auto
    note pe = prepare_end_cases [OF e(3)]
    have row: "table_get (st_encounters (fst w)) i = Some e" "\<not> er_ended e" using e(1) by (simp_all add: open_row_Some)
    with ok e(2) have stored: "cj_encounter_id stored = i" by (simp add: store_ok_def row_ok_def)
    from ok u1 have ok1: "store_ok (fst u1)" by simp
    note pr = persist_refines [OF ok1 per]
    have q: "cj_encounter_id q = i" "\<not> sn_active (cj_snapshot q)" "cj_revision q = cj_revision p + 1"
      using pr(5,6) pe stored by (simp_all add: settled_def on_snapshot_def)
    have fight: "lg_fights (ledger_of (fst u2)) i = Some (fight_entry q)" using pr(1) q(1) by (simp add: write_fight_def)
    have "er_ended e'" if "table_get (st_encounters (fst u2)) i = Some e'" for e'
      using fight that q(2) by (simp add: ledger_of_def fight_entry_def)
    note me = mark_ended_tables [OF this]
    obtain old where "lg_fights (ledger_of (fst w)) i = Some (cj_revision p, True, old)"
      using pr(4) pe stored u1 by (auto simp: on_snapshot_def)
    from ledger_step.finish [OF this q(1) q(3) q(2)] me pr(1,2) w2 x u1 committed(1,4) show ?thesis by simp
  qed
qed

text \<open>Every operation refines a step of the ledger.\<close>

lemma perform_refines:
  assumes ok: "store_ok (fst w)" and run: "perform env c w = (reply, w')"
  shows "store_ok (fst w') \<and> ledger_step (ledger_of (fst w)) c reply (ledger_of (fst w'))"
proof (cases c)
  case (CallFind i r s)
  with run obtain res where f: "find_combat_action i r s w = (res, w')" "reply = fst (reply_of Found (res, w'))"
    by (cases "find_combat_action i r s w") (auto simp: reply_of_def split: res.splits)
  note side = same_fights_ledger [OF find_refines(1) [OF f(1)]]
  show ?thesis
    using f(2) find_refines(2) [OF f(1)] side ok CallFind
    by (cases res) (auto simp: reply_of_def intro: ledger_step.refuse ledger_step.crash)
next
  case (CallGet i)
  with run obtain res where f: "get_combat env i w = (res, w')" "reply = fst (reply_of Got (res, w'))"
    by (cases "get_combat env i w") (auto simp: reply_of_def split: res.splits)
  note side = same_fights_ledger [OF get_refines(1) [OF f(1)]]
  show ?thesis
    using f(2) get_refines(2) [OF f(1)] side ok CallGet
    by (cases res) (auto simp: reply_of_def intro: ledger_step.refuse ledger_step.crash)
next
  case (CallCommit n p r s)
  with run obtain res where f: "commit_combat_action env n p r s w = (res, w')"
    "reply = fst (reply_of (\<lambda>a. Committed (rr_projection a) (rr_duplicate a)) (res, w'))"
    by (cases "commit_combat_action env n p r s w") (auto simp: reply_of_def split: res.splits)
  with commit_refines [OF ok f(1)] CallCommit show ?thesis
    by (cases res) (auto simp: reply_of_def intro: ledger_step.refuse ledger_step.crash)
next
  case (CallCompareAndSet n p)
  with run obtain res where f: "compare_and_set env n p w = (res, w')" "reply = fst (reply_of (\<lambda>_. Replaced) (res, w'))"
    by (cases "compare_and_set env n p w") (auto simp: reply_of_def split: res.splits)
  with replace_refines [OF ok f(1)] CallCompareAndSet show ?thesis
    by (cases res) (auto simp: reply_of_def intro: ledger_step.refuse ledger_step.crash)
next
  case (CallEnd i)
  with run obtain res where f: "end_combat env i w = (res, w')" "reply = fst (reply_of Ended (res, w'))"
    by (cases "end_combat env i w") (auto simp: reply_of_def split: res.splits)
  with end_refines [OF ok f(1)] CallEnd show ?thesis
    by (cases res) (auto simp: reply_of_def intro: ledger_step.refuse ledger_step.crash)
qed

end
