(* ===== verification/Ledger_Runs.thy ===== *)
theory Ledger_Runs
  imports Ledger
begin

text \<open>
  Runs of the combat store: any sequence of calls, in the order their transactions take the lock. What is
  recorded stays recorded, and the revision of a fight never falls. A use case that finds, reads and commits
  through a log of actions (locale \<open>action_log\<close>) answers a request once; the store is such a log, whatever
  other clients do between the calls.
\<close>

section \<open>Runs\<close>

fun ledger_run :: "ledger \<Rightarrow> (store_call \<times> store_reply) list \<Rightarrow> ledger \<Rightarrow> bool" where
  "ledger_run l [] l' \<longleftrightarrow> l' = l"
| "ledger_run l ((c, r) # rest) l' \<longleftrightarrow> (\<exists>m. ledger_step l c r m \<and> ledger_run m rest l')"

lemma ledger_run_append: "ledger_run l (xs @ ys) l' \<longleftrightarrow> (\<exists>m. ledger_run l xs m \<and> ledger_run m ys l')"
proof (induction xs arbitrary: l)
  case (Cons x xs)
  then show ?case by (cases x) (simp, blast)
qed simp

lemma ledger_run_at:
  assumes "ledger_run l xs l'" "k < length xs" "xs ! k = (c, r)"
  obtains m m' where "ledger_run l (take k xs) m" "ledger_step m c r m'" "ledger_run m' (drop (Suc k) xs) l'"
proof -
  have "xs = take k xs @ (c, r) # drop (Suc k) xs" using assms(2,3) by (metis id_take_nth_drop)
  with assms(1) have "ledger_run l (take k xs @ (c, r) # drop (Suc k) xs) l'" by simp
  then show thesis using that by (auto simp: ledger_run_append)
qed

definition ledger_grows :: "ledger \<Rightarrow> ledger \<Rightarrow> bool" where
  "ledger_grows l m \<longleftrightarrow> lg_log l \<subseteq>\<^sub>m lg_log m
     \<and> (\<forall>i n a p. lg_fights l i = Some (n, a, p) \<longrightarrow> (\<exists>n' a' p'. lg_fights m i = Some (n', a', p') \<and> n \<le> n'))"

lemma ledger_grows_refl: "ledger_grows l l"
  by (simp add: ledger_grows_def)

lemma ledger_grows_trans: "ledger_grows k l \<Longrightarrow> ledger_grows l m \<Longrightarrow> ledger_grows k m"
  unfolding ledger_grows_def by (meson map_le_trans order.trans)

interpretation growing: evolution ledger_grows
  by unfold_locales (rule ledger_grows_refl, rule ledger_grows_trans)

lemma write_fight_grows:
  assumes "lg_fights l (cj_encounter_id q) = Some (n, a, old)" "n \<le> cj_revision q"
  shows "ledger_grows l (write_fight q l)"
  using assms by (auto simp: ledger_grows_def write_fight_def fight_entry_def)

lemma write_action_grows:
  assumes "lg_fights l (cj_encounter_id q) = Some (n, a, old)" "n \<le> cj_revision q" "lg_log l (cj_encounter_id q, r) = None"
  shows "ledger_grows l (write_action r s q l)"
  using write_fight_grows [OF assms(1,2)] assms(3)
  by (auto simp: ledger_grows_def write_action_def map_le_def write_fight_def)

lemma step_grows: "ledger_step l c r m \<Longrightarrow> ledger_grows l m"
proof (induction rule: ledger_step.induct)
  case (recorded l p r n old q s)
  then show ?case by (intro write_action_grows) (auto simp: settled_def)
next
  case (replace l p n old q)
  then show ?case by (intro write_fight_grows) (auto simp: settled_def)
next
  case (finish l i n old q)
  then show ?case by (intro write_fight_grows) auto
qed (simp_all add: ledger_grows_refl)

lemma run_grows: "ledger_run l xs m \<Longrightarrow> ledger_grows l m"
proof (induction xs arbitrary: l)
  case (Cons x xs)
  then show ?case by (cases x) (auto dest: step_grows intro: ledger_grows_trans)
qed (simp add: ledger_grows_refl)

lemma logged_later: "ledger_grows l m \<Longrightarrow> lg_log l k = Some x \<Longrightarrow> lg_log m k = Some x"
  unfolding ledger_grows_def by (metis domI map_le_def)

lemma perform_all_refines:
  assumes "store_ok (fst w)" "perform_all env cs w = (rs, w')"
  shows "store_ok (fst w') \<and> length rs = length cs \<and> ledger_run (ledger_of (fst w)) (zip cs rs) (ledger_of (fst w'))"
  using assms
proof (induction cs arbitrary: w rs w')
  case (Cons c cs)
  obtain r w1 where r: "perform env c w = (r, w1)" by (meson surj_pair)
  obtain rest w2 where rest: "perform_all env cs w1 = (rest, w2)" by (meson surj_pair)
  from perform_refines [OF Cons.prems(1) r] have ok: "store_ok (fst w1)" and st: "ledger_step (ledger_of (fst w)) c r (ledger_of (fst w1))" by blast+
  from Cons.prems(2) r rest have out: "rs = r # rest" "w' = w2" by simp_all
  from Cons.IH [OF ok rest] st out show ?case by auto
qed simp

section \<open>An answered action is recorded\<close>

lemma committed_cases:
  assumes "ledger_step l (CallCommit n p r s) (Committed q dup) m"
  shows "lg_log m (cj_encounter_id p, r) = Some (s, q)"
    "if dup then lg_log l (cj_encounter_id p, r) = Some (s, q) \<and> m = l
     else lg_log l (cj_encounter_id p, r) = None \<and> (\<exists>old. lg_fights l (cj_encounter_id p) = Some (n, True, old))
        \<and> lg_fights m (cj_encounter_id p) = Some (n + 1, sn_active (cj_snapshot q), Some q)"
proof -
  have "lg_log m (cj_encounter_id p, r) = Some (s, q)
     \<and> (if dup then lg_log l (cj_encounter_id p, r) = Some (s, q) \<and> m = l
     else lg_log l (cj_encounter_id p, r) = None \<and> (\<exists>old. lg_fights l (cj_encounter_id p) = Some (n, True, old))
        \<and> lg_fights m (cj_encounter_id p) = Some (n + 1, sn_active (cj_snapshot q), Some q))"
    by (rule recordedE [OF assms]) (auto simp: write_action_def write_fight_def fight_entry_def settled_def)
  then show "lg_log m (cj_encounter_id p, r) = Some (s, q)"
    "if dup then lg_log l (cj_encounter_id p, r) = Some (s, q) \<and> m = l
     else lg_log l (cj_encounter_id p, r) = None \<and> (\<exists>old. lg_fights l (cj_encounter_id p) = Some (n, True, old))
        \<and> lg_fights m (cj_encounter_id p) = Some (n + 1, sn_active (cj_snapshot q), Some q)" by blast+
qed

lemma recorded_once:
  assumes run: "ledger_run l xs l'" and ij: "i < j" "j < length xs"
    and i: "xs ! i = (CallCommit n p r s, Committed q dup)"
    and j: "xs ! j = (CallCommit n' p' r' s', Committed q' dup')" and same: "cj_encounter_id p' = cj_encounter_id p"
  shows "r' = r \<longrightarrow> dup' \<and> q' = q \<and> s' = s" "\<not> dup \<and> \<not> dup' \<longrightarrow> n < n'"
proof -
  obtain m m' where a: "ledger_step m (CallCommit n p r s) (Committed q dup) m'" "ledger_run m' (drop (Suc i) xs) l'"
    by (rule ledger_run_at [OF run _ i]) (use ij in simp)
  have len: "j - Suc i < length (drop (Suc i) xs)" and nth: "drop (Suc i) xs ! (j - Suc i) = (CallCommit n' p' r' s', Committed q' dup')"
    using ij j by simp_all
  obtain k k' where b: "ledger_run m' (take (j - Suc i) (drop (Suc i) xs)) k"
    "ledger_step k (CallCommit n' p' r' s') (Committed q' dup') k'"
    by (rule ledger_run_at [OF a(2) len nth])
  note grows = run_grows [OF b(1)]
  note ca = committed_cases [OF a(1)] and cb = committed_cases [OF b(2), unfolded same]
  from logged_later [OF grows ca(1)] cb(2) show "r' = r \<longrightarrow> dup' \<and> q' = q \<and> s' = s" by (auto split: if_splits)
  show "\<not> dup \<and> \<not> dup' \<longrightarrow> n < n'"
  proof
    assume fresh: "\<not> dup \<and> \<not> dup'"
    with ca(2) have "lg_fights m' (cj_encounter_id p) = Some (n + 1, sn_active (cj_snapshot q), Some q)" by simp
    with grows obtain n1 a1 p1 where "lg_fights k (cj_encounter_id p) = Some (n1, a1, p1)" "n + 1 \<le> n1"
      unfolding ledger_grows_def by blast
    with cb(2) fresh show "n < n'" by auto
  qed
qed

section \<open>A log of actions\<close>

locale action_log =
  fixes find_action :: "'w find_action" and get :: "'w get_encounter" and commit :: "'w commit_action"
    and logged :: "'w \<Rightarrow> uuid \<Rightarrow> string \<Rightarrow> (string \<times> combat_projection) option" and good :: "'w \<Rightarrow> bool"
  assumes find_good: "good w \<Longrightarrow> find_action i r s w = (x, w') \<Longrightarrow> good w'"
    and find_found: "good w \<Longrightarrow> find_action i r s w = (Ok (Some p), w') \<Longrightarrow> logged w' i r = Some (s, p)"
    and find_logged: "good w \<Longrightarrow> logged w i r = Some (s, p) \<Longrightarrow> find_action i r s w = (Ok y, w') \<Longrightarrow> y = Some p"
    and get_good: "good w \<Longrightarrow> get i w = (x2, w') \<Longrightarrow> good w'"
    and get_fight: "good w \<Longrightarrow> get i w = (Ok (Some p), w') \<Longrightarrow> cj_encounter_id p = i"
    and commit_good: "good w \<Longrightarrow> commit n p r s w = (x3, w') \<Longrightarrow> good w'"
    and commit_logged: "good w \<Longrightarrow> commit n p r s w = (Ok a, w') \<Longrightarrow> logged w' (cj_encounter_id p) r = Some (s, rr_projection a)"
begin

definition answered :: "resolve_combat_command \<Rightarrow> string \<Rightarrow> (resolve_combat_error, resolve_combat_result) res \<times> 'w \<Rightarrow> bool" where
  "answered c signature m \<longleftrightarrow>
     (case fst m of
        Ok a \<Rightarrow> good (snd m) \<and> logged (snd m) (rc_encounter_id c) (rc_request_id c) = Some (signature, rr_projection a)
      | _ \<Rightarrow> good (snd m))"

lemma replay_answered:
  assumes "good w" "\<And>w1. good w1 \<Longrightarrow> answered c signature (k w1)"
  shows "answered c signature (replay_or find_action c signature k w)"
proof -
  obtain x w1 where f: "find_action (rc_encounter_id c) (rc_request_id c) signature w = (x, w1)" by fastforce
  note good = find_good [OF assms(1) f]
  show ?thesis
  proof (cases x)
    case (Ok found)
    with assms(2) [OF good] find_found [OF assms(1)] f good show ?thesis
      by (cases found) (auto simp: replay_or_def map_failure_def answered_def)
  qed (use f good in \<open>auto simp: replay_or_def map_failure_def answered_def\<close>)
qed

lemma execute_answered:
  assumes "good w" and fight: "\<And>p q. prepare_action rr sf p (rc_action c) (rc_rng_seed c) = Ok q \<Longrightarrow> cj_encounter_id q = cj_encounter_id p"
  shows "answered c (to_json (request_of c)) (execute_combat find_action get commit to_json rr sf c w)"
proof -
  let ?sig = "to_json (request_of c)"
  let ?commit = "\<lambda>p w2. try_state (prepare_action rr sf p (rc_action c) (rc_rng_seed c)) w2 (\<lambda>prepared.
           map_failure map_repository_error (commit (rc_expected_revision c) prepared (rc_request_id c) ?sig w2))"
  have failed: "answered c ?sig (Err e, v)" "answered c ?sig (Panic, v)" if "good v" for e v using that by (simp_all add: answered_def)
  have fresh: "answered c ?sig (?commit p v)" if v: "good v" and p: "cj_encounter_id p = rc_encounter_id c" for p v
  proof (cases "prepare_action rr sf p (rc_action c) (rc_rng_seed c)")
    case (Ok q)
    obtain x v' where x: "commit (rc_expected_revision c) q (rc_request_id c) ?sig v = (x, v')" by fastforce
    have "logged v' (rc_encounter_id c) (rc_request_id c) = Some (?sig, rr_projection a)" if "x = Ok a" for a
      using commit_logged [OF v x [unfolded that]] fight [OF Ok] p by simp
    with commit_good [OF v x] x Ok show ?thesis by (cases x) (auto simp: map_failure_def answered_def)
  qed (simp_all add: failed v)
  have read: "answered c ?sig (and_then (map_failure (\<lambda>_. Persistence) (get (rc_encounter_id c) w1)) (\<lambda>current w2.
     case current of
       None \<Rightarrow> replay_or find_action c ?sig (\<lambda>w3. (Err EncounterNotFound, w3)) w2
     | Some p \<Rightarrow>
         if cj_revision p \<noteq> rc_expected_revision c then
           replay_or find_action c ?sig (\<lambda>w3. (Err (StaleRevision (rc_expected_revision c) (cj_revision p)), w3)) w2
         else ?commit p w2))" if w1: "good w1" for w1
  proof -
    obtain x w2 where g: "get (rc_encounter_id c) w1 = (x, w2)" by fastforce
    note w2 = get_good [OF w1 g]
    show ?thesis
    proof (cases x)
      case (Ok found)
      with w2 g get_fight [OF w1] fresh [OF w2] failed show ?thesis
        by (cases found) (auto simp: map_failure_def intro!: replay_answered)
    qed (use w2 g failed in \<open>auto simp: map_failure_def\<close>)
  qed
  show ?thesis
    unfolding execute_combat_def Let_def using assms(1)
    by (auto simp: failed reject_if_def intro!: replay_answered read)
qed

lemma retry_answered:
  assumes "good w" "logged w (rc_encounter_id c) (rc_request_id c) = Some (to_json (request_of c), p)"
    and run: "execute_combat find_action get commit to_json rr sf c w = (Ok a, w')"
  shows "a = \<lparr>rr_projection = p, rr_duplicate = True\<rparr>"
proof -
  obtain x w1 where f: "find_action (rc_encounter_id c) (rc_request_id c) (to_json (request_of c)) w = (x, w1)" by fastforce
  with run obtain y where y: "x = Ok y" by (cases x) (auto simp: execute_combat_def replay_or_def map_failure_def run_Ok)
  with find_logged [OF assms(1,2)] f have "y = Some p" by blast
  with run f y show ?thesis by (auto simp: execute_combat_def replay_or_def map_failure_def run_Ok)
qed

end

end
