(* ===== verification/Combat_Session.thy ===== *)
theory Combat_Session
  imports Ledger_Runs
begin

text \<open>
  One player's request against the store while other clients use it: before each call of the use case, the
  next batch of calls of the others runs. The store is a log of actions in the sense of \<open>action_log\<close>.
\<close>

type_synonym world = "tx \<times> store_call list list"

definition between :: "'g store_env \<Rightarrow> (tx \<Rightarrow> 'a \<times> tx) \<Rightarrow> world \<Rightarrow> 'a \<times> world" where
  "between env f u =
     (let w1 = snd (perform_all env (case snd u of [] \<Rightarrow> [] | cs # _ \<Rightarrow> cs) (fst u));
          (r, w2) = f w1
      in (r, (w2, tl (snd u))))"

definition submit ::
  "'g store_env \<Rightarrow> (combat_request \<Rightarrow> string) \<Rightarrow> (u64 \<Rightarrow> 'g) \<Rightarrow> resolve_combat_command \<Rightarrow>
   world \<Rightarrow> (resolve_combat_error, resolve_combat_result) res \<times> world" where
  "submit env to_json sf c =
     execute_combat (\<lambda>i r s. between env (find_combat_action i r s)) (\<lambda>i. between env (get_combat env i))
       (\<lambda>n p r s. between env (commit_combat_action env n p r s)) to_json (sv_sampler env) sf c"

definition world_log :: "world \<Rightarrow> uuid \<Rightarrow> string \<Rightarrow> (string \<times> combat_projection) option" where
  "world_log u i r = lg_log (ledger_of (fst (fst u))) (i, r)"

definition world_ok :: "world \<Rightarrow> bool" where
  "world_ok u \<longleftrightarrow> store_ok (fst (fst u))"

lemma between_cases:
  assumes "world_ok u" "between env f u = (r, u')"
  obtains w1 where "f w1 = (r, fst u')" "store_ok (fst w1)" "ledger_grows (ledger_of (fst (fst u))) (ledger_of (fst w1))"
proof -
  obtain rs w1 where w1: "perform_all env (case snd u of [] \<Rightarrow> [] | cs # _ \<Rightarrow> cs) (fst u) = (rs, w1)" by (meson surj_pair)
  from perform_all_refines [OF _ w1] assms(1) run_grows
  have "store_ok (fst w1)" "ledger_grows (ledger_of (fst (fst u))) (ledger_of (fst w1))" by (auto simp: world_ok_def)
  moreover have "f w1 = (r, fst u')" using assms(2) w1 by (auto simp: between_def split: prod.splits)
  ultimately show thesis using that by blast
qed

lemma get_fight_id:
  assumes "store_ok (fst w)" "get_combat env i w = (Ok (Some p), w')"
  shows "cj_encounter_id p = i"
proof -
  from get_refines(2) [OF assms(2) refl] obtain n q actors where "lg_fights (ledger_of (fst w)) i = Some (n, True, Some q)"
    "p = on_snapshot (\<lambda>sn. sn\<lparr>sn_combatants := actors\<rparr>) q"
    by (cases rule: ledger_step.cases) auto
  with assms(1) show ?thesis by (auto simp: ledger_of_def store_ok_def row_ok_def on_snapshot_def)
qed

interpretation served: action_log "\<lambda>i r s. between env (find_combat_action i r s)" "\<lambda>i. between env (get_combat env i)"
  "\<lambda>n p r s. between env (commit_combat_action env n p r s)" world_log world_ok
proof
  fix w w' :: world and i r s x p y n a x2 x3
  assume good: "world_ok w"
  show "world_ok w'" if f: "between env (find_combat_action i r s) w = (x, w')"
  proof -
    obtain w1 where w1: "find_combat_action i r s w1 = (x, fst w')" "store_ok (fst w1)" by (rule between_cases [OF good f]) (blast intro: that)
    with same_fights_ledger(2) [OF find_refines(1) [OF w1(1)]] show ?thesis by (simp add: world_ok_def)
  qed
  show "world_log w' i r = Some (s, p)" if f: "between env (find_combat_action i r s) w = (Ok (Some p), w')"
  proof -
    obtain w1 where w1: "find_combat_action i r s w1 = (Ok (Some p), fst w')" by (rule between_cases [OF good f]) (blast intro: that)
    from find_refines(2) [OF w1 refl] have "lg_log (ledger_of (fst w1)) (i, r) = Some (s, p)"
      by (cases rule: ledger_step.cases) auto
    with same_fights_ledger(1) [OF find_refines(1) [OF w1]] show ?thesis by (simp add: world_log_def)
  qed
  show "y = Some p" if log: "world_log w i r = Some (s, p)" and f: "between env (find_combat_action i r s) w = (Ok y, w')"
  proof -
    obtain w1 where w1: "find_combat_action i r s w1 = (Ok y, fst w')"
      and grows: "ledger_grows (ledger_of (fst (fst w))) (ledger_of (fst w1))" by (rule between_cases [OF good f]) (blast intro: that)
    from logged_later [OF grows] log have "lg_log (ledger_of (fst w1)) (i, r) = Some (s, p)" by (simp add: world_log_def)
    moreover from find_refines(2) [OF w1 refl] have "map_option snd (lg_log (ledger_of (fst w1)) (i, r)) = y"
      by (cases rule: ledger_step.cases) auto
    ultimately show ?thesis by simp
  qed
  show "world_ok w'" if f: "between env (get_combat env i) w = (x2, w')"
  proof -
    obtain w1 where w1: "get_combat env i w1 = (x2, fst w')" "store_ok (fst w1)" by (rule between_cases [OF good f]) (blast intro: that)
    with same_fights_ledger(2) [OF get_refines(1) [OF w1(1)]] show ?thesis by (simp add: world_ok_def)
  qed
  show "cj_encounter_id p = i" if f: "between env (get_combat env i) w = (Ok (Some p), w')"
    by (rule between_cases [OF good f]) (rule get_fight_id)
  show "world_ok w'" if f: "between env (commit_combat_action env n p r s) w = (x3, w')"
  proof -
    obtain w1 where w1: "commit_combat_action env n p r s w1 = (x3, fst w')" "store_ok (fst w1)" by (rule between_cases [OF good f]) (blast intro: that)
    with commit_refines(1) [OF w1(2,1)] show ?thesis by (simp add: world_ok_def)
  qed
  show "world_log w' (cj_encounter_id p) r = Some (s, rr_projection a)" if f: "between env (commit_combat_action env n p r s) w = (Ok a, w')"
  proof -
    obtain w1 where w1: "commit_combat_action env n p r s w1 = (Ok a, fst w')" "store_ok (fst w1)" by (rule between_cases [OF good f]) (blast intro: that)
    from commit_refines(2) [OF w1(2,1)] have "ledger_step (ledger_of (fst w1)) (CallCommit n p r s)
       (Committed (rr_projection a) (rr_duplicate a)) (ledger_of (fst (fst w')))" by simp
    from committed_cases(1) [OF this] show ?thesis by (simp add: world_log_def)
  qed
qed

lemma concluded_id:
  "cj_encounter_id (finish_if_resolved p) = cj_encounter_id p" "cj_encounter_id (snd (finalize_defense p b)) = cj_encounter_id p"
  by (simp add: finish_if_resolved_def on_snapshot_def Let_def)
    (auto simp: finalize_defense_def on_snapshot_def split: option.split)

lemma replaced_id: "replace_resolved_state p t ord ev = Ok q \<Longrightarrow> cj_encounter_id q = cj_encounter_id p"
  by (auto simp: replace_resolved_state_def bind_res_Ok Let_def)

lemma close_engine_id:
  assumes "close_engine p r evs b = Ok q"
  shows "cj_encounter_id q = cj_encounter_id p"
proof -
  from assms obtain q1 where "replace_resolved_state p (rs_combatants r) (rs_order r) no_events
      = (Ok q1 :: (resolve_combat_error, combat_projection) res)"
    "q = snd (finalize_defense (finish_if_resolved (q1\<lparr>cj_events := evs\<rparr>)) b)" by (auto simp: close_engine_def bind_res_Ok)
  then show ?thesis by (simp add: concluded_id replaced_id)
qed

lemma prepare_action_id:
  fixes rr :: "'g sampler"
  assumes "prepare_action rr sf p c seed = Ok q"
  shows "cj_encounter_id q = cj_encounter_id p"
proof -
  from assms have "\<exists>(r :: 'g resolver) evs b. close_engine p r evs b = Ok q"
    by (auto simp: prepare_action_def bind_res_Ok Let_def case_prod_unfold)
  then show ?thesis using close_engine_id by blast
qed

end
