(* ===== verification/Store_Properties.thy ===== *)
theory Store_Properties
  imports Combat_Session Hero_Properties
begin

text \<open>
  What the combat store promises: it implements the ledger, an action is recorded once, and a request that is
  sent again is answered from the record.
\<close>

section \<open>A store with one fight\<close>

definition demo_store_env :: "nat store_env" where
  "demo_store_env = \<lparr>sv_sheets = demo_env, sv_sampler = demo_rr, sv_fresh = (\<lambda>i. \<lparr>rng_inner = i, rng_seed = i\<rparr>),
     sv_parse = (\<lambda>_. None), sv_request = (\<lambda>_. JNull), sv_prepared = (\<lambda>_ _ _ _ _. Err NotFound)\<rparr>"

definition demo_fight :: combat_projection where
  "demo_fight = (case bind_party demo_env demo_rr (\<lambda>x. x) (\<lambda>i. i + 50) [(5, demo_sheet)] demo_ambush 9 of
     Ok q \<Rightarrow> q | _ \<Rightarrow> demo_ambush)"

definition demo_store :: store where
  "demo_store = \<lparr>st_encounters = [(7, \<lparr>er_session = 2, er_round = 1, er_active_turn = None, er_ended = \<not> sn_active (cj_snapshot demo_fight),
        er_revision = 0, er_projection = Some demo_fight\<rparr>)], st_tokens = [], st_receipts = [],
     st_sessions = [(2, \<lparr>sr_campaign = 1, sr_created_at = 10, sr_revision = 3\<rparr>)], st_clocks = [(2, 600)],
     st_roots = [(1, (5, demo_sheet))], st_party = [], st_adventures = [], st_events = [], st_manifests = []\<rparr>"

definition demo_next :: combat_projection where
  "demo_next = demo_fight\<lparr>cj_revision := 1\<rparr>"

lemma demo_store_ok: "store_ok demo_store"
proof -
  have "cj_revision demo_fight = 0 \<and> cj_encounter_id demo_fight = 7" by code_simp
  then show ?thesis by (auto simp: store_ok_def row_ok_def demo_store_def table_get_def)
qed

definition demo_calls :: "store_call list" where
  "demo_calls = [CallCommit 0 demo_next ''r1'' ''s'', CallCommit 0 demo_next ''r2'' ''s'', CallCommit 0 demo_next ''r1'' ''s'']"

text \<open>The first call is recorded, the second comes too late, the third is the first again.\<close>

definition answered_with :: "bool \<Rightarrow> store_reply \<Rightarrow> bool" where
  "answered_with dup r \<longleftrightarrow> (case r of Committed _ b \<Rightarrow> b = dup | _ \<Rightarrow> False)"

definition too_late :: "u64 \<Rightarrow> u64 \<Rightarrow> store_reply \<Rightarrow> bool" where
  "too_late w a r \<longleftrightarrow> (case r of Refused e \<Rightarrow> (case e of RevisionConflict w' a' \<Rightarrow> w' = w \<and> a' = a | _ \<Rightarrow> False) | _ \<Rightarrow> False)"

definition first_late_again :: "store_reply list \<Rightarrow> bool" where
  "first_late_again rs \<longleftrightarrow> length rs = 3 \<and> answered_with False (rs ! 0) \<and> too_late 0 1 (rs ! 1) \<and> answered_with True (rs ! 2)"

lemma answered_withD: "answered_with dup r \<Longrightarrow> \<exists>q. r = Committed q dup"
  by (cases r) (simp_all add: answered_with_def)

lemma too_lateD: "too_late w a r \<Longrightarrow> r = Refused (RevisionConflict w a)"
  by (auto simp: too_late_def split: store_reply.splits repository_error.splits)

lemma three_replies:
  assumes "first_late_again rs"
  shows "\<exists>q q'. rs = [Committed q False, Refused (RevisionConflict 0 1), Committed q' True]"
proof -
  obtain r0 r1 r2 where "rs = [r0, r1, r2]"
    using assms by (auto simp: first_late_again_def numeral_3_eq_3 length_Suc_conv)
  with assms answered_withD too_lateD show ?thesis by (auto simp: first_late_again_def)
qed

lemma demo_calls_run: "first_late_again (fst (perform_all demo_store_env demo_calls (demo_store, [])))"
  by code_simp

lemma demo_commit:
  "case perform demo_store_env (CallCommit 0 demo_next ''r1'' ''s'') (demo_store, []) of (Committed _ False, _) \<Rightarrow> True | _ \<Rightarrow> False"
  by code_simp

section \<open>Properties\<close>

text \<open>C37: the tables implement the ledger. Every operation of the store, whatever statements fail on the way,
  takes the ledger its tables show to the one they show afterwards by a step of the ledger: a refused call leaves
  no trace, an action is answered from its receipt or recorded together with the next revision of its fight, and
  the tables stay coherent.\<close>

theorem store_implements_the_ledger:
  assumes "store_ok d" and "perform env call (d, faults) = (reply, (d', faults'))"
  shows "store_ok d' \<and> ledger_step (ledger_of d) call reply (ledger_of d')"
  using perform_refines [of "(d, faults)" env call reply "(d', faults')"] assms by simp

theorem store_implements_the_ledger_witness:
  "\<exists>q d'. ledger_step (ledger_of demo_store) (CallCommit 0 demo_next ''r1'' ''s'') (Committed q False) (ledger_of d') \<and> store_ok d'"
proof -
  obtain q d' faults' where "perform demo_store_env (CallCommit 0 demo_next ''r1'' ''s'') (demo_store, []) = (Committed q False, (d', faults'))"
    using demo_commit by (auto split: prod.splits store_reply.splits bool.splits)
  from store_implements_the_ledger [OF demo_store_ok this] show ?thesis by blast
qed

text \<open>C38: an action happens once. In any run of the store, with any failures, two calls that carry the same
  request of a fight are answered with the same projection, the later one as a duplicate, and two actions that
  are both new find the fight at different revisions: no update is lost. Receipts stay.\<close>

theorem actions_happen_once:
  assumes ok: "store_ok d" and run: "perform_all env calls (d, faults) = (replies, (d', faults'))"
    and ij: "i < j" "j < length calls"
    and i: "calls ! i = CallCommit n p r s" "replies ! i = Committed q dup"
    and j: "calls ! j = CallCommit n' p' r' s'" "replies ! j = Committed q' dup'" and same: "cj_encounter_id p' = cj_encounter_id p"
  shows "(r' = r \<longrightarrow> dup' \<and> q' = q \<and> s' = s) \<and> (\<not> dup \<and> \<not> dup' \<longrightarrow> n < n')
     \<and> table_get (st_receipts d') (cj_encounter_id p, r) = Some (s, q)"
proof -
  from perform_all_refines [of "(d, faults)" env calls replies "(d', faults')"] ok run
  have len: "length replies = length calls" and steps: "ledger_run (ledger_of d) (zip calls replies) (ledger_of d')" by simp_all
  have at_i: "zip calls replies ! i = (CallCommit n p r s, Committed q dup)" and at_j: "zip calls replies ! j = (CallCommit n' p' r' s', Committed q' dup')"
    using ij i j len by simp_all
  have bounds: "j < length (zip calls replies)" "i < length (zip calls replies)" using ij len by simp_all
  note once = recorded_once [OF steps ij(1) bounds(1) at_i at_j same]
  obtain m m' where "ledger_step m (CallCommit n p r s) (Committed q dup) m'" "ledger_run m' (drop (Suc i) (zip calls replies)) (ledger_of d')"
    by (rule ledger_run_at [OF steps bounds(2) at_i])
  from logged_later [OF run_grows [OF this(2)] committed_cases(1) [OF this(1)]]
  have "table_get (st_receipts d') (cj_encounter_id p, r) = Some (s, q)" by (simp add: ledger_of_def)
  with once show ?thesis by blast
qed

theorem actions_happen_once_witness:
  "\<exists>q d' faults'. perform_all demo_store_env demo_calls (demo_store, [])
       = ([Committed q False, Refused (RevisionConflict 0 1), Committed q True], (d', faults'))
     \<and> table_get (st_receipts d') (7, ''r1'') = Some (''s'', q)"
proof -
  obtain q q' where "fst (perform_all demo_store_env demo_calls (demo_store, []))
       = [Committed q False, Refused (RevisionConflict 0 1), Committed q' True]"
    using three_replies [OF demo_calls_run] by blast
  then obtain d' faults' where run: "perform_all demo_store_env demo_calls (demo_store, [])
       = ([Committed q False, Refused (RevisionConflict 0 1), Committed q' True], (d', faults'))"
    by (metis prod.collapse)
  have id: "cj_encounter_id demo_next = 7" by code_simp
  from actions_happen_once [OF demo_store_ok run, of 0 2 0 demo_next "''r1''" "''s''" q False 0 demo_next "''r1''" "''s''" q' True] run
  show ?thesis by (auto simp: demo_calls_def id)
qed


text \<open>A player attacks; the answer gets lost, somebody else asks for the fight, and the player sends again.\<close>

definition demo_command :: "u64 \<Rightarrow> resolve_combat_command" where
  "demo_command seed = \<lparr>rc_request_id = ''r1'', rc_encounter_id = 7, rc_expected_revision = 0, rc_rng_seed = seed,
     rc_action = CmdEndTurn (case sn_current_combatant (cj_snapshot demo_fight) of Some i \<Rightarrow> i | None \<Rightarrow> 0)\<rparr>"

definition demo_submit :: "u64 \<Rightarrow> world \<Rightarrow> (resolve_combat_error, resolve_combat_result) res \<times> world" where
  "demo_submit seed = submit demo_store_env (\<lambda>_. ''s'') (\<lambda>x. x) (demo_command seed)"

definition answered_new :: "(resolve_combat_error, resolve_combat_result) res \<times> world \<Rightarrow> bool" where
  "answered_new m \<longleftrightarrow> (case fst m of Ok a \<Rightarrow> \<not> rr_duplicate a | _ \<Rightarrow> False)"

lemma demo_submit_runs: "answered_new (demo_submit 4 ((demo_store, []), []))"
  by code_simp

lemma demo_quiet: "snd (snd (perform_all demo_store_env [CallGet 7] (fst (snd (demo_submit 4 ((demo_store, []), [])))))) = []"
  by code_simp


end
