(* ===== verification/Settings.thy ===== *)
theory Settings
  imports Prelude
begin

text \<open>
  The settings transaction (\<^verbatim>\<open>crates/app-application/src/settings/update.rs\<close>) over the secret stores of
  \<^verbatim>\<open>crates/adapter-secrets\<close>. The port \<open>SecretsStore\<close> is a record of functions; the locale
  \<open>secret_store\<close> states its contract, and both implementations are shown to have it: the one in memory
  and the one over a Stronghold vault, where a write that reports a failure may have been made. The vault
  is a crate: its calls are an argument, and \<open>vault_ok\<close> says what is relied on of them. A runtime that
  refuses to run the blocking part of a call is left out.
\<close>

section \<open>The port\<close>

datatype secrets_error = Secrets_Failed string string

record 's secrets =
  secrets_get :: "string \<Rightarrow> 's \<Rightarrow> (secrets_error, string option) res \<times> 's"
  secrets_set :: "string \<Rightarrow> string \<Rightarrow> 's \<Rightarrow> (secrets_error, unit) res \<times> 's"
  secrets_delete :: "string \<Rightarrow> 's \<Rightarrow> (secrets_error, unit) res \<times> 's"

text \<open>\<open>match value { Some => set, None => delete }\<close>\<close>

definition put_secret :: "'s secrets \<Rightarrow> string \<Rightarrow> string option \<Rightarrow> 's \<Rightarrow> (secrets_error, unit) res \<times> 's" where
  "put_secret st key value s = (case value of Some x \<Rightarrow> secrets_set st key x s | None \<Rightarrow> secrets_delete st key s)"

section \<open>The store in memory\<close>

definition memory_store :: "(string \<Rightarrow> string option) secrets" where
  "memory_store =
     \<lparr>secrets_get = (\<lambda>key m. (Ok (m key), m)),
      secrets_set = (\<lambda>key value m. (Ok (), m(key \<mapsto> value))),
      secrets_delete = (\<lambda>key m. (Ok (), m(key := None)))\<rparr>"

section \<open>The store in a vault\<close>

text \<open>\<open>String::from_utf8\<close> accepts the well-formed sequences of the Unicode standard.\<close>

definition continuation :: "char \<Rightarrow> bool" where
  "continuation c \<longleftrightarrow> 128 \<le> byte c \<and> byte c \<le> 191"

definition second_of_three :: "nat \<Rightarrow> char \<Rightarrow> bool" where
  "second_of_three a c \<longleftrightarrow> continuation c \<and> (a = 224 \<longrightarrow> 160 \<le> byte c) \<and> (a = 237 \<longrightarrow> byte c \<le> 159)"

definition second_of_four :: "nat \<Rightarrow> char \<Rightarrow> bool" where
  "second_of_four a c \<longleftrightarrow> continuation c \<and> (a = 240 \<longrightarrow> 144 \<le> byte c) \<and> (a = 244 \<longrightarrow> byte c \<le> 143)"

fun utf8 :: "string \<Rightarrow> bool" where
  "utf8 [] = True"
| "utf8 (a # s) =
     (if byte a < 128 then utf8 s
      else case s of
        [] \<Rightarrow> False
      | b # t \<Rightarrow>
          if 194 \<le> byte a \<and> byte a \<le> 223 then continuation b \<and> utf8 t
          else case t of
            [] \<Rightarrow> False
          | c # u \<Rightarrow>
              if 224 \<le> byte a \<and> byte a \<le> 239 then second_of_three (byte a) b \<and> continuation c \<and> utf8 u
              else case u of
                [] \<Rightarrow> False
              | d # v \<Rightarrow> 240 \<le> byte a \<and> byte a \<le> 244 \<and> second_of_four (byte a) b \<and> continuation c
                  \<and> continuation d \<and> utf8 v)"

record 'v vault =
  vault_client :: "'v \<Rightarrow> bool \<times> 'v"
  vault_read :: "string \<Rightarrow> 'v \<Rightarrow> (unit, string option) res \<times> 'v"
  vault_insert :: "string \<Rightarrow> string \<Rightarrow> 'v \<Rightarrow> (unit, unit) res \<times> 'v"
  vault_remove :: "string \<Rightarrow> 'v \<Rightarrow> (unit, unit) res \<times> 'v"
  vault_key_provider :: "'v \<Rightarrow> bool \<times> 'v"
  vault_write :: "'v \<Rightarrow> (unit, unit) res \<times> 'v"

definition check_call :: "secrets_error \<Rightarrow> bool \<times> 'v \<Rightarrow> (secrets_error, unit) res \<times> 'v" where
  "check_call e m = (if fst m then Ok () else Err e, snd m)"

definition vault_commit :: "'v vault \<Rightarrow> 'v \<Rightarrow> (secrets_error, unit) res \<times> 'v" where
  "vault_commit lib v =
     and_then (check_call (Secrets_Failed ''open'' ''key_provider'') (vault_key_provider lib v)) (\<lambda>_ v1.
     err_as (Secrets_Failed ''commit'' ''snapshot'') (vault_write lib v1))"

definition vault_get :: "'v vault \<Rightarrow> string \<Rightarrow> 'v \<Rightarrow> (secrets_error, string option) res \<times> 'v" where
  "vault_get lib key v =
     and_then (check_call (Secrets_Failed ''get'' ''client'') (vault_client lib v)) (\<lambda>_ v1.
     and_then (err_as (Secrets_Failed ''get'' ''store'') (vault_read lib key v1)) (\<lambda>bytes v2.
     case bytes of
       Some b \<Rightarrow> if utf8 b then (Ok (Some b), v2) else (Err (Secrets_Failed ''get'' ''decode''), v2)
     | None \<Rightarrow> (Ok None, v2)))"

definition vault_set :: "'v vault \<Rightarrow> string \<Rightarrow> string \<Rightarrow> 'v \<Rightarrow> (secrets_error, unit) res \<times> 'v" where
  "vault_set lib key value v =
     and_then (check_call (Secrets_Failed ''set'' ''client'') (vault_client lib v)) (\<lambda>_ v1.
     and_then (err_as (Secrets_Failed ''set'' ''store'') (vault_insert lib key value v1)) (\<lambda>_ v2.
     vault_commit lib v2))"

definition vault_delete :: "'v vault \<Rightarrow> string \<Rightarrow> 'v \<Rightarrow> (secrets_error, unit) res \<times> 'v" where
  "vault_delete lib key v =
     and_then (check_call (Secrets_Failed ''delete'' ''client'') (vault_client lib v)) (\<lambda>_ v1.
     and_then (err_as (Secrets_Failed ''delete'' ''store'') (vault_remove lib key v1)) (\<lambda>_ v2.
     vault_commit lib v2))"

definition vault_store :: "'v vault \<Rightarrow> 'v secrets" where
  "vault_store lib =
     \<lparr>secrets_get = vault_get lib, secrets_set = vault_set lib, secrets_delete = vault_delete lib\<rparr>"

text \<open>
  What the crate documents: the entries of the session change by an insertion or a removal alone, and a
  snapshot that is written holds them. Nothing is said of a snapshot that could not be written.
\<close>

definition quiet :: "('v \<Rightarrow> 'x) \<Rightarrow> ('v \<Rightarrow> 'y) \<Rightarrow> 'v \<Rightarrow> 'v \<Rightarrow> bool" where
  "quiet held kept v w \<longleftrightarrow> held w = held v \<and> kept w = kept v"

definition vault_ok :: "'v vault \<Rightarrow> ('v \<Rightarrow> string \<Rightarrow> string option) \<Rightarrow> ('v \<Rightarrow> string \<Rightarrow> string option) \<Rightarrow> bool" where
  "vault_ok lib held kept \<longleftrightarrow>
     (\<forall>v. quiet held kept v (snd (vault_client lib v))) \<and>
     (\<forall>v. quiet held kept v (snd (vault_key_provider lib v))) \<and>
     (\<forall>k v. fst (vault_read lib k v) \<noteq> Panic \<and> quiet held kept v (snd (vault_read lib k v)) \<and>
        (\<forall>x. fst (vault_read lib k v) = Ok x \<longrightarrow> x = held v k)) \<and>
     (\<forall>k x v. fst (vault_insert lib k x v) \<noteq> Panic \<and>
        (held (snd (vault_insert lib k x v)) = (held v)(k \<mapsto> x) \<or>
         fst (vault_insert lib k x v) \<noteq> Ok () \<and> held (snd (vault_insert lib k x v)) = held v)) \<and>
     (\<forall>k v. fst (vault_remove lib k v) \<noteq> Panic \<and>
        (held (snd (vault_remove lib k v)) = (held v)(k := None) \<or>
         fst (vault_remove lib k v) \<noteq> Ok () \<and> held (snd (vault_remove lib k v)) = held v)) \<and>
     (\<forall>v. fst (vault_write lib v) \<noteq> Panic \<and> held (snd (vault_write lib v)) = held v \<and>
        (fst (vault_write lib v) = Ok () \<longrightarrow> kept (snd (vault_write lib v)) = held v))"

section \<open>The contract of the port\<close>

text \<open>
  \<open>view\<close> is what a reader finds, \<open>lasting\<close> says that a restart would find it too. A write that fails leaves
  its key as it was or as it was asked to be.
\<close>

locale secret_store =
  fixes st :: "'s secrets" and view :: "'s \<Rightarrow> string \<Rightarrow> string option" and lasting :: "'s \<Rightarrow> bool"
  assumes get_law: "secrets_get st k s = (g, s') \<Longrightarrow>
      view s' = view s \<and> (lasting s \<longrightarrow> lasting s') \<and> g \<noteq> Panic \<and> (\<forall>x. g = Ok x \<longrightarrow> x = view s k)"
    and put_law: "put_secret st k x s = (r, s') \<Longrightarrow>
      r \<noteq> Panic \<and> (r = Ok () \<longrightarrow> lasting s') \<and> (view s' = (view s)(k := x) \<or> r \<noteq> Ok () \<and> view s' = view s)"

interpretation memory: secret_store memory_store "\<lambda>m. m" "\<lambda>_. True"
  by unfold_locales (auto simp: memory_store_def put_secret_def split: option.splits)


lemma check_call_cases:
  "check_call e m = (r, v) \<longleftrightarrow> v = snd m \<and> r = (if fst m then Ok () else Err e)"
  by (auto simp: check_call_def)

lemma err_as_cases: "err_as f m = (r, v) \<longleftrightarrow> v = snd m \<and> r = map_err (\<lambda>_. f) (fst m)"
  by (auto simp: err_as_def)

lemma vault_commit_law:
  assumes "vault_ok lib held kept" "vault_commit lib v = (r, v')"
  shows "r \<noteq> Panic" "held v' = held v" "r = Ok () \<Longrightarrow> kept v' = held v'"
proof -
  obtain b v1 where b: "vault_key_provider lib v = (b, v1)" by (meson surj_pair)
  obtain q v2 where q: "vault_write lib v1 = (q, v2)" by (meson surj_pair)
  from assms(1) have "quiet held kept v (snd (vault_key_provider lib v))" by (simp add: vault_ok_def)
  with b have v1: "held v1 = held v" by (simp add: quiet_def)
  from assms(1) have "fst (vault_write lib v1) \<noteq> Panic \<and> held (snd (vault_write lib v1)) = held v1 \<and>
        (fst (vault_write lib v1) = Ok () \<longrightarrow> kept (snd (vault_write lib v1)) = held v1)" by (simp add: vault_ok_def)
  with q have w: "q \<noteq> Panic" "held v2 = held v1" "q = Ok () \<longrightarrow> kept v2 = held v1" by simp_all
  have "r \<noteq> Panic \<and> held v' = held v \<and> (r = Ok () \<longrightarrow> kept v' = held v')"
    using assms(2) b q v1 w by (cases b; cases q) (auto simp: vault_commit_def check_call_def)
  then show "r \<noteq> Panic" "held v' = held v" "r = Ok () \<Longrightarrow> kept v' = held v'" by blast+
qed

text \<open>A write through the vault: one call that changes an entry, between the client and the snapshot.\<close>

lemma vault_put_law:
  assumes lib: "vault_ok lib held kept"
    and run: "and_then (check_call e1 (vault_client lib v)) (\<lambda>_ v1.
       and_then (err_as e2 (change v1)) (\<lambda>_. vault_commit lib)) = (r, v')"
    and law: "\<And>v. fst (change v) \<noteq> Panic \<and> (held (snd (change v)) = (held v)(k := x) \<or>
       fst (change v) \<noteq> Ok () \<and> held (snd (change v)) = held v)"
  shows "r \<noteq> Panic \<and> (r = Ok () \<longrightarrow> kept v' = held v') \<and> (held v' = (held v)(k := x) \<or> r \<noteq> Ok () \<and> held v' = held v)"
proof -
  obtain b v1 where b: "vault_client lib v = (b, v1)" by (meson surj_pair)
  obtain q v2 where q: "change v1 = (q, v2)" by (meson surj_pair)
  obtain c v3 where c: "vault_commit lib v2 = (c, v3)" by (meson surj_pair)
  from lib have "quiet held kept v (snd (vault_client lib v))" by (simp add: vault_ok_def)
  with b have v1: "held v1 = held v" by (simp add: quiet_def)
  from law [of v1] q v1 have l: "q \<noteq> Panic" "held v2 = (held v)(k := x) \<or> q \<noteq> Ok () \<and> held v2 = held v" by auto
  note committed = vault_commit_law [OF lib c]
  show ?thesis
  proof (cases b)
    case False
    with run b v1 show ?thesis by (auto simp: check_call_def)
  next
    case True
    show ?thesis
    proof (cases q)
      case (Ok u)
      with run b True q c have "r = c" "v' = v3" by (auto simp: check_call_def)
      with committed l Ok show ?thesis by auto
    next
      case (Err e)
      with run b True q have "r = Err e2" "v' = v2" by (auto simp: check_call_def)
      with l show ?thesis by auto
    next
      case Panic
      with l show ?thesis by simp
    qed
  qed
qed

lemma vault_is_secret_store:
  assumes "vault_ok lib held kept"
  shows "secret_store (vault_store lib) held (\<lambda>v. kept v = held v)"
proof
  fix k s g s'
  assume run: "secrets_get (vault_store lib) k s = (g, s')"
  obtain b v1 where b: "vault_client lib s = (b, v1)" by (meson surj_pair)
  obtain q v2 where q: "vault_read lib k v1 = (q, v2)" by (meson surj_pair)
  have v1: "held v1 = held s" "kept v1 = kept s" using assms b by (auto simp: vault_ok_def quiet_def dest: spec [of _ s])
  have "fst (vault_read lib k v1) \<noteq> Panic \<and> quiet held kept v1 (snd (vault_read lib k v1)) \<and>
        (\<forall>x. fst (vault_read lib k v1) = Ok x \<longrightarrow> x = held v1 k)" using assms by (simp add: vault_ok_def)
  with q v1 have w: "q \<noteq> Panic" "held v2 = held s" "kept v2 = kept s" "\<And>x. q = Ok x \<Longrightarrow> x = held s k"
    by (auto simp: quiet_def)
  show "held s' = held s \<and> (kept s = held s \<longrightarrow> kept s' = held s') \<and> g \<noteq> Panic \<and> (\<forall>x. g = Ok x \<longrightarrow> x = held s k)"
  proof (cases b)
    case False
    with run b v1 show ?thesis by (auto simp: vault_store_def vault_get_def check_call_def)
  next
    case True
    with run b q w v1 show ?thesis
      by (cases q) (auto simp: vault_store_def vault_get_def check_call_def split: option.splits if_splits)
  qed
next
  fix k x s r s'
  assume run: "put_secret (vault_store lib) k x s = (r, s')"
  show "r \<noteq> Panic \<and> (r = Ok () \<longrightarrow> kept s' = held s') \<and> (held s' = (held s)(k := x) \<or> r \<noteq> Ok () \<and> held s' = held s)"
  proof (cases x)
    case None
    with run have "vault_delete lib k s = (r, s')" by (simp add: put_secret_def vault_store_def)
    then have m: "and_then (check_call (Secrets_Failed ''delete'' ''client'') (vault_client lib s)) (\<lambda>_ v1.
       and_then (err_as (Secrets_Failed ''delete'' ''store'') (vault_remove lib k v1)) (\<lambda>_. vault_commit lib)) = (r, s')"
      by (simp add: vault_delete_def)
    show ?thesis unfolding None by (rule vault_put_law [OF assms m]) (use assms in \<open>auto simp: vault_ok_def\<close>)
  next
    case (Some y)
    with run have "vault_set lib k y s = (r, s')" by (simp add: put_secret_def vault_store_def)
    then have m: "and_then (check_call (Secrets_Failed ''set'' ''client'') (vault_client lib s)) (\<lambda>_ v1.
       and_then (err_as (Secrets_Failed ''set'' ''store'') (vault_insert lib k y v1)) (\<lambda>_. vault_commit lib)) = (r, s')"
      by (simp add: vault_set_def)
    show ?thesis unfolding Some by (rule vault_put_law [OF assms m]) (use assms in \<open>auto simp: vault_ok_def\<close>)
  qed
qed

section \<open>The transaction\<close>

datatype secret_mutation = Set_Secret string string | Delete_Secret string

record 't prepared_settings =
  ps_snapshot :: 't
  ps_secret_mutations :: "secret_mutation list"
  ps_license_restricted_no_compat :: bool

record update_settings_result =
  us_revision :: u64
  us_license_restricted_no_compat :: bool

datatype settings_update_error =
    Prepare_Failed string
  | Secret_Failed string bool
  | Commit_Failed string bool

fun mutation_key :: "secret_mutation \<Rightarrow> string" where
  "mutation_key (Set_Secret key value) = key"
| "mutation_key (Delete_Secret key) = key"

definition capture_originals ::
  "'s secrets \<Rightarrow> secret_mutation list \<Rightarrow> 's \<Rightarrow> (settings_update_error, (string \<times> string option) list) res \<times> 's" where
  "capture_originals st mutations s =
     for_state (\<lambda>m originals s. and_then (err_as (Secret_Failed ''capture'' False) (secrets_get st (mutation_key m) s))
        (\<lambda>value s1. (Ok (originals @ [(mutation_key m, value)]), s1))) mutations [] s"

definition apply_mutation :: "'s secrets \<Rightarrow> secret_mutation \<Rightarrow> 's \<Rightarrow> (secrets_error, unit) res \<times> 's" where
  "apply_mutation st m s =
     (case m of Set_Secret key value \<Rightarrow> secrets_set st key value s | Delete_Secret key \<Rightarrow> secrets_delete st key s)"

definition apply_mutations :: "'s secrets \<Rightarrow> secret_mutation list \<Rightarrow> 's \<Rightarrow> (string, unit) res \<times> 's" where
  "apply_mutations st mutations s = for_state (\<lambda>m _ s. err_as ''write'' (apply_mutation st m s)) mutations () s"

fun restore_from ::
  "'s secrets \<Rightarrow> (string \<times> string option) list \<Rightarrow> bool \<Rightarrow> 's \<Rightarrow> (unit, unit) res \<times> 's" where
  "restore_from st [] failed s = (if failed then Err () else Ok (), s)"
| "restore_from st ((key, value) # rest) failed s =
     (case put_secret st key value s of
        (Ok _, s1) \<Rightarrow> restore_from st rest failed s1
      | (Err _, s1) \<Rightarrow> restore_from st rest True s1
      | (Panic, s1) \<Rightarrow> (Panic, s1))"

definition restore_originals ::
  "'s secrets \<Rightarrow> (string \<times> string option) list \<Rightarrow> 's \<Rightarrow> (unit, unit) res \<times> 's" where
  "restore_originals st originals s = restore_from st (rev originals) False s"

text \<open>The rollback, and the error that tells whether it failed.\<close>

definition roll_back ::
  "'s secrets \<Rightarrow> (string \<times> string option) list \<Rightarrow> (bool \<Rightarrow> settings_update_error) \<Rightarrow> 's \<times> 'c \<Rightarrow>
   (settings_update_error, 'a) res \<times> 's \<times> 'c" where
  "roll_back st originals e w =
     (case restore_originals st originals (fst w) of
        (Ok _, s) \<Rightarrow> (Err (e False), (s, snd w))
      | (Err _, s) \<Rightarrow> (Err (e True), (s, snd w))
      | (Panic, s) \<Rightarrow> (Panic, (s, snd w)))"

definition on_secrets :: "('s \<Rightarrow> 'r \<times> 's) \<Rightarrow> 's \<times> 'c \<Rightarrow> 'r \<times> 's \<times> 'c" where
  "on_secrets f w = (case f (fst w) of (r, s) \<Rightarrow> (r, (s, snd w)))"

definition execute_update ::
  "('cfg \<Rightarrow> 's \<times> 'c \<Rightarrow> (string, 't prepared_settings) res) \<Rightarrow> 's secrets \<Rightarrow> ('t \<Rightarrow> 'c \<Rightarrow> (string, u64) res \<times> 'c) \<Rightarrow>
   'cfg \<Rightarrow> 's \<times> 'c \<Rightarrow> (settings_update_error, update_settings_result) res \<times> 's \<times> 'c" where
  "execute_update factory st commit config w =
     try_state (map_err Prepare_Failed (factory config w)) w (\<lambda>prepared.
     and_then (on_secrets (capture_originals st (ps_secret_mutations prepared)) w) (\<lambda>originals w1.
     case on_secrets (apply_mutations st (ps_secret_mutations prepared)) w1 of
       (Err code, w2) \<Rightarrow> roll_back st originals (Secret_Failed code) w2
     | (Panic, w2) \<Rightarrow> (Panic, w2)
     | (Ok _, w2) \<Rightarrow>
         (case commit (ps_snapshot prepared) (snd w2) of
            (Ok revision, c) \<Rightarrow>
              (Ok \<lparr>us_revision = revision,
                us_license_restricted_no_compat = ps_license_restricted_no_compat prepared\<rparr>, (fst w2, c))
          | (Err code, c) \<Rightarrow> roll_back st originals (Commit_Failed code) (fst w2, c)
          | (Panic, c) \<Rightarrow> (Panic, (fst w2, c)))))"

section \<open>The commit of the server\<close>

text \<open>\<open>AppState::commit_runtime_settings\<close>: the snapshot is replaced under a lock.\<close>

record ('r, 'a) prepared_runtime =
  pt_registry :: 'r
  pt_default_model :: string
  pt_agent_config :: 'a

record ('r, 'a) runtime_settings =
  rs_registry :: 'r
  rs_default_model :: string
  rs_agent_config :: 'a
  rs_revision :: u64

definition u64_saturating_add :: "u64 \<Rightarrow> u64 \<Rightarrow> u64" where
  "u64_saturating_add a b = min (2 ^ 64 - 1) (a + b)"

definition commit_runtime_settings ::
  "('r, 'a) prepared_runtime \<Rightarrow> ('r, 'a) runtime_settings \<Rightarrow> u64 \<times> ('r, 'a) runtime_settings" where
  "commit_runtime_settings prepared guard =
     (let revision = u64_saturating_add (rs_revision guard) 1
      in (revision, \<lparr>rs_registry = pt_registry prepared, rs_default_model = pt_default_model prepared,
            rs_agent_config = pt_agent_config prepared, rs_revision = revision\<rparr>))"

definition app_commit ::
  "('r, 'a) prepared_runtime \<Rightarrow> ('r, 'a) runtime_settings \<Rightarrow> (string, u64) res \<times> ('r, 'a) runtime_settings" where
  "app_commit prepared runtime = (case commit_runtime_settings prepared runtime of (revision, runtime1) \<Rightarrow> (Ok revision, runtime1))"


section \<open>All or nothing\<close>

fun mutate :: "secret_mutation \<Rightarrow> (string \<Rightarrow> string option) \<Rightarrow> string \<Rightarrow> string option" where
  "mutate (Set_Secret key value) m = m(key \<mapsto> value)"
| "mutate (Delete_Secret key) m = m(key := None)"

definition touched :: "secret_mutation list \<Rightarrow> string set" where
  "touched mutations = mutation_key ` set mutations"

lemma apply_mutation_put:
  "apply_mutation st m s = put_secret st (mutation_key m) (case m of Set_Secret k x \<Rightarrow> Some x | Delete_Secret k \<Rightarrow> None) s"
  by (cases m) (simp_all add: apply_mutation_def put_secret_def)

lemma mutate_put: "mutate m v = v(mutation_key m := (case m of Set_Secret k x \<Rightarrow> Some x | Delete_Secret k \<Rightarrow> None))"
  by (cases m) simp_all

context secret_store
begin

lemma captured:
  assumes "for_state (\<lambda>m originals s. and_then (err_as e (secrets_get st (mutation_key m) s))
        (\<lambda>value s1. (Ok (originals @ [(mutation_key m, value)]), s1))) ms acc s = (r, s')"
  shows "view s' = view s \<and> (lasting s \<longrightarrow> lasting s') \<and>
     (r = Err e \<or> r = Ok (acc @ map (\<lambda>k. (k, view s k)) (map mutation_key ms)))"
  using assms
proof (induction ms arbitrary: acc s)
  case (Cons m ms)
  obtain g s1 where g: "secrets_get st (mutation_key m) s = (g, s1)" by (meson surj_pair)
  note law = get_law [OF g]
  show ?case
  proof (cases g)
    case (Ok x)
    with Cons.prems g have "for_state (\<lambda>m originals s. and_then (err_as e (secrets_get st (mutation_key m) s))
        (\<lambda>value s1. (Ok (originals @ [(mutation_key m, value)]), s1))) ms (acc @ [(mutation_key m, x)]) s1 = (r, s')"
      by simp
    from Cons.IH [OF this] law Ok show ?thesis by auto
  next
    case (Err f)
    with Cons.prems g law show ?thesis by auto
  next
    case Panic
    with law show ?thesis by simp
  qed
qed simp

lemma applied:
  assumes "for_state (\<lambda>m _ s. err_as e (apply_mutation st m s)) ms () s = (r, s')"
  shows "r \<noteq> Panic \<and> (r = Ok () \<longrightarrow> view s' = fold mutate ms (view s) \<and> (ms \<noteq> [] \<or> lasting s \<longrightarrow> lasting s'))
     \<and> (\<forall>k. k \<notin> touched ms \<longrightarrow> view s' k = view s k) \<and> (\<forall>f. r = Err f \<longrightarrow> f = e \<and> ms \<noteq> [])"
  using assms
proof (induction ms arbitrary: s)
  case (Cons m ms)
  obtain q s1 where q: "apply_mutation st m s = (q, s1)" by (meson surj_pair)
  note law = put_law [OF q [unfolded apply_mutation_put]]
  show ?case
  proof (cases q)
    case (Ok u)
    with Cons.prems q have "for_state (\<lambda>m _ s. err_as e (apply_mutation st m s)) ms () s1 = (r, s')" by simp
    from Cons.IH [OF this] law Ok show ?thesis by (auto simp: mutate_put touched_def)
  next
    case (Err f)
    with Cons.prems q law show ?thesis by (auto simp: touched_def)
  next
    case Panic
    with law show ?thesis by simp
  qed
qed (auto simp: touched_def)

lemma restored:
  assumes "restore_from st (map (\<lambda>k. (k, original k)) ks) failed s = (r, s')"
  shows "r \<noteq> Panic \<and> (\<forall>k. k \<notin> set ks \<longrightarrow> view s' k = view s k) \<and>
     (r = Ok () \<longrightarrow> \<not> failed \<and> (\<forall>k\<in>set ks. view s' k = original k) \<and> (ks \<noteq> [] \<or> lasting s \<longrightarrow> lasting s'))"
  using assms
proof (induction ks arbitrary: s failed)
  case (Cons k ks)
  obtain q s1 where q: "put_secret st k (original k) s = (q, s1)" by (meson surj_pair)
  note law = put_law [OF q]
  show ?case
  proof (cases q)
    case (Ok u)
    with Cons.prems q have "restore_from st (map (\<lambda>k. (k, original k)) ks) failed s1 = (r, s')" by simp
    from Cons.IH [OF this] law Ok show ?thesis by (auto simp: fun_upd_def split: if_splits)
  next
    case (Err f)
    with Cons.prems q have "restore_from st (map (\<lambda>k. (k, original k)) ks) True s1 = (r, s')" by simp
    from Cons.IH [OF this] law Err show ?thesis by (auto simp: fun_upd_def split: if_splits)
  next
    case Panic
    with law show ?thesis by simp
  qed
qed (auto split: if_splits)

text \<open>After a rollback without a failure every key reads as it did when the originals were captured.\<close>

lemma rolled_back:
  assumes "roll_back st (map (\<lambda>k. (k, original k)) (map mutation_key ms)) e (s, c) = (r, (s', c'))"
    and "\<And>k. k \<notin> touched ms \<Longrightarrow> view s k = original k"
  shows "c' = c \<and> (\<exists>failed. r = Err (e failed) \<and>
     (\<not> failed \<longrightarrow> view s' = original \<and> (ms \<noteq> [] \<or> lasting s \<longrightarrow> lasting s')))
     \<and> (\<forall>k. k \<notin> touched ms \<longrightarrow> view s' k = original k)"
proof -
  obtain q s1 where q: "restore_originals st (map (\<lambda>k. (k, original k)) (map mutation_key ms)) s = (q, s1)"
    by (meson surj_pair)
  then have "restore_from st (map (\<lambda>k. (k, original k)) (rev (map mutation_key ms))) False s = (q, s1)"
    by (simp add: restore_originals_def rev_map)
  note law = restored [OF this]
  have keys: "set (rev (map mutation_key ms)) = touched ms" by (simp add: touched_def)
  have all: "view s1 = original" if "q = Ok ()"
    using that law assms(2) unfolding keys by (intro ext) metis
  show ?thesis
  proof (cases q)
    case (Ok u)
    with assms(1) q have "r = Err (e False)" "s' = s1" "c' = c" by (auto simp: roll_back_def)
    with law all Ok assms(2) show ?thesis unfolding keys by auto
  next
    case (Err f)
    with assms(1) q have "r = Err (e True)" "s' = s1" "c' = c" by (auto simp: roll_back_def)
    with law assms(2) show ?thesis unfolding keys by auto
  next
    case Panic
    with law show ?thesis by simp
  qed
qed


lemma update_outcome:
  assumes "execute_update factory st app_commit config (s, c) = (r, (s', c'))"
  shows "case r of
      Ok result \<Rightarrow>
        (\<exists>p. factory config (s, c) = Ok p \<and> view s' = fold mutate (ps_secret_mutations p) (view s)
           \<and> (ps_secret_mutations p \<noteq> [] \<or> lasting s \<longrightarrow> lasting s')
           \<and> (us_revision result, c') = commit_runtime_settings (ps_snapshot p) c)
    | Err e \<Rightarrow>
        c' = c \<and> (view s' = view s \<and> (lasting s \<longrightarrow> lasting s') \<or>
          (\<exists>p code. factory config (s, c) = Ok p \<and> e = Secret_Failed code True
             \<and> (\<forall>k. k \<notin> touched (ps_secret_mutations p) \<longrightarrow> view s' k = view s k)))
    | Panic \<Rightarrow> factory config (s, c) = Panic"
proof (cases "factory config (s, c)")
  case (Err e)
  with assms have "r = Err (Prepare_Failed e)" "s' = s" "c' = c" by (auto simp: execute_update_def)
  then show ?thesis by simp
next
  case Panic
  with assms show ?thesis by (auto simp: execute_update_def)
next
  case p: (Ok p)
  let ?ms = "ps_secret_mutations p"
  obtain o1 s1 where o: "capture_originals st ?ms s = (o1, s1)" by (meson surj_pair)
  note cap = captured [OF o [unfolded capture_originals_def], simplified]
  show ?thesis
  proof (cases o1)
    case (Err e)
    with assms p o have "r = Err e" "s' = s1" "c' = c" by (auto simp: execute_update_def on_secrets_def)
    with cap Err show ?thesis by auto
  next
    case Panic
    with cap show ?thesis by simp
  next
    case (Ok originals)
    with cap have orig: "originals = map (\<lambda>k. (k, view s k)) (map mutation_key ?ms)" by (simp add: comp_def)
    obtain a s2 where a: "apply_mutations st ?ms s1 = (a, s2)" by (meson surj_pair)
    note app = applied [OF a [unfolded apply_mutations_def]]
    show ?thesis
    proof (cases a)
      case Panic
      with app show ?thesis by simp
    next
      case u: (Ok u)
      obtain revision c1 where cm: "commit_runtime_settings (ps_snapshot p) c = (revision, c1)" by (meson surj_pair)
      with assms p o Ok a u have "r = Ok \<lparr>us_revision = revision,
          us_license_restricted_no_compat = ps_license_restricted_no_compat p\<rparr>" "s' = s2" "c' = c1"
        by (auto simp: execute_update_def on_secrets_def app_commit_def)
      with cm p app cap u show ?thesis by auto
    next
      case (Err code)
      with assms p o Ok a have undo: "roll_back st originals (Secret_Failed code) (s2, c) = (r, (s', c'))"
        by (simp add: execute_update_def on_secrets_def)
      have "view s2 k = view s k" if "k \<notin> touched ?ms" for k using that app cap by simp
      from rolled_back [OF undo [unfolded orig] this] obtain failed where
        "c' = c" "r = Err (Secret_Failed code failed)" "\<not> failed \<longrightarrow> view s' = view s \<and> (?ms \<noteq> [] \<or> lasting s2 \<longrightarrow> lasting s')"
        "\<forall>k. k \<notin> touched ?ms \<longrightarrow> view s' k = view s k" by blast
      with app Err p show ?thesis by (cases failed) auto
    qed
  qed
qed

end

end
