(* ===== verification/Settings_Properties.thy ===== *)
theory Settings_Properties
  imports Settings
begin

text \<open>
  What a settings update promises over the Stronghold store and the runtime of the server (C40), and a
  small vault whose snapshot fails to be written once, on which the witness evaluates it.
\<close>

section \<open>A vault\<close>

text \<open>A session, a snapshot, and a script of the snapshots that cannot be written.\<close>

type_synonym demo_vault = "(string \<Rightarrow> string option) \<times> (string \<Rightarrow> string option) \<times> bool list"

definition demo_lib :: "demo_vault vault" where
  "demo_lib =
     \<lparr>vault_client = (\<lambda>v. (True, v)),
      vault_read = (\<lambda>k (held, kept, faults). (Ok (held k), (held, kept, faults))),
      vault_insert = (\<lambda>k x (held, kept, faults). (Ok (), (held(k \<mapsto> x), kept, faults))),
      vault_remove = (\<lambda>k (held, kept, faults). (Ok (), (held(k := None), kept, faults))),
      vault_key_provider = (\<lambda>v. (True, v)),
      vault_write = (\<lambda>(held, kept, faults).
        if faults \<noteq> [] \<and> hd faults then (Err (), (held, kept, tl faults)) else (Ok (), (held, held, tl faults)))\<rparr>"

definition demo_held :: "demo_vault \<Rightarrow> string \<Rightarrow> string option" where "demo_held v = fst v"
definition demo_kept :: "demo_vault \<Rightarrow> string \<Rightarrow> string option" where "demo_kept v = fst (snd v)"

lemma demo_vault_ok: "vault_ok demo_lib demo_held demo_kept"
  by (auto simp: vault_ok_def demo_lib_def quiet_def demo_held_def demo_kept_def)

definition demo_factory :: "unit \<Rightarrow> 'w \<Rightarrow> (string, (unit, unit) prepared_runtime prepared_settings) res" where
  "demo_factory config w =
     Ok \<lparr>ps_snapshot = \<lparr>pt_registry = (), pt_default_model = ''model'', pt_agent_config = ()\<rparr>,
         ps_secret_mutations = [Delete_Secret ''anthropic_api_key'', Set_Secret ''openai_compat_api_key'' ''new''],
         ps_license_restricted_no_compat = False\<rparr>"

definition demo_keys :: "string \<Rightarrow> string option" where
  "demo_keys = [''anthropic_api_key'' \<mapsto> ''old'', ''openai_compat_api_key'' \<mapsto> ''mine'']"

definition demo_vault :: demo_vault where "demo_vault = (demo_keys, demo_keys, [False, True])"

definition demo_runtime :: "(unit, unit) runtime_settings" where
  "demo_runtime = \<lparr>rs_registry = (), rs_default_model = ''old'', rs_agent_config = (), rs_revision = 7\<rparr>"

lemma demo_update:
  "fst (execute_update demo_factory (vault_store demo_lib) app_commit () (demo_vault, demo_runtime)) =
     Err (Secret_Failed ''write'' False)"
  by (simp add: execute_update_def demo_factory_def vault_store_def demo_lib_def app_commit_def demo_vault_def
      demo_keys_def on_secrets_def capture_originals_def apply_mutations_def apply_mutation_def vault_get_def vault_set_def
      vault_delete_def vault_commit_def check_call_def roll_back_def restore_originals_def put_secret_def utf8.simps byte_def)

section \<open>All or nothing\<close>

text \<open>
  C40. A settings update is all or nothing. When it succeeds, every secret reads as the mutations, taken in
  order, leave it, the runtime is the prepared one at the next revision, and a restart would find the same
  secrets. When it fails, the runtime is as it was, and so is every secret, before and after a restart, even
  if a write that reported its failure had taken effect; only an error that says that the rollback failed
  leaves more, and then no key is touched that the mutations do not name.
\<close>

theorem settings_update_is_all_or_nothing:
  assumes "vault_ok lib held kept"
    and "execute_update factory (vault_store lib) app_commit config (v, c) = (r, (v', c'))"
  shows "case r of
      Ok result \<Rightarrow>
        (\<exists>p. factory config (v, c) = Ok p \<and> held v' = fold mutate (ps_secret_mutations p) (held v)
           \<and> (ps_secret_mutations p \<noteq> [] \<or> kept v = held v \<longrightarrow> kept v' = held v')
           \<and> (us_revision result, c') = commit_runtime_settings (ps_snapshot p) c)
    | Err e \<Rightarrow>
        c' = c \<and> (held v' = held v \<and> (kept v = held v \<longrightarrow> kept v' = held v') \<or>
          (\<exists>p code. factory config (v, c) = Ok p \<and> e = Secret_Failed code True
             \<and> (\<forall>k. k \<notin> touched (ps_secret_mutations p) \<longrightarrow> held v' k = held v k)))
    | Panic \<Rightarrow> factory config (v, c) = Panic"
  by (rule secret_store.update_outcome [OF vault_is_secret_store [OF assms(1)] assms(2)])

theorem settings_update_is_all_or_nothing_witness:
  "\<exists>v'. execute_update demo_factory (vault_store demo_lib) app_commit () (demo_vault, demo_runtime)
       = (Err (Secret_Failed ''write'' False), (v', demo_runtime))
     \<and> demo_held v' = demo_keys \<and> demo_kept v' = demo_keys"
proof -
  obtain r v' c' where run:
    "execute_update demo_factory (vault_store demo_lib) app_commit () (demo_vault, demo_runtime) = (r, (v', c'))"
    by (metis prod.collapse)
  with demo_update have r: "r = Err (Secret_Failed ''write'' False)" by simp
  from settings_update_is_all_or_nothing [OF demo_vault_ok run] r
  have "c' = demo_runtime \<and> demo_held v' = demo_held demo_vault \<and>
      (demo_kept demo_vault = demo_held demo_vault \<longrightarrow> demo_kept v' = demo_held v')" by simp
  with run r show ?thesis by (simp add: demo_vault_def demo_held_def demo_kept_def)
qed

end
