(* ===== verification/Spec2Isabelle.thy ===== *)
theory Spec2Isabelle
  imports Combat_Properties Rules_Properties Campaign_Properties Encounter_Properties Hero_Properties
    Recovery_Properties Store_Properties Settings_Properties
begin

text \<open>
  Verification of the rules engine of Dungeon Master AI, a desktop game master for the SRD 5.2.1.
  The language model of the program only proposes and narrates; what happens to a hero is decided by
  the Rust crate \<^verbatim>\<open>crates/app-domain\<close>, and this development is about that decision.

  \<^bold>\<open>Layers.\<close>
  \<^item> \<^theory_text>\<open>Prelude\<close>: scalars with the wrapping and saturating arithmetic of Rust, results with
    panic as a value, the \<open>?\<close> operator on functions that change a state, keyed tables for the maps of
    the source with their interface (locale \<open>keyed_table\<close>), reachable states (locale \<open>invariant_machine\<close>).
  \<^item> \<^theory_text>\<open>Dice\<close> (\<^verbatim>\<open>dice.rs\<close>, \<^verbatim>\<open>rng.rs\<close>), \<^theory_text>\<open>Combat_Types\<close> (\<^verbatim>\<open>combat/types.rs\<close>, \<^verbatim>\<open>conditions.rs\<close>,
    \<^verbatim>\<open>result_events.rs\<close>), \<^theory_text>\<open>Checks\<close> (\<^verbatim>\<open>attack.rs\<close>, \<^verbatim>\<open>ability_check.rs\<close>, \<^verbatim>\<open>saving_throw.rs\<close>,
    \<^verbatim>\<open>skills.rs\<close>): rolls over an explicit random stream. The sampler of the \<open>rand\<close> crate is an
    argument; \<open>sampler_ok\<close> states what is relied on: a roll lies in the range asked for.
  \<^item> \<^theory_text>\<open>Catalog\<close>, \<^theory_text>\<open>Loadout\<close>, \<^theory_text>\<open>Magic\<close>, \<^theory_text>\<open>Defense\<close>: the character catalog
    (an argument: it is parsed from YAML) and the statistics derived from it.
  \<^item> \<^theory_text>\<open>Initiative\<close>, \<^theory_text>\<open>Geometry\<close>, \<^theory_text>\<open>Combatant\<close>: the cyclic turn order (locale
    \<open>turn_order\<close>), the battle map with its path finder and line of sight, and the combatant with damage,
    healing, death saves, natural recovery and the action budget. The locale \<open>evolution\<close> holds what every
    preorder on states gives to functions written with \<open>?\<close>; it is interpreted for combatants, for the
    resolver and for the effects of a spell.
  \<^item> \<^theory_text>\<open>Resolver_State\<close>, \<^theory_text>\<open>Attacks\<close>, \<^theory_text>\<open>Spell_Resolution\<close>, \<^theory_text>\<open>Resolver\<close>: the
    combat engine of \<^verbatim>\<open>combat/resolver.rs\<close> and \<^verbatim>\<open>combat/spell_resolution.rs\<close>, one definition per
    method (and one per block of the long ones), \<open>resolve\<close> being the dispatcher. \<^theory_text>\<open>Skirmish\<close> is
    a small concrete fight that the witnesses evaluate.
  \<^item> \<^theory_text>\<open>Turn_Phases\<close>, \<^theory_text>\<open>Party\<close>, \<^theory_text>\<open>Rest\<close>, \<^theory_text>\<open>Adventure\<close>: the phases of a
    turn of play, party membership, rests, and the authored adventure, each with its reachable states.
  \<^item> \<^theory_text>\<open>Shortest_Path\<close>: the breadth-first search returns a shortest route, so that movement is priced
    fairly.
  \<^item> \<^theory_text>\<open>Adventure_View\<close>, \<^theory_text>\<open>Encounter\<close>, \<^theory_text>\<open>Authored_Combat\<close>, \<^theory_text>\<open>Combat_Service\<close>: the
    application layer around the engine (\<^verbatim>\<open>crates/app-application/src/models\<close> and \<^verbatim>\<open>combat\<close>): the
    public view of the adventure, the stored projection of a fight with its way to the engine and back,
    the automatic turns, the defense of the archive, and the use cases that resolve one command and
    reconcile the participants. The repository is an argument: one function per method over a state of
    its own. \<^theory_text>\<open>Monster_Turns\<close> and \<^theory_text>\<open>Encounter_State\<close> hold their invariants.
  \<^item> \<^theory_text>\<open>Json\<close>, \<^theory_text>\<open>Character_Document\<close>, \<^theory_text>\<open>Vitality\<close>: the document a hero is kept as, a JSON sheet and an
    inventory (\<^verbatim>\<open>models/session.rs\<close>, \<^verbatim>\<open>models/rest.rs\<close>, \<^verbatim>\<open>vitality.rs\<close>): serde values, the field readers of the
    rules, the vitality of a sheet and what a rest does to it. The locale \<open>codec\<close> states the round trip
    of the types that are stored as JSON.
  \<^item> \<^theory_text>\<open>Hero\<close>, \<^theory_text>\<open>Hero_State\<close>, \<^theory_text>\<open>Demo_Hero\<close>: the way of a document into a fight and back
    (\<^verbatim>\<open>combat/hero.rs\<close>, \<^verbatim>\<open>combat/projection.rs\<close>): the starting combatant, its abilities, armor and
    attacks, and the resources that are written back. \<^theory_text>\<open>Participants\<close> follows the participants of a
    fight through the engine.
  \<^item> \<^theory_text>\<open>Recovery\<close>, \<^theory_text>\<open>Recovery_State\<close>: what happens to a hero who lies at zero hit points outside a fight,
    hour by hour (\<^verbatim>\<open>recovery.rs\<close>, \<^verbatim>\<open>solo_recovery.rs\<close>), with the deadlines that the passing of time has to meet.
  \<^item> \<^theory_text>\<open>Sqlite\<close>, \<^theory_text>\<open>Combat_Binding\<close>, \<^theory_text>\<open>Combat_Store\<close>: the combat repository of \<^verbatim>\<open>crates/adapter-sqlite\<close>
    (\<^verbatim>\<open>combat.rs\<close>, \<^verbatim>\<open>combat_binding.rs\<close> and the parts of \<^verbatim>\<open>campaign_state.rs\<close> and \<^verbatim>\<open>session.rs\<close> they call): the tables, the
    transactions, the statements in the order the code issues them, and the heroes whose sheets are
    written with the fight. \<^theory_text>\<open>Store_State\<close> has their invariants.
  \<^item> \<^theory_text>\<open>Ledger\<close>, \<^theory_text>\<open>Ledger_Runs\<close>, \<^theory_text>\<open>Combat_Session\<close>: the abstract specification of that repository, a
    log of recorded actions and one active fight for each campaign; its runs; and the clients of the
    repository, whose calls interleave (locale \<open>action_log\<close>).
  \<^item> \<^theory_text>\<open>Settings\<close>: the settings transaction of \<^verbatim>\<open>settings/update.rs\<close> over the secret stores of
    \<^verbatim>\<open>crates/adapter-secrets\<close> (locale \<open>secret_store\<close>, interpreted on both).

  \<^bold>\<open>Properties.\<close> \<^theory_text>\<open>Combat_Properties\<close> (C1 to C10) states what the engine promises as a whole,
  \<^theory_text>\<open>Rules_Properties\<close> (C11 to C17) what its parts promise, \<^theory_text>\<open>Campaign_Properties\<close> (C18 to
  C26) what the rules outside combat promise, \<^theory_text>\<open>Encounter_Properties\<close> (C27 to C32) what the combat use
  cases promise of a stored encounter, \<^theory_text>\<open>Hero_Properties\<close> (C33 to C35) what a document promises the
  fight and the fight the document, \<^theory_text>\<open>Recovery_Properties\<close> (C36) that time decides the fate of the
  dying, \<^theory_text>\<open>Store_Properties\<close> (C37 to C39) that the SQL of the combat repository implements the
  abstract ledger, that an action is recorded and applied at most once, and that a client may send it
  again, and \<^theory_text>\<open>Settings\<close> (C40) that a settings update is all or nothing.

  \<^bold>\<open>Conventions.\<close> A \<open>&mut self\<close> method is a function from state to a result paired with the state it
  leaves, also on an error. Integers wrap at their width, as in a release build. An \<open>unwrap\<close> or an index
  that would fail is the value \<open>Panic\<close>, and properties show that it is not reached. Loops are structural
  recursion, or functions with a termination proof: the breadth-first search is bounded by the cells not
  yet seen, the line of sight by the distance left, the walk of a monster by its movement. The one bound that is an argument is that of
  \<open>trace_back\<close>, which follows parent links; it is given the number of links, and C13 shows that it never
  runs out. The rounds of \<open>settle_npcs_until\<close> are the bound of the source, one more than the places of the
  order; C27 shows that they are never used up.
  The database is a record of typed tables: a row holds the values its columns are decoded to, so the
  encoding of a column is not part of it (the round trips of the stored documents are C28 and C35).
  A transaction carries a script of faults: each statement takes the next entry and fails when it says
  so, and a transaction that returns an error leaves the tables as they were. Other clients act between
  the calls of one client, and the properties quantify over what they do. Triggers that only set
  timestamps are left out.

  \<^bold>\<open>Not modelled.\<close> \<open>CombatantId::new\<close> (it draws a random uuid), the embedding search of
  \<^verbatim>\<open>srd/retriever.rs\<close>, the YAML loader and the parts of the catalog no rule reads. Of
  \<^verbatim>\<open>adapter-sqlite\<close>: the creation of a fight with its membership (\<open>create\<close>, \<open>bind_start\<close>,
  \<open>reconcile_membership\<close>), the saves and the repositories of chats, rooms, snapshots, media and bundles. Of
  \<^verbatim>\<open>app-application\<close>: the agent (its turns are driven by the answers of a language model), the rooms, the
  campaign bundles and the media assets. The HTTP, language model and media adapters, the server and the desktop
  shell are input and output around these rules.
\<close>

end
